(* ===== verification/Prelude.thy ===== *)
theory Prelude
  imports Main
begin

text \<open>
  Shared vocabulary of the development.

  \<^item> \<^theory_text>\<open>result\<close>: what a Go function returning a value and an error returns: \<open>Inl\<close> the
    error, \<open>Inr\<close> the value.
  \<^item> the collections \<open>machine_defs\<close> (unfolding rules of the model's small constants) and
    \<open>no_comma\<close> (facts that a string holds no comma);
  \<^item> two interfaces several components share. The locale \<open>checker\<close> is a validation
    function with the property it decides, and carries the loop "check every element, report
    the index of the first that fails", which \<^verbatim>\<open>Spec.validate\<close> runs over monitors, NICs and
    disks. The locale \<open>framing\<close> is a self-delimiting encoding, and carries the fact that a
    stream of frames determines the frames, which is what a fingerprint rests on.
\<close>

named_theorems machine_defs
named_theorems no_comma

type_synonym ('e, 'a) result = "'e + 'a"

subsection \<open>Lists and options\<close>

lemma takeWhile_append_stop:
  assumes "\<forall>x \<in> set xs. P x" and "\<not> P y"
  shows "takeWhile P (xs @ y # ys) = xs" and "dropWhile P (xs @ y # ys) = y # ys"
  using assms by simp_all

lemma takeWhile_all: "\<forall>x \<in> set xs. P x \<Longrightarrow> takeWhile P xs = xs"
  and dropWhile_all: "\<forall>x \<in> set xs. P x \<Longrightarrow> dropWhile P xs = []"
  by simp_all

lemma find_SomeD: "find P xs = Some x \<Longrightarrow> x \<in> set xs \<and> P x"
  by (auto simp: find_Some_iff)

lemma filter_concat_map:
  "filter P (concat (map f xs)) = concat (map (\<lambda>x. filter P (f x)) xs)"
  by (simp add: filter_concat comp_def)

lemma map_inj_on_eq:
  assumes "map f xs = map f ys" and "\<And>x y. x \<in> set xs \<Longrightarrow> y \<in> set ys \<Longrightarrow> f x = f y \<Longrightarrow> x = y"
  shows "xs = ys"
  using assms
proof (induction xs arbitrary: ys)
  case Nil
  then show ?case by simp
next
  case (Cons x xs)
  from Cons.prems(1) obtain y zs where ys: "ys = y # zs" by (cases ys) auto
  with Cons show ?case by auto
qed

lemma append_split_cases:
  "p @ u = a @ b \<Longrightarrow> (\<exists>us. a = p @ us \<and> us @ b = u) \<or> (\<exists>us. us \<noteq> [] \<and> a @ us = p \<and> b = us @ u)"
  by (auto simp: append_eq_append_conv2)

subsection \<open>Checkers: a validation function and what it decides\<close>

text \<open>\<open>check_each\<close> is the loop over a slice that stops at the first element its check
  refuses and wraps the error with that element's index.\<close>

fun check_each :: "('a \<Rightarrow> 'e option) \<Rightarrow> nat \<Rightarrow> 'a list \<Rightarrow> (nat \<times> 'e) option" where
  "check_each chk i [] = None"
| "check_each chk i (x # xs) =
     (case chk x of Some e \<Rightarrow> Some (i, e) | None \<Rightarrow> check_each chk (Suc i) xs)"

locale checker =
  fixes chk :: "'a \<Rightarrow> 'e option"
    and ok :: "'a \<Rightarrow> bool"
  assumes chk_None: "chk x = None \<longleftrightarrow> ok x"
begin

lemma check_each_None: "check_each chk i xs = None \<longleftrightarrow> (\<forall>x \<in> set xs. ok x)"
  by (induction xs arbitrary: i) (auto simp: chk_None[symmetric] split: option.splits)

lemma check_each_Some:
  "check_each chk i xs = Some (j, e) \<longleftrightarrow>
     (\<exists>n < length xs. j = i + n \<and> chk (xs ! n) = Some e \<and> (\<forall>k < n. ok (xs ! k)))"
proof (induction xs arbitrary: i)
  case Nil
  then show ?case by simp
next
  case (Cons x xs)
  show ?case
  proof (cases "chk x")
    case None
    then have "ok x" by (simp add: chk_None)
    with None Cons.IH [of "Suc i"] show ?thesis
      by (simp add: Ex_less_Suc2 All_less_Suc2)
  next
    case (Some e')
    then have "\<not> ok x" by (metis chk_None option.distinct(1))
    with Some show ?thesis
      by (auto simp: Ex_less_Suc2 All_less_Suc2)
  qed
qed

end

subsection \<open>Framing: an encoding whose end can be found\<close>

locale framing =
  fixes enc :: "'a \<Rightarrow> 'b list"
    and dec :: "'b list \<Rightarrow> ('a \<times> 'b list) option"
    and valid :: "'a \<Rightarrow> bool"
  assumes dec_enc: "valid x \<Longrightarrow> dec (enc x @ rest) = Some (x, rest)"
    and enc_nonempty: "valid x \<Longrightarrow> enc x \<noteq> []"
begin

lemma enc_prefix_free:
  assumes "valid x" and "valid y" and "enc x @ r = enc y @ s"
  shows "x = y \<and> r = s"
proof -
  have "Some (x, r) = Some (y, s)"
    using dec_enc [OF assms(1), of r] dec_enc [OF assms(2), of s] by (simp only: assms(3))
  then show ?thesis by simp
qed

lemma stream_inj:
  assumes "list_all valid xs" and "list_all valid ys"
    and "concat (map enc xs) = concat (map enc ys)"
  shows "xs = ys"
  using assms
proof (induction xs arbitrary: ys)
  case Nil
  then show ?case using enc_nonempty by (cases ys) auto
next
  case (Cons x xs)
  then obtain y zs where ys: "ys = y # zs"
    using enc_nonempty by (cases ys) auto
  with Cons.prems have "x = y \<and> concat (map enc xs) = concat (map enc zs)"
    by (intro enc_prefix_free) auto
  with Cons ys show ?case by auto
qed

end

subsection \<open>Lists of results\<close>

text \<open>The values of a list of which each is there, as a loop collects them that stops at the first that
  is not.\<close>

fun all_some :: "'a option list \<Rightarrow> 'a list option" where
  "all_some [] = Some []"
| "all_some (None # xs) = None"
| "all_some (Some x # xs) = map_option ((#) x) (all_some xs)"

lemma all_some_Some: "all_some xs = Some ys \<longleftrightarrow> xs = map Some ys"
  by (induction xs arbitrary: ys rule: all_some.induct) auto

end
