(* ===== verification/Go_Strings.thy ===== *)
theory Go_Strings
  imports Prelude
begin

text \<open>
  Go strings and the functions of \<^verbatim>\<open>strings\<close>, \<^verbatim>\<open>strconv\<close> and \<^verbatim>\<open>fmt\<close> the program uses.

  A Go string is a sequence of bytes, and so is \<^typ>\<open>string\<close>: a \<^typ>\<open>char\<close> is one byte.
  Functions the program calls with an ASCII separator or character set work byte by byte,
  because no byte of a multi-byte UTF-8 sequence is below 0x80. Unicode white space
  (\<^verbatim>\<open>TrimSpace\<close>, \<^verbatim>\<open>Fields\<close>) is recognised by its UTF-8 encodings, whose first byte is never a
  continuation byte, so matching them at each position agrees with decoding rune by rune.

  The lemmas show that \<^verbatim>\<open>%d\<close> and \<^verbatim>\<open>%x\<close> name each number once and hold no separator, that
  \<^verbatim>\<open>Split\<close> undoes \<^verbatim>\<open>Join\<close> on parts without the separator, and how \<^verbatim>\<open>Cut\<close> behaves.
\<close>

subsection \<open>Prefixes and cutting\<close>

definition HasPrefix :: "string \<Rightarrow> string \<Rightarrow> bool" where
  "HasPrefix s p = (take (length p) s = p)"

definition CutPrefix :: "string \<Rightarrow> string \<Rightarrow> string \<times> bool" where
  "CutPrefix s p = (if HasPrefix s p then (drop (length p) s, True) else (s, False))"

text \<open>\<^verbatim>\<open>strings.Cut\<close> with a one-byte separator: before, after, found.\<close>

definition Cut :: "string \<Rightarrow> char \<Rightarrow> string \<times> string \<times> bool" where
  "Cut s c = (case dropWhile (\<lambda>x. x \<noteq> c) s of
      [] \<Rightarrow> (s, [], False)
    | _ # r \<Rightarrow> (takeWhile (\<lambda>x. x \<noteq> c) s, r, True))"

lemma Cut_found: "c \<notin> set a \<Longrightarrow> Cut (a @ c # b) c = (a, b, True)"
  by (induction a) (auto simp: Cut_def split: list.splits)

lemma Cut_not_found: "c \<notin> set s \<Longrightarrow> Cut s c = (s, [], False)"
  unfolding Cut_def by (subst dropWhile_all) auto

lemma Cut_fst: "fst (Cut s c) = takeWhile (\<lambda>x. x \<noteq> c) s"
proof (cases "c \<in> set s")
  case True
  then obtain a b where "s = a @ c # b" and "c \<notin> set a" by (metis split_list_first)
  moreover have "takeWhile (\<lambda>x. x \<noteq> c) (a @ c # b) = a"
    using \<open>c \<notin> set a\<close> by (intro takeWhile_append_stop) auto
  ultimately show ?thesis using Cut_found [of c a b] by simp
next
  case False
  then have "takeWhile (\<lambda>x. x \<noteq> c) s = s" by (intro takeWhile_all) blast
  then show ?thesis unfolding Cut_not_found [OF False] by (simp only: fst_conv)
qed

lemma HasPrefix_append [simp]: "HasPrefix (p @ s) p"
  by (simp add: HasPrefix_def)

lemma HasPrefix_iff: "HasPrefix s p \<longleftrightarrow> (\<exists>r. s = p @ r)"
  unfolding HasPrefix_def by (metis append_eq_conv_conj append_take_drop_id)

text \<open>\<^verbatim>\<open>strings.Contains\<close> and \<^verbatim>\<open>bytes.Contains\<close>.\<close>

fun Contains :: "string \<Rightarrow> string \<Rightarrow> bool" where
  "Contains [] m = (m = [])"
| "Contains (c # cs) m = (HasPrefix (c # cs) m \<or> Contains cs m)"

lemma Contains_iff: "Contains s m \<longleftrightarrow> (\<exists>a b. s = a @ m @ b)"
proof (induction s m rule: Contains.induct)
  case (1 m)
  then show ?case by auto
next
  case (2 c cs m)
  show ?case
  proof
    assume "Contains (c # cs) m"
    then show "\<exists>a b. c # cs = a @ m @ b"
      using 2 by (auto simp: HasPrefix_iff) (metis append_Cons append_Nil)+
  next
    assume "\<exists>a b. c # cs = a @ m @ b"
    then obtain a b where ab: "c # cs = a @ m @ b" by blast
    show "Contains (c # cs) m"
    proof (cases a)
      case Nil
      then have "HasPrefix (c # cs) m" using ab by (simp add: HasPrefix_iff)
      then show ?thesis by simp
    next
      case (Cons x xs)
      then have "Contains cs m" using ab 2 by auto
      then show ?thesis by simp
    qed
  qed
qed

lemma Contains_mono: "Contains s m \<Longrightarrow> Contains (a @ s) m"
  unfolding Contains_iff by (metis append_assoc)

lemma Contains_mono_right: "Contains s m \<Longrightarrow> Contains (s @ a) m"
  unfolding Contains_iff by (metis append_assoc)

lemma Contains_self [simp]: "Contains s s"
  unfolding Contains_iff by (metis append_Nil append_Nil2)

lemma Contains_trans: "Contains s t \<Longrightarrow> Contains t m \<Longrightarrow> Contains s m"
  unfolding Contains_iff by (metis append_assoc)

lemma Contains_concat: "x \<in> set xs \<Longrightarrow> Contains (f x) m \<Longrightarrow> Contains (concat (map f xs)) m"
  by (induction xs) (auto intro: Contains_mono Contains_mono_right)

lemma HasPrefix_append_stop: "w \<notin> set p \<Longrightarrow> HasPrefix (s @ w # b) p \<longleftrightarrow> HasPrefix s p"
proof (induction p arbitrary: s)
  case Nil
  then show ?case by (simp add: HasPrefix_def)
next
  case (Cons c p)
  then show ?case by (cases s) (auto simp: HasPrefix_def)
qed

text \<open>\<^verbatim>\<open>\s\<close> of a regular expression.\<close>

definition re_space :: "char \<Rightarrow> bool" where
  "re_space c = (of_char c \<in> {9, 10, 12, 13, 32 :: nat})"

subsection \<open>Split, Join, ReplaceAll\<close>

text \<open>\<^verbatim>\<open>strings.Split\<close> with a one-byte separator. It never returns an empty slice.\<close>

fun Split :: "string \<Rightarrow> char \<Rightarrow> string list" where
  "Split [] c = [[]]"
| "Split (x # xs) c =
     (if x = c then [] # Split xs c
      else (case Split xs c of [] \<Rightarrow> [[x]] | p # ps \<Rightarrow> (x # p) # ps))"

fun Join :: "string list \<Rightarrow> string \<Rightarrow> string" where
  "Join [] sep = []"
| "Join [x] sep = x"
| "Join (x # y # ys) sep = x @ sep @ Join (y # ys) sep"

text \<open>\<^verbatim>\<open>strings.ReplaceAll\<close> of a one-byte old value.\<close>

definition ReplaceAll :: "string \<Rightarrow> char \<Rightarrow> string \<Rightarrow> string" where
  "ReplaceAll s c r = concat (map (\<lambda>x. if x = c then r else [x]) s)"

lemma Split_nonempty [simp]: "Split s c \<noteq> []"
  by (cases s) (auto split: list.splits)

lemma Split_no_sep: "c \<notin> set s \<Longrightarrow> Split s c = [s]"
  by (induction s) auto

lemma Split_sep: "Split (a @ c # b) c = Split a c @ Split b c"
  by (induction a) (auto split: list.splits)

lemma Split_part: "c \<notin> set a \<Longrightarrow> Split (a @ c # b) c = a # Split b c"
  by (simp add: Split_sep Split_no_sep)

lemma Split_parts_no_sep: "p \<in> set (Split s c) \<Longrightarrow> c \<notin> set p"
proof (induction s arbitrary: p)
  case Nil
  then show ?case by simp
next
  case (Cons x s)
  obtain q qs where "Split s c = q # qs" by (cases "Split s c") auto
  with Cons show ?case by (auto split: if_splits)
qed

lemma Join_Cons: "xs \<noteq> [] \<Longrightarrow> Join (x # xs) sep = x @ sep @ Join xs sep"
  by (cases xs) auto

lemma Join_append:
  "xs \<noteq> [] \<Longrightarrow> ys \<noteq> [] \<Longrightarrow> Join (xs @ ys) sep = Join xs sep @ sep @ Join ys sep"
proof (induction xs)
  case Nil
  then show ?case by simp
next
  case (Cons x xs)
  then show ?case by (cases xs) (auto simp: Join_Cons)
qed

lemma Split_Join:
  "xs \<noteq> [] \<Longrightarrow> \<forall>x \<in> set xs. c \<notin> set x \<Longrightarrow> Split (Join xs [c]) c = xs"
proof (induction xs)
  case Nil
  then show ?case by simp
next
  case (Cons x xs)
  then show ?case by (cases xs) (auto simp: Split_no_sep Split_part)
qed

lemma Join_Split: "Join (Split s c) [c] = s"
proof (induction s)
  case Nil
  then show ?case by simp
next
  case (Cons x s)
  obtain q qs where "Split s c = q # qs" by (cases "Split s c") auto
  with Cons show ?case by (cases qs) (auto simp: Join_Cons)
qed

lemma length_Join:
  "length (Join (map f xs) sep) \<ge> length (f x)" if "x \<in> set xs"
  using that
proof (induction xs)
  case Nil
  then show ?case by simp
next
  case (Cons y ys)
  then show ?case by (cases ys) auto
qed

subsection \<open>White space\<close>

text \<open>\<^verbatim>\<open>strings.FieldsFunc\<close> for a predicate that holds of ASCII characters only.\<close>

function FieldsFunc :: "string \<Rightarrow> (char \<Rightarrow> bool) \<Rightarrow> string list" where
  "FieldsFunc [] p = []"
| "FieldsFunc (c # cs) p =
     (if p c then FieldsFunc cs p
      else (c # takeWhile (\<lambda>x. \<not> p x) cs) # FieldsFunc (dropWhile (\<lambda>x. \<not> p x) cs) p)"
  by pat_completeness auto
termination
  by (relation "measure (\<lambda>(s, p). length s)") (auto simp: length_dropWhile_le le_imp_less_Suc)

text \<open>The encodings of \<^verbatim>\<open>unicode.IsSpace\<close>: the ASCII ones, and those of U+0085, U+00A0, U+1680,
  U+2000 to U+200A, U+2028, U+2029, U+202F, U+205F and U+3000.\<close>

definition ascii_space :: "char \<Rightarrow> bool" where
  "ascii_space c = (of_char c \<in> {9, 10, 11, 12, 13, 32 :: nat})"

definition wide_spaces :: "nat list list" where
  "wide_spaces =
     [[0xC2, 0x85], [0xC2, 0xA0], [0xE1, 0x9A, 0x80]] @
     map (\<lambda>b. [0xE2, 0x80, b]) ([0x80..<0x8B] @ [0xA8, 0xA9, 0xAF]) @
     [[0xE2, 0x81, 0x9F], [0xE3, 0x80, 0x80]]"

text \<open>How many bytes the white space rune at the front of a string has, 0 when none is there.
  The reversed form looks at the back.\<close>

definition space_width :: "string \<Rightarrow> nat" where
  "space_width s = (case s of
      [] \<Rightarrow> 0
    | c # _ \<Rightarrow>
        if of_char c < (128 :: nat) then (if ascii_space c then 1 else 0)
        else (case find (\<lambda>e. map char_of e = take (length e) s) wide_spaces of
                None \<Rightarrow> 0 | Some e \<Rightarrow> length e))"

definition space_width_last :: "string \<Rightarrow> nat" where
  "space_width_last r = (case r of
      [] \<Rightarrow> 0
    | c # _ \<Rightarrow>
        if of_char c < (128 :: nat) then (if ascii_space c then 1 else 0)
        else (case find (\<lambda>e. map char_of (rev e) = take (length e) r) wide_spaces of
                None \<Rightarrow> 0 | Some e \<Rightarrow> length e))"

lemma space_width_le: "space_width s \<le> length s"
proof (cases s)
  case Nil
  then show ?thesis by (simp add: space_width_def)
next
  case (Cons c cs)
  have "length e \<le> length s" if "find (\<lambda>e. map char_of e = take (length e) s) wide_spaces = Some e" for e
  proof -
    from that have "map char_of e = take (length e) s" by (auto simp: find_Some_iff)
    then have "length e = min (length e) (length s)" by (metis length_map length_take min.commute)
    then show ?thesis by simp
  qed
  with Cons show ?thesis by (auto simp: space_width_def split: option.splits)
qed

text \<open>Dropping white space from one end: the first argument measures it.\<close>

function trim_front :: "(string \<Rightarrow> nat) \<Rightarrow> string \<Rightarrow> string" where
  "trim_front w s = (if s = [] \<or> w s = 0 then s else trim_front w (drop (w s) s))"
  by pat_completeness auto
termination
  by (relation "measure (\<lambda>(w, s). length s)") auto

declare trim_front.simps [simp del]

definition TrimSpace :: "string \<Rightarrow> string" where
  "TrimSpace s = rev (trim_front space_width_last (rev (trim_front space_width s)))"

text \<open>\<^verbatim>\<open>strings.Fields\<close>: the accumulator is the field being read, reversed.\<close>

function fields_from :: "string \<Rightarrow> string \<Rightarrow> string list" where
  "fields_from acc [] = (if acc = [] then [] else [rev acc])"
| "fields_from acc (c # cs) =
     (case space_width (c # cs) of
        0 \<Rightarrow> fields_from (c # acc) cs
      | Suc k \<Rightarrow> (if acc = [] then [] else [rev acc]) @ fields_from [] (drop k cs))"
  by pat_completeness auto
termination
  by (relation "measure (\<lambda>(acc, s). length s)") auto

definition Fields :: "string \<Rightarrow> string list" where
  "Fields s = fields_from [] s"

lemma trim_front_fixed:
  "s = [] \<or> w s = 0 \<Longrightarrow> trim_front w s = s"
  by (subst trim_front.simps) simp

lemma TrimSpace_fixed:
  assumes "s = [] \<or> space_width s = 0" and "s = [] \<or> space_width_last (rev s) = 0"
  shows "TrimSpace s = s"
  using assms by (auto simp: TrimSpace_def trim_front_fixed)

lemma TrimSpace_Nil [simp]: "TrimSpace [] = []"
  by (simp add: TrimSpace_fixed)

lemma FieldsFunc_split: "p c \<Longrightarrow> FieldsFunc (a @ c # b) p = FieldsFunc a p @ FieldsFunc b p"
proof (induction a p rule: FieldsFunc.induct)
  case (1 p)
  then show ?case by simp
next
  case (2 x xs p)
  show ?case
  proof (cases "p x")
    case True
    with 2 show ?thesis by simp
  next
    case False
    show ?thesis
    proof (cases "\<exists>y \<in> set xs. p y")
      case True
      then have "takeWhile (\<lambda>x. \<not> p x) (xs @ c # b) = takeWhile (\<lambda>x. \<not> p x) xs"
        and "dropWhile (\<lambda>x. \<not> p x) (xs @ c # b) = dropWhile (\<lambda>x. \<not> p x) xs @ c # b"
        by (auto simp: takeWhile_append dropWhile_append1)
      with False 2 show ?thesis by simp
    next
      case none: False
      then have "takeWhile (\<lambda>x. \<not> p x) (xs @ c # b) = xs"
        and "dropWhile (\<lambda>x. \<not> p x) (xs @ c # b) = c # b"
        using 2(3) by auto
      with False none 2(3) show ?thesis by (simp add: takeWhile_all dropWhile_all)
    qed
  qed
qed

lemma FieldsFunc_single: "s \<noteq> [] \<Longrightarrow> \<forall>c \<in> set s. \<not> p c \<Longrightarrow> FieldsFunc s p = [s]"
proof (cases s)
  case (Cons c cs)
  assume "\<forall>c \<in> set s. \<not> p c"
  with Cons show ?thesis by (simp add: takeWhile_all dropWhile_all)
qed simp

lemma FieldsFunc_Join:
  assumes "p c"
  shows "FieldsFunc (Join xs [c]) p = concat (map (\<lambda>x. FieldsFunc x p) xs)"
proof (induction xs)
  case Nil
  then show ?case by simp
next
  case (Cons x xs)
  then show ?case using assms by (cases xs) (auto simp: FieldsFunc_split)
qed

subsection \<open>Numbers as text\<close>

text \<open>\<^verbatim>\<open>%d\<close>, \<^verbatim>\<open>%x\<close> and \<^verbatim>\<open>strconv.FormatInt\<close> in base ten: digits below the base, most
  significant first, no leading zero, a minus sign for a negative number.\<close>

definition digit :: "nat \<Rightarrow> char" where
  "digit d = char_of (if d < 10 then 48 + d else 87 + d)"

definition digit_val :: "char \<Rightarrow> nat" where
  "digit_val c = (if of_char c < (58 :: nat) then of_char c - 48 else of_char c - 87)"

function base :: "nat \<Rightarrow> nat \<Rightarrow> string" where
  "base b n = (if n < b \<or> b < 2 then [digit n] else base b (n div b) @ [digit (n mod b)])"
  by pat_completeness auto
termination
  by (relation "measure (\<lambda>(b, n). n)") auto

declare base.simps [simp del]

definition dec :: "nat \<Rightarrow> string" where
  "dec n = base 10 n"

definition decz :: "int \<Rightarrow> string" where
  "decz i = (if i < 0 then CHR ''-'' # dec (nat (- i)) else dec (nat i))"

definition hex :: "nat \<Rightarrow> string" where
  "hex n = base 16 n"

definition undigits :: "nat \<Rightarrow> string \<Rightarrow> nat" where
  "undigits b s = foldl (\<lambda>a c. b * a + digit_val c) 0 s"

lemma digit_val_digit: "d < 36 \<Longrightarrow> digit_val (digit d) = d"
  by (auto simp: digit_val_def digit_def of_char_of)

lemma undigits_base: "2 \<le> b \<Longrightarrow> b \<le> 36 \<Longrightarrow> undigits b (base b n) = n"
proof (induction b n rule: base.induct)
  case (1 b n)
  show ?case
  proof (cases "n < b")
    case True
    with 1 show ?thesis by (simp add: base.simps [of b n] undigits_def digit_val_digit)
  next
    case False
    with 1 have IH: "undigits b (base b (n div b)) = n div b" by simp
    have "n mod b < b" using "1.prems" by simp
    then have "n mod b < 36" using "1.prems" by linarith
    with IH False 1 show ?thesis
      by (simp add: base.simps [of b n] undigits_def digit_val_digit)
  qed
qed

lemma base_inj: "2 \<le> b \<Longrightarrow> b \<le> 36 \<Longrightarrow> base b m = base b n \<Longrightarrow> m = n"
  by (drule arg_cong [where f = "undigits b"]) (simp only: undigits_base)

lemma dec_inj [simp]: "dec m = dec n \<longleftrightarrow> m = n"
  unfolding dec_def using base_inj [of 10 m n] by auto

lemma hex_inj [simp]: "hex m = hex n \<longleftrightarrow> m = n"
  unfolding hex_def using base_inj [of 16 m n] by auto

lemma base_nonempty [simp]: "base b n \<noteq> []"
  by (subst base.simps) simp

lemma dec_nonempty [simp]: "dec n \<noteq> []" and hex_nonempty [simp]: "hex n \<noteq> []"
  by (simp_all add: dec_def hex_def)

text \<open>The characters of a number: a decimal or lower-case hexadecimal digit each.\<close>

definition is_digit :: "char \<Rightarrow> bool" where
  "is_digit c = (48 \<le> (of_char c :: nat) \<and> of_char c < (58 :: nat))"

definition is_hexdigit :: "char \<Rightarrow> bool" where
  "is_hexdigit c = (is_digit c \<or> 97 \<le> (of_char c :: nat) \<and> of_char c < (103 :: nat))"

lemma base_digits:
  assumes "2 \<le> b" and "\<And>d. d < b \<Longrightarrow> Q (digit d)"
  shows "\<forall>c \<in> set (base b n). Q c"
proof (induction n rule: less_induct)
  case (less n)
  show ?case
  proof (cases "n < b")
    case True
    with assms show ?thesis by (simp add: base.simps [of b n])
  next
    case False
    with assms(1) have "n div b < n" by simp
    with less have "\<forall>c \<in> set (base b (n div b)). Q c" .
    moreover have "Q (digit (n mod b))" using assms by simp
    ultimately show ?thesis using False assms(1) by (simp add: base.simps [of b n])
  qed
qed

lemma dec_digits: "c \<in> set (dec n) \<Longrightarrow> is_digit c"
  using base_digits [of 10 is_digit n] by (auto simp: dec_def digit_def is_digit_def of_char_of)

lemma hex_digits: "c \<in> set (hex n) \<Longrightarrow> is_hexdigit c"
  using base_digits [of 16 is_hexdigit n]
  by (auto simp: hex_def digit_def is_hexdigit_def is_digit_def of_char_of)

lemma decz_chars: "c \<in> set (decz i) \<Longrightarrow> is_digit c \<or> c = CHR ''-''"
  by (auto simp: decz_def dest: dec_digits split: if_splits)

lemma decz_nonempty [simp]: "decz i \<noteq> []"
  by (simp add: decz_def)

lemma decz_inj [simp]: "decz i = decz j \<longleftrightarrow> i = j"
proof
  assume eq: "decz i = decz j"
  have minus: "hd (dec n) \<noteq> CHR ''-''" for n
  proof
    assume "hd (dec n) = CHR ''-''"
    then have "CHR ''-'' \<in> set (dec n)" by (metis dec_nonempty hd_in_set)
    then have "is_digit (CHR ''-'')" by (rule dec_digits)
    then show False by (simp add: is_digit_def)
  qed
  show "i = j"
    using eq minus [of "nat i"] minus [of "nat j"]
    by (auto simp: decz_def split: if_splits dest: arg_cong [where f = hd])
qed simp

lemma no_comma_numbers [no_comma, simp]:
  "CHR '','' \<notin> set (dec n)" "CHR '','' \<notin> set (decz i)" "CHR '','' \<notin> set (hex n)"
  using dec_digits [of "CHR '',''"] decz_chars [of "CHR '',''"] hex_digits [of "CHR '',''"]
  by (auto simp: is_digit_def is_hexdigit_def)

end
