(* ===== verification/Cmdline.thy ===== *)
theory Cmdline
  imports Go_Strings
begin

text \<open>
  The kernel command line: \<^verbatim>\<open>machine/cmdline.go\<close>.

  The record \<open>cmdline\<close> is the struct \<^verbatim>\<open>Cmdline\<close>, \<open>Cmdline_String\<close> its rendering,
  \<open>Cmdline_validate\<close> its check with one error constructor per refusal, and
  \<open>DefaultCmdline\<close> and \<open>Profiling\<close> the two ways the program makes one.

  What the guest's kernel does with the line is stated of two readers: \<open>FieldsFunc\<close> with
  \<open>isSpace\<close>, the split \<^verbatim>\<open>validate\<close> itself uses, and any reader that keeps the laws of the locale \<open>next_arg\<close>,
  which are what the kernel documents of its parameter parser: white space parts words unless double
  quotes protect it. \<open>kernel_words\<close> is such a reader.
\<close>

record cmdline =
  c_Console :: string
  c_Quiet :: bool
  c_LogLevel :: int
  c_Init :: string
  c_Root :: string
  c_RootReadonly :: bool
  c_Extra :: "string list"

datatype cmdline_error =
    ParamSpaceOrQuote string string
  | ExtraDashes string
  | CmdlineTooLong nat nat

definition DefaultCmdline :: cmdline where
  "DefaultCmdline = \<lparr>c_Console = ''ttyS0'', c_Quiet = True, c_LogLevel = 3, c_Init = '''',
     c_Root = '''', c_RootReadonly = False, c_Extra = []\<rparr>"

text \<open>The parts of the line, in the order \<^verbatim>\<open>String\<close> appends them.\<close>

definition cmdline_fixed :: "string list" where
  "cmdline_fixed =
     [''pci=lastbus=0'', ''panic=1'', ''net.ifnames=0'', ''biosdevname=0'',
      ''systemd.unified_cgroup_hierarchy=1'', ''cgroup_no_v1=all'', ''memhp_default_state=online'',
      ''no_timer_check'', ''tsc=reliable'', ''rcupdate.rcu_expedited=1'', ''TERM=dumb'']"

definition cmdline_head :: "cmdline \<Rightarrow> string list" where
  "cmdline_head c =
     (if c_Console c \<noteq> [] then [''console='' @ c_Console c] else []) @
     (if c_Quiet c then [''quiet''] else []) @
     [''loglevel='' @ decz (c_LogLevel c)] @
     (if c_Root c \<noteq> [] then
        let mode = (if c_RootReadonly c then ''ro'' else ''rw'') in [''root='' @ c_Root c, mode]
      else [])"

definition cmdline_init :: "cmdline \<Rightarrow> string list" where
  "cmdline_init c = (if c_Init c \<noteq> [] then [''init='' @ c_Init c] else [])"

definition cmdline_parts :: "cmdline \<Rightarrow> string list" where
  "cmdline_parts c = cmdline_head c @ cmdline_fixed @ c_Extra c @ cmdline_init c"

definition Cmdline_String :: "cmdline \<Rightarrow> string" where
  "Cmdline_String c = Join (cmdline_parts c) '' ''"

definition maxCmdline :: nat where
  "maxCmdline = 2048"

definition isSpace :: "char \<Rightarrow> bool" where
  "isSpace r = (r \<in> {CHR '' '', CHR 0x09, CHR 0x0A, CHR 0x0B, CHR 0x0C, CHR 0x0D})"

definition Cmdline_validate :: "cmdline \<Rightarrow> cmdline_error option" where
  "Cmdline_validate c =
     (case find (\<lambda>(name, value). list_ex isSpace value \<or> CHR 0x22 \<in> set value)
             [(''console'', c_Console c), (''init'', c_Init c), (''root'', c_Root c)] of
        Some (name, value) \<Rightarrow> Some (ParamSpaceOrQuote name value)
      | None \<Rightarrow>
          (case find (\<lambda>e. ''--'' \<in> set (FieldsFunc e isSpace)) (c_Extra c) of
             Some e \<Rightarrow> Some (ExtraDashes e)
           | None \<Rightarrow>
               (let n = length (Cmdline_String c) in
                if n \<ge> maxCmdline then Some (CmdlineTooLong n (maxCmdline - 1)) else None)))"

definition Profiling :: "cmdline \<Rightarrow> cmdline" where
  "Profiling c = c\<lparr>c_Quiet := False, c_LogLevel := 0,
     c_Extra := c_Extra c @ [''initcall_debug'', ''printk.time=1'', ''log_buf_len=4M'',
       ''trace_event=initcall:*'', ''trace_buf_size=4M'']\<rparr>"

subsection \<open>Which lines validate accepts\<close>

definition plain_word :: "string \<Rightarrow> bool" where
  "plain_word v = (\<forall>x \<in> set v. \<not> isSpace x \<and> x \<noteq> CHR 0x22)"

definition cmdline_ok :: "cmdline \<Rightarrow> bool" where
  "cmdline_ok c = (plain_word (c_Console c) \<and> plain_word (c_Init c) \<and> plain_word (c_Root c)
     \<and> (\<forall>e \<in> set (c_Extra c). ''--'' \<notin> set (FieldsFunc e isSpace))
     \<and> length (Cmdline_String c) < maxCmdline)"

lemma Cmdline_validate_None: "Cmdline_validate c = None \<longleftrightarrow> cmdline_ok c"
proof -
  have word: "plain_word v \<longleftrightarrow> \<not> (list_ex isSpace v \<or> CHR 0x22 \<in> set v)" for v
    by (auto simp: plain_word_def list_ex_iff)
  show ?thesis
    by (auto simp: Cmdline_validate_def cmdline_ok_def word Let_def find_None_iff
        dest: find_SomeD split: option.splits)
qed

interpretation cmdline_check: checker Cmdline_validate cmdline_ok
  by unfold_locales (rule Cmdline_validate_None)

subsection \<open>The words of a line\<close>

lemma isSpace_space [simp]: "isSpace (CHR '' '')"
  by (simp add: isSpace_def)

lemma isSpace_quote [simp]: "\<not> isSpace (CHR 0x22)"
  by (simp add: isSpace_def)

lemma not_isSpace_decz: "c \<in> set (decz i) \<Longrightarrow> \<not> isSpace c \<and> c \<noteq> CHR 0x22"
  using decz_chars [of c i] by (auto simp: isSpace_def is_digit_def)

lemma plain_word_append [simp]: "plain_word (a @ b) \<longleftrightarrow> plain_word a \<and> plain_word b"
  by (auto simp: plain_word_def)

lemma plain_word_Cons [simp]:
  "plain_word (x # xs) \<longleftrightarrow> \<not> isSpace x \<and> x \<noteq> CHR 0x22 \<and> plain_word xs"
  by (auto simp: plain_word_def)

lemma plain_word_Nil [simp]: "plain_word []"
  by (simp add: plain_word_def)

lemma plain_word_decz [simp]: "plain_word (decz i)"
  using not_isSpace_decz by (auto simp: plain_word_def)

lemma plain_word_fields: "plain_word w \<Longrightarrow> w \<noteq> [] \<Longrightarrow> FieldsFunc w isSpace = [w]"
  by (rule FieldsFunc_single) (auto simp: plain_word_def)

lemma fields_plain_words:
  "\<forall>w \<in> set ws. plain_word w \<and> w \<noteq> [] \<Longrightarrow> concat (map (\<lambda>w. FieldsFunc w isSpace) ws) = ws"
  by (induction ws) (auto simp: plain_word_fields)

lemma cmdline_fixed_plain: "\<forall>w \<in> set cmdline_fixed. plain_word w \<and> w \<noteq> [] \<and> w \<noteq> ''--''"
  by (simp add: cmdline_fixed_def isSpace_def)

lemma cmdline_head_plain:
  "cmdline_ok c \<Longrightarrow> \<forall>w \<in> set (cmdline_head c). plain_word w \<and> w \<noteq> [] \<and> w \<noteq> ''--''"
  by (auto simp: cmdline_ok_def cmdline_head_def isSpace_def Let_def)

lemma cmdline_init_plain:
  "cmdline_ok c \<Longrightarrow> \<forall>w \<in> set (cmdline_init c). plain_word w \<and> w \<noteq> [] \<and> w \<noteq> ''--''"
  by (auto simp: cmdline_ok_def cmdline_init_def isSpace_def)

lemma String_fields:
  "FieldsFunc (Cmdline_String c) isSpace =
     concat (map (\<lambda>w. FieldsFunc w isSpace) (cmdline_parts c))"
  unfolding Cmdline_String_def by (rule FieldsFunc_Join) simp

lemma part_fields:
  "w \<in> set (cmdline_parts c) \<Longrightarrow>
     set (FieldsFunc w isSpace) \<subseteq> set (FieldsFunc (Cmdline_String c) isSpace)"
  unfolding String_fields by (simp del: FieldsFunc.simps) blast

lemma String_fields_ok:
  assumes "cmdline_ok c"
  shows "FieldsFunc (Cmdline_String c) isSpace =
     cmdline_head c @ cmdline_fixed
       @ concat (map (\<lambda>e. FieldsFunc e isSpace) (c_Extra c)) @ cmdline_init c"
  using cmdline_head_plain [OF assms] cmdline_fixed_plain cmdline_init_plain [OF assms]
  by (simp add: String_fields cmdline_parts_def fields_plain_words)

subsection \<open>The words the kernel's parser makes\<close>

text \<open>The kernel's \<^verbatim>\<open>isspace\<close> is of bytes, and has the no-break space of Latin-1 beside those of \<open>isSpace\<close>.\<close>

definition kernel_space :: "char \<Rightarrow> bool" where
  "kernel_space c = (isSpace c \<or> c = CHR 0xA0)"

definition balanced_quotes :: "string \<Rightarrow> bool" where
  "balanced_quotes s = even (count_list s (CHR 0x22))"

lemma kernel_space_simps [simp]: "kernel_space (CHR '' '')" "\<not> kernel_space (CHR 0x22)"
  by (simp_all add: kernel_space_def)

lemma count_list_Join: "CHR 0x22 \<notin> set sep \<Longrightarrow> count_list (Join ws sep) (CHR 0x22) = count_list (concat ws) (CHR 0x22)"
  by (induction ws rule: induct_list012) (simp_all add: count_notin)

lemma plain_no_quotes: "\<forall>w \<in> set ws. plain_word w \<Longrightarrow> count_list (concat ws) (CHR 0x22) = 0"
  by (rule count_notin) (auto simp: plain_word_def)

text \<open>What is relied on of \<^verbatim>\<open>next_arg\<close>, by which the kernel takes the words off a line: white space outside double
  quotes parts two words, text with neither white space nor quotes is one word, and white space inside quotes is
  part of the word it is in, which goes on to the end when no other quote comes.\<close>

locale next_arg =
  fixes words :: "string \<Rightarrow> string list"
  assumes no_words: "words [] = []"
    and words_part: "kernel_space c \<Longrightarrow> balanced_quotes a \<Longrightarrow> words (a @ c # b) = words a @ words b"
    and one_word: "w \<noteq> [] \<Longrightarrow> list_all (\<lambda>c. \<not> kernel_space c \<and> c \<noteq> CHR 0x22) w \<Longrightarrow> words w = [w]"
    and open_word: "kernel_space c \<Longrightarrow> \<not> balanced_quotes a \<Longrightarrow> CHR 0x22 \<notin> set w \<Longrightarrow> \<exists>ws p. words (a @ c # w) = ws @ [p @ c # w]"
begin

lemma unquoted_words:
  "CHR 0x22 \<notin> set v \<Longrightarrow> x \<in> set (words v) \<Longrightarrow> list_all (\<lambda>c. \<not> kernel_space c) x"
proof (induction v rule: length_induct)
  case (1 v)
  show ?case
  proof (cases "\<exists>c \<in> set v. kernel_space c")
    case True
    then obtain a c b where v: "v = a @ c # b" "kernel_space c" by (metis split_list)
    have "balanced_quotes a" using 1(2) v(1) by (simp add: balanced_quotes_def count_notin)
    then have "x \<in> set (words a) \<or> x \<in> set (words b)" using 1(3) words_part [OF v(2)] v(1) by simp
    moreover have "length a < length v" "length b < length v" "CHR 0x22 \<notin> set a" "CHR 0x22 \<notin> set b" using 1(2) v(1) by simp_all
    ultimately show ?thesis using 1(1) by blast
  next
    case False
    show ?thesis
    proof (cases "v = []")
      case True
      then show ?thesis using 1(3) no_words by simp
    next
      case ne: False
      have "list_all (\<lambda>c. \<not> kernel_space c \<and> c \<noteq> CHR 0x22) v" using False 1(2) by (auto simp: list_all_iff)
      then have "x = v" using one_word [OF ne] 1(3) by simp
      then show ?thesis using False by (auto simp: list_all_iff)
    qed
  qed
qed

text \<open>Of a line with its last word apart: that word is read by itself exactly when the quotes before it close and
  the kernel finds no white space in it.\<close>

lemma last_word:
  assumes "plain_word w" and "w \<noteq> []" and "CHR 0xA0 \<notin> set w \<or> words w \<noteq> []"
  shows "last (words (a @ CHR '' '' # w)) = w \<longleftrightarrow> balanced_quotes a \<and> CHR 0xA0 \<notin> set w"
proof (cases "balanced_quotes a")
  case True
  have quotes: "CHR 0x22 \<notin> set w" using assms(1) by (auto simp: plain_word_def)
  have line: "words (a @ CHR '' '' # w) = words a @ words w" using words_part [OF _ True] by simp
  show ?thesis
  proof (cases "CHR 0xA0 \<in> set w")
    case False
    then have "list_all (\<lambda>c. \<not> kernel_space c \<and> c \<noteq> CHR 0x22) w" using assms(1) by (auto simp: list_all_iff kernel_space_def plain_word_def)
    then show ?thesis using line one_word [OF assms(2)] True False by simp
  next
    case nbsp: True
    then have ne: "words w \<noteq> []" using assms(3) by blast
    have "\<not> list_all (\<lambda>c. \<not> kernel_space c) w" using nbsp by (auto simp: list_all_iff kernel_space_def)
    then have "last (words w) \<noteq> w" using unquoted_words [OF quotes] last_in_set [OF ne] by metis
    then show ?thesis using line ne nbsp by (simp add: last_append)
  qed
next
  case False
  have "CHR 0x22 \<notin> set w" using assms(1) by (auto simp: plain_word_def)
  then obtain ws p where "words (a @ CHR '' '' # w) = ws @ [p @ CHR '' '' # w]" using open_word [OF _ False] kernel_space_simps(1) by blast
  moreover have "CHR '' '' \<notin> set w" using assms(1) isSpace_space unfolding plain_word_def by blast
  ultimately have "last (words (a @ CHR '' '' # w)) \<noteq> w" by (metis in_set_conv_decomp last_snoc)
  then show ?thesis using False by blast
qed

lemma words_nonempty:
  assumes "CHR 0x22 \<notin> set w" and "w \<noteq> []" and "\<not> kernel_space (hd w)"
  shows "words w \<noteq> []"
proof (cases "\<exists>c \<in> set w. kernel_space c")
  case False
  then have "list_all (\<lambda>c. \<not> kernel_space c \<and> c \<noteq> CHR 0x22) w" using assms(1) by (auto simp: list_all_iff)
  then show ?thesis using one_word [OF assms(2)] by simp
next
  case True
  from split_list_first_prop [OF this] obtain a c b where w: "w = a @ c # b" "kernel_space c" "\<forall>x \<in> set a. \<not> kernel_space x" by blast
  have a: "a \<noteq> []" "list_all (\<lambda>c. \<not> kernel_space c \<and> c \<noteq> CHR 0x22) a" "balanced_quotes a"
    using assms w by (auto simp: list_all_iff balanced_quotes_def count_notin)
  then show ?thesis using words_part [OF w(2) a(3)] one_word [OF a(1,2)] w(1) by simp
qed

lemma init_last:
  assumes "cmdline_ok c" and "c_Init c \<noteq> []"
  shows "last (words (Cmdline_String c)) = ''init='' @ c_Init c
    \<longleftrightarrow> balanced_quotes (concat (c_Extra c)) \<and> CHR 0xA0 \<notin> set (c_Init c)"
proof -
  let ?ws = "cmdline_head c @ cmdline_fixed @ c_Extra c" and ?i = "''init='' @ c_Init c"
  note plain = cmdline_head_plain [OF assms(1)] cmdline_fixed_plain cmdline_init_plain [OF assms(1)]
  have "?ws \<noteq> []" by (simp add: cmdline_fixed_def)
  then have line: "Cmdline_String c = Join ?ws '' '' @ CHR '' '' # ?i"
    using assms(2) Join_append [of ?ws "[?i]" "'' ''"] by (simp add: Cmdline_String_def cmdline_parts_def cmdline_init_def)
  have "count_list (Join ?ws '' '') (CHR 0x22) = count_list (concat (c_Extra c)) (CHR 0x22)"
    using plain_no_quotes [of "cmdline_head c"] plain_no_quotes [of cmdline_fixed] plain
    by (simp add: count_list_Join del: Join.simps)
  moreover have i: "plain_word ?i" using plain(3) assms(2) by (simp add: cmdline_init_def)
  moreover have "words ?i \<noteq> []"
    by (rule words_nonempty) (use i in \<open>auto simp: plain_word_def kernel_space_def isSpace_def\<close>)
  ultimately show ?thesis
    unfolding line using last_word [of ?i "Join ?ws '' ''"] by (simp add: balanced_quotes_def)
qed

end

text \<open>A reader that keeps the quotes in its words.\<close>

fun kernel_words_from :: "bool \<Rightarrow> string \<Rightarrow> string \<Rightarrow> string list" where
  "kernel_words_from q acc [] = (if acc = [] then [] else [rev acc])"
| "kernel_words_from q acc (c # cs) =
     (if kernel_space c \<and> \<not> q then (if acc = [] then [] else [rev acc]) @ kernel_words_from q [] cs
      else kernel_words_from (if c = CHR 0x22 then \<not> q else q) (c # acc) cs)"

definition kernel_words :: "string \<Rightarrow> string list" where
  "kernel_words s = kernel_words_from False [] s"

lemma kernel_words_from_split:
  "q = odd (count_list a (CHR 0x22)) \<Longrightarrow> kernel_space c \<Longrightarrow>
     kernel_words_from q acc (a @ c # b) = kernel_words_from q acc a @ kernel_words_from False [] b"
  by (induction a arbitrary: q acc) auto

lemma kernel_words_from_plain:
  "list_all (\<lambda>c. \<not> kernel_space c \<and> c \<noteq> CHR 0x22) w \<Longrightarrow> rev acc @ w \<noteq> [] \<Longrightarrow> kernel_words_from False acc w = [rev acc @ w]"
  by (induction w arbitrary: acc) auto

lemma kernel_words_from_quoted:
  "CHR 0x22 \<notin> set w \<Longrightarrow> rev acc @ w \<noteq> [] \<Longrightarrow> kernel_words_from True acc w = [rev acc @ w]"
  by (induction w arbitrary: acc) auto

lemma kernel_words_from_open:
  assumes "CHR 0x22 \<notin> set w" and "q \<noteq> odd (count_list a (CHR 0x22))" and "c \<noteq> CHR 0x22"
  shows "\<exists>ws p. kernel_words_from q acc (a @ c # w) = ws @ [p @ c # w]"
  using assms(2)
proof (induction a arbitrary: q acc)
  case Nil
  then show ?case using kernel_words_from_quoted [OF assms(1), of "c # acc"] assms(3) by (intro exI [of _ "[]"] exI [of _ "rev acc"]) simp
next
  case (Cons x a)
  let ?q = "if x = CHR 0x22 then \<not> q else q"
  have q: "?q \<noteq> odd (count_list a (CHR 0x22))" using Cons.prems by auto
  show ?case
  proof (cases "kernel_space x \<and> \<not> q")
    case True
    then have "x \<noteq> CHR 0x22" by auto
    then obtain ws p where "kernel_words_from q [] (a @ c # w) = ws @ [p @ c # w]" using Cons.IH [OF q, of "[]"] by auto
    then have "kernel_words_from q acc ((x # a) @ c # w) = ((if acc = [] then [] else [rev acc]) @ ws) @ [p @ c # w]" using True by simp
    then show ?thesis by blast
  next
    case False
    then have step: "kernel_words_from q acc ((x # a) @ c # w) = kernel_words_from ?q (x # acc) (a @ c # w)" by (simp only: append_Cons kernel_words_from.simps if_False)
    show ?thesis unfolding step by (rule Cons.IH [OF q])
  qed
qed

interpretation line: next_arg kernel_words
proof
  show "kernel_words [] = []" by (simp add: kernel_words_def)
  show "kernel_words (a @ c # b) = kernel_words a @ kernel_words b" if "kernel_space c" "balanced_quotes a" for a b c
    unfolding kernel_words_def by (rule kernel_words_from_split) (use that in \<open>simp_all add: balanced_quotes_def\<close>)
  show "kernel_words w = [w]" if "w \<noteq> []" "list_all (\<lambda>c. \<not> kernel_space c \<and> c \<noteq> CHR 0x22) w" for w
    using kernel_words_from_plain [OF that(2), of "[]"] that(1) by (simp add: kernel_words_def)
  show "\<exists>ws p. kernel_words (a @ c # w) = ws @ [p @ c # w]" if "kernel_space c" "\<not> balanced_quotes a" "CHR 0x22 \<notin> set w" for a c w
    unfolding kernel_words_def by (rule kernel_words_from_open [OF that(3)]) (use that in \<open>auto simp: balanced_quotes_def\<close>)
qed

lemma cmdline_ok_no_dashes:
  assumes "cmdline_ok c"
  shows "''--'' \<notin> set (FieldsFunc (Cmdline_String c) isSpace)"
proof -
  have "''--'' \<notin> set (cmdline_head c)" and "''--'' \<notin> set cmdline_fixed"
    and "''--'' \<notin> set (cmdline_init c)"
    using cmdline_head_plain [OF assms] cmdline_fixed_plain cmdline_init_plain [OF assms] by blast+
  moreover have "\<forall>e \<in> set (c_Extra c). ''--'' \<notin> set (FieldsFunc e isSpace)"
    using assms unfolding cmdline_ok_def by blast
  ultimately show ?thesis by (simp add: String_fields_ok [OF assms])
qed

subsection \<open>Properties\<close>

text \<open>A command line that \<^verbatim>\<open>Cmdline.validate\<close> accepts reads, word by word, as exactly the
  parameters it was made of, in their order: the console, quiet, loglevel and root parts, the
  machine's fixed parameters, the caller's extra words, and init last; no word of it is
  \<^verbatim>\<open>--\<close>, so no part of it is handed to init.\<close>

theorem cmdline_words_of_valid:
  assumes "Cmdline_validate c = None"
  shows "FieldsFunc (Cmdline_String c) isSpace =
      cmdline_head c @ cmdline_fixed
        @ concat (map (\<lambda>e. FieldsFunc e isSpace) (c_Extra c)) @ cmdline_init c
    \<and> ''--'' \<notin> set (FieldsFunc (Cmdline_String c) isSpace)"
proof -
  have "cmdline_ok c" using assms by (simp add: cmdline_check.chk_None)
  then show ?thesis by (intro conjI String_fields_ok cmdline_ok_no_dashes)
qed

theorem cmdline_words_of_valid_witness:
  "Cmdline_validate (DefaultCmdline\<lparr>c_Init := ''/i'', c_Extra := [''a b'']\<rparr>) = None
   \<and> FieldsFunc (Cmdline_String (DefaultCmdline\<lparr>c_Init := ''/i'', c_Extra := [''a b'']\<rparr>)) isSpace =
      [''console=ttyS0'', ''quiet'', ''loglevel=3''] @ cmdline_fixed @ [''a'', ''b'', ''init=/i'']"
proof -
  let ?c = "DefaultCmdline\<lparr>c_Init := ''/i'', c_Extra := [''a b'']\<rparr>"
  have v: "Cmdline_validate ?c = None" by code_simp
  have "cmdline_head ?c = [''console=ttyS0'', ''quiet'', ''loglevel=3'']"
    and "concat (map (\<lambda>e. FieldsFunc e isSpace) (c_Extra ?c)) = [''a'', ''b'']"
    and "cmdline_init ?c = [''init=/i'']"
    by code_simp+
  with v cmdline_words_of_valid [OF v] show ?thesis by simp
qed

text \<open>What \<^verbatim>\<open>String\<close> always adds cannot be left out: whatever the caller sets, validated or
  not, each of the machine's fixed parameters is a word of the line, and every profiled line
  keeps them with the console silent and the caller's own extra words.\<close>

theorem cmdline_fixed_always_present:
  "set cmdline_fixed \<subseteq> set (FieldsFunc (Cmdline_String c) isSpace)
   \<and> set cmdline_fixed \<subseteq> set (FieldsFunc (Cmdline_String (Profiling c)) isSpace)
   \<and> ''loglevel=0'' \<in> set (FieldsFunc (Cmdline_String (Profiling c)) isSpace)
   \<and> (\<forall>e \<in> set (c_Extra c). set (FieldsFunc e isSpace)
        \<subseteq> set (FieldsFunc (Cmdline_String (Profiling c)) isSpace))"
proof -
  have fixed: "set cmdline_fixed \<subseteq> set (FieldsFunc (Cmdline_String d) isSpace)" for d
  proof
    fix w assume w: "w \<in> set cmdline_fixed"
    then have "FieldsFunc w isSpace = [w]" using cmdline_fixed_plain by (blast intro: plain_word_fields)
    moreover from w have "w \<in> set (cmdline_parts d)" by (simp add: cmdline_parts_def)
    ultimately show "w \<in> set (FieldsFunc (Cmdline_String d) isSpace)"
      using part_fields [of w d] by simp
  qed
  have "decz 0 = ''0''" by code_simp
  then have "''loglevel=0'' \<in> set (cmdline_parts (Profiling c))"
    by (simp add: cmdline_parts_def cmdline_head_def Profiling_def)
  moreover have "FieldsFunc ''loglevel=0'' isSpace = [''loglevel=0'']" by code_simp
  ultimately have level: "''loglevel=0'' \<in> set (FieldsFunc (Cmdline_String (Profiling c)) isSpace)"
    using part_fields [of "''loglevel=0''" "Profiling c"] by simp
  have extra: "\<forall>e \<in> set (c_Extra c). set (FieldsFunc e isSpace)
        \<subseteq> set (FieldsFunc (Cmdline_String (Profiling c)) isSpace)"
  proof
    fix e assume "e \<in> set (c_Extra c)"
    then have "e \<in> set (cmdline_parts (Profiling c))"
      by (simp add: cmdline_parts_def Profiling_def)
    then show "set (FieldsFunc e isSpace) \<subseteq> set (FieldsFunc (Cmdline_String (Profiling c)) isSpace)"
      by (rule part_fields)
  qed
  show ?thesis by (rule conjI [OF fixed conjI [OF fixed conjI [OF level extra]]])
qed

theorem cmdline_fixed_always_present_witness:
  "''b'' \<in> set (FieldsFunc (Cmdline_String (Profiling (DefaultCmdline\<lparr>c_Extra := [''a b'']\<rparr>))) isSpace)"
proof -
  have "set (FieldsFunc ''a b'' isSpace) = {''a'', ''b''}" by code_simp
  with cmdline_fixed_always_present [of "DefaultCmdline\<lparr>c_Extra := [''a b'']\<rparr>"]
  show ?thesis by auto
qed

text \<open>C25: When the init asked for is the one the kernel is told of. For every parser that keeps the laws of the
  kernel's and every command line that
  \<^verbatim>\<open>validate\<close> accepts and that names an init: the last word the parser makes of it is that init
  exactly when the extra parameters hold an even number of double quotes, so that none is open where
  init begins, and the init has no byte 0xA0, which the kernel takes for white space. Neither is
  what \<^verbatim>\<open>validate\<close> asks for: an extra parameter that opens a quote makes init a part of its own value. The line
  always fits the kernel's buffer with its terminating NUL, so nothing of it is cut off.\<close>

theorem init_is_read_when_quotes_close:
  assumes "next_arg words" and "Cmdline_validate c = None" and "c_Init c \<noteq> []"
  shows "(last (words (Cmdline_String c)) = ''init='' @ c_Init c
      \<longleftrightarrow> even (count_list (concat (c_Extra c)) (CHR 0x22)) \<and> CHR 0xA0 \<notin> set (c_Init c))
    \<and> length (Cmdline_String c) + 1 \<le> maxCmdline"
proof -
  have ok: "cmdline_ok c" using assms(2) by (simp add: cmdline_check.chk_None)
  then have "length (Cmdline_String c) + 1 \<le> maxCmdline" by (simp add: cmdline_ok_def)
  with next_arg.init_last [OF assms(1) ok assms(3)] show ?thesis by (simp add: balanced_quotes_def)
qed

theorem init_is_read_when_quotes_close_witness:
  "last (kernel_words (Cmdline_String (DefaultCmdline\<lparr>c_Init := ''/i''\<rparr>))) = ''init=/i''
   \<and> last (kernel_words (Cmdline_String (DefaultCmdline\<lparr>c_Init := ''/i'', c_Extra := [[CHR ''a'', CHR ''='', CHR 0x22]]\<rparr>))) \<noteq> ''init=/i''"
proof -
  let ?open = "DefaultCmdline\<lparr>c_Init := ''/i'', c_Extra := [[CHR ''a'', CHR ''='', CHR 0x22]]\<rparr>"
  have "Cmdline_validate (DefaultCmdline\<lparr>c_Init := ''/i''\<rparr>) = None" "Cmdline_validate ?open = None" by code_simp+
  from this [THEN init_is_read_when_quotes_close [OF line.next_arg_axioms]] show ?thesis by (simp add: DefaultCmdline_def)
qed

end
