(* ===== verification/Go_Mac.thy ===== *)
theory Go_Mac
  imports Go_Strings
begin

text \<open>
  \<^verbatim>\<open>net.ParseMAC\<close>, the standard library's check that \<^verbatim>\<open>NIC.validate\<close> relies on: six, eight or
  twenty bytes written as pairs of hexadecimal digits between colons or hyphens, or as groups
  of four between dots. \<open>xtoi\<close> and \<open>xtoi2\<close> are its helpers. The lemma the machine needs is
  that a string it accepts as 48 bits holds nothing but hexadecimal digits and separators, so
  no comma.
\<close>

definition hexval :: "char \<Rightarrow> int option" where
  "hexval c = (let n = of_char c :: int in
     if 48 \<le> n \<and> n \<le> 57 then Some (n - 48)
     else if 97 \<le> n \<and> n \<le> 102 then Some (n - 87)
     else if 65 \<le> n \<and> n \<le> 70 then Some (n - 55)
     else None)"

fun xtoi_from :: "int \<Rightarrow> nat \<Rightarrow> string \<Rightarrow> int \<times> nat \<times> bool" where
  "xtoi_from n i [] = (if i = 0 then (0, i, False) else (n, i, True))"
| "xtoi_from n i (c # cs) =
     (case hexval c of
        None \<Rightarrow> if i = 0 then (0, i, False) else (n, i, True)
      | Some d \<Rightarrow>
          if n * 16 + d \<ge> 0xFFFFFF then (0, i, False) else xtoi_from (n * 16 + d) (Suc i) cs)"

definition xtoi :: "string \<Rightarrow> int \<times> nat \<times> bool" where
  "xtoi s = xtoi_from 0 0 s"

definition xtoi2 :: "string \<Rightarrow> char \<Rightarrow> int option" where
  "xtoi2 s e =
     (if length s > 2 \<and> s ! 2 \<noteq> e then None
      else case xtoi (take 2 s) of (n, ei, ok) \<Rightarrow> if ok \<and> ei = 2 then Some (n mod 256) else None)"

definition ParseMAC :: "string \<Rightarrow> int list option" where
  "ParseMAC s =
     (if length s < 14 then None
      else if s ! 2 = CHR '':'' \<or> s ! 2 = CHR ''-'' then
        (if (length s + 1) mod 3 \<noteq> 0 then None
         else let n = (length s + 1) div 3 in
           if n \<noteq> 6 \<and> n \<noteq> 8 \<and> n \<noteq> 20 then None
           else all_some (map (\<lambda>i. xtoi2 (drop (3 * i) s) (s ! 2)) [0..<n]))
      else if s ! 4 = CHR ''.'' then
        (if (length s + 1) mod 5 \<noteq> 0 then None
         else let n = 2 * (length s + 1) div 5 in
           if n \<noteq> 6 \<and> n \<noteq> 8 \<and> n \<noteq> 20 then None
           else all_some (concat (map (\<lambda>i.
             [xtoi2 (take 2 (drop (5 * i) s)) (CHR 0x00), xtoi2 (drop (5 * i + 2) s) (s ! 4)])
             [0..<n div 2])))
      else None)"

lemma xtoi_two:
  assumes "xtoi [a, b] = (n, 2, True)"
  shows "hexval a \<noteq> None \<and> hexval b \<noteq> None"
  using assms by (auto simp: xtoi_def split: option.splits if_splits)

lemma hexval_comma [simp]: "hexval (CHR '','') = None"
  by (simp add: hexval_def)

lemma xtoi2_Some:
  assumes "xtoi2 s e = Some v" and "2 \<le> length s"
  shows "hexval (s ! 0) \<noteq> None" and "hexval (s ! 1) \<noteq> None" and "length s > 2 \<Longrightarrow> s ! 2 = e"
proof -
  from assms(2) obtain a b r where s: "s = a # b # r"
    by (metis One_nat_def Suc_1 Suc_le_length_iff)
  from assms(1) obtain n where "xtoi [a, b] = (n, 2, True)"
    by (auto simp: xtoi2_def s split: if_splits prod.splits)
  then have "hexval a \<noteq> None \<and> hexval b \<noteq> None" by (rule xtoi_two)
  then show "hexval (s ! 0) \<noteq> None" and "hexval (s ! 1) \<noteq> None" by (simp_all add: s)
  show "length s > 2 \<Longrightarrow> s ! 2 = e" using assms(1) by (auto simp: xtoi2_def split: if_splits)
qed

lemma nth_comma: "(\<forall>k < length s. s ! k \<noteq> CHR '','') \<Longrightarrow> CHR '','' \<notin> set s"
  by (metis in_set_conv_nth)

lemma colon_mac_no_comma:
  assumes len: "length s = 17" and sep: "s ! 2 \<noteq> CHR '',''"
    and octets: "\<And>i. i < 6 \<Longrightarrow> \<exists>v. xtoi2 (drop (3 * i) s) (s ! 2) = Some v"
  shows "CHR '','' \<notin> set s"
proof (rule nth_comma, intro allI impI)
  fix k assume k: "k < length s"
  define i where "i = k div 3"
  have i: "i < 6" and k_eq: "k = 3 * i + k mod 3" using k len by (auto simp: i_def)
  from octets [OF i] obtain v where v: "xtoi2 (drop (3 * i) s) (s ! 2) = Some v" ..
  have two: "2 \<le> length (drop (3 * i) s)" using i len by simp
  consider "k mod 3 = 0" | "k mod 3 = 1" | "k mod 3 = 2" by linarith
  then show "s ! k \<noteq> CHR '',''"
  proof cases
    case 1
    with k_eq xtoi2_Some(1) [OF v two] len i show ?thesis by auto
  next
    case 2
    with k_eq have "k = 3 * i + 1" by simp
    with xtoi2_Some(2) [OF v two] len i show ?thesis by auto
  next
    case 3
    with k_eq have "k = 3 * i + 2" by simp
    with xtoi2_Some(3) [OF v two] len k sep show ?thesis by auto
  qed
qed

lemma dotted_mac_no_comma:
  assumes len: "length s = 14" and sep: "s ! 4 \<noteq> CHR '',''"
    and groups: "\<And>i. i < 3 \<Longrightarrow> \<exists>v w. xtoi2 (take 2 (drop (5 * i) s)) (CHR 0x00) = Some v
        \<and> xtoi2 (drop (5 * i + 2) s) (s ! 4) = Some w"
  shows "CHR '','' \<notin> set s"
proof (rule nth_comma, intro allI impI)
  fix k assume k: "k < length s"
  define i where "i = k div 5"
  have i: "i < 3" and k_eq: "k = 5 * i + k mod 5" using k len by (auto simp: i_def)
  from groups [OF i] obtain v w where v: "xtoi2 (take 2 (drop (5 * i) s)) (CHR 0x00) = Some v"
    and w: "xtoi2 (drop (5 * i + 2) s) (s ! 4) = Some w" by blast
  have tv: "2 \<le> length (take 2 (drop (5 * i) s))" and tw: "2 \<le> length (drop (5 * i + 2) s)"
    using i len by simp_all
  consider "k mod 5 = 0" | "k mod 5 = 1" | "k mod 5 = 2" | "k mod 5 = 3" | "k mod 5 = 4" by linarith
  then show "s ! k \<noteq> CHR '',''"
  proof cases
    case 1
    with k_eq xtoi2_Some(1) [OF v tv] len i show ?thesis by auto
  next
    case 2
    with k_eq have "k = 5 * i + 1" by simp
    with xtoi2_Some(2) [OF v tv] len i show ?thesis by auto
  next
    case 3
    with k_eq have "k = 5 * i + 2" by simp
    with xtoi2_Some(1) [OF w tw] len i show ?thesis by auto
  next
    case 4
    with k_eq have "k = 5 * i + 3" by simp
    with xtoi2_Some(2) [OF w tw] len i show ?thesis by (auto simp: eval_nat_numeral)
  next
    case 5
    with k_eq have "k = 5 * i + 2 + 2" by simp
    with xtoi2_Some(3) [OF w tw] len k sep show ?thesis by (auto simp: add.assoc)
  qed
qed

lemma ParseMAC_no_comma:
  assumes "ParseMAC s = Some mac" and "length mac = 6"
  shows "CHR '','' \<notin> set s"
proof (cases "s ! 2 = CHR '':'' \<or> s ! 2 = CHR ''-''")
  case True
  let ?n = "(length s + 1) div 3"
  from assms(1) True have eq: "map (\<lambda>i. xtoi2 (drop (3 * i) s) (s ! 2)) [0..<?n] = map Some mac"
    and m: "(length s + 1) mod 3 = 0"
    by (auto simp: ParseMAC_def Let_def all_some_Some split: if_splits)
  from eq have n: "?n = 6" using assms(2) by (metis length_map length_upt minus_nat.diff_0)
  with m have "length s = 17" by (auto elim!: dvdE)
  moreover have "s ! 2 \<noteq> CHR '',''" using True by auto
  moreover have "\<exists>v. xtoi2 (drop (3 * i) s) (s ! 2) = Some v" if "i < 6" for i
    using arg_cong [OF eq, of "\<lambda>l. l ! i"] that n assms(2) by simp
  ultimately show ?thesis by (rule colon_mac_no_comma)
next
  case False
  let ?n = "2 * (length s + 1) div 5"
  let ?g = "\<lambda>i. [xtoi2 (take 2 (drop (5 * i) s)) (CHR 0x00), xtoi2 (drop (5 * i + 2) s) (s ! 4)]"
  from assms(1) False have eq: "concat (map ?g [0..<?n div 2]) = map Some mac"
    and m: "(length s + 1) mod 5 = 0" and sep: "s ! 4 = CHR ''.''"
    by (auto simp: ParseMAC_def Let_def all_some_Some split: if_splits)
  have "length (concat (map ?g [0..<k])) = 2 * k" for k by (induction k) auto
  then have "2 * (?n div 2) = 6" using arg_cong [OF eq, of length] assms(2) by simp
  then have n: "?n div 2 = 3" by simp
  from m obtain q where q: "length s + 1 = 5 * q" by auto
  then have "?n = 2 * q" by simp
  with n q have len: "length s = 14" by (simp only: nonzero_mult_div_cancel_left)
  have "set (concat (map ?g [0..<3])) \<subseteq> range Some" using eq n by auto
  then have "\<exists>v w. xtoi2 (take 2 (drop (5 * i) s)) (CHR 0x00) = Some v
      \<and> xtoi2 (drop (5 * i + 2) s) (s ! 4) = Some w" if "i < 3" for i
    using that by (force simp: image_iff subset_iff)
  with len show ?thesis by (intro dotted_mac_no_comma) (auto simp: sep)
qed

end
