(* ===== verification/Machine_Spec.thy ===== *)
theory Machine_Spec
  imports Cmdline Go_Mac
begin

text \<open>
  The machine's definition, first half of \<^verbatim>\<open>machine/machine.go\<close>: the structs, the fixed PCI
  slots, the shape, and \<^verbatim>\<open>Spec.validate\<close> with what it calls.

  Go's \<^verbatim>\<open>int\<close> is \<^typ>\<open>int\<close> here: the code compares and prints these numbers and does
  arithmetic on one pair of them, where the wrap-around is written out (\<open>wrap64\<close> in
  \<open>Machine_Args\<close>). A refusal is a constructor of the error types, with the values the Go error
  formats; \<open>validate\<close> answers \<open>None\<close> where Go returns nil.

  \<open>spec_ok\<close> states declaratively what a well-formed spec is. The locale \<open>checker\<close> is
  interpreted on each validation function, and \<open>validate_None\<close> shows that the cascade of checks
  accepts exactly the well-formed specs.
\<close>

subsection \<open>PCI slots and limits\<close>

definition slotVsock :: nat where [machine_defs]: "slotVsock = 0x02"
definition slotRNG :: nat where [machine_defs]: "slotRNG = 0x03"
definition slotBalloon :: nat where [machine_defs]: "slotBalloon = 0x04"
definition slotDiskBase :: nat where [machine_defs]: "slotDiskBase = 0x05"
definition slotDiskMax :: nat where [machine_defs]: "slotDiskMax = 0x0f"
definition slotNICBase :: nat where [machine_defs]: "slotNICBase = 0x10"
definition slotNICMax :: nat where [machine_defs]: "slotNICMax = 0x19"
definition slotHotplug :: nat where [machine_defs]: "slotHotplug = 0x1a"
definition slotMem :: nat where [machine_defs]: "slotMem = 0x1e"

definition maxDisks :: nat where [machine_defs]: "maxDisks = slotDiskMax - slotDiskBase + 1"
definition maxNICs :: nat where [machine_defs]: "maxNICs = slotNICMax - slotNICBase + 1"
definition MaxHotplugDisks :: int where [machine_defs]: "MaxHotplugDisks = 256"

definition diskFormats :: "string list" where [machine_defs]: "diskFormats = [''qcow2'', ''raw'']"

subsection \<open>The structs\<close>

record image =
  img_FDSet :: int
  img_Format :: string

record disk =
  d_Path :: string
  d_Chain :: "image list"
  d_Format :: string
  d_Readonly :: bool
  d_Serial :: string
  d_Locking :: bool
  d_DirectOverBacking :: bool

record fd =
  fd_Num :: int
  fd_Opaque :: string

record fdset =
  set_ID :: int
  set_FDs :: "fd list"

record nic =
  n_TapFD :: int
  n_VhostFD :: int
  n_MAC :: string
  n_MTU :: int

record memory =
  m_SizeMB :: int
  m_MaxMB :: int

record monitor =
  mon_Socket :: string
  mon_FD :: int

record spec =
  s_QEMU :: string
  s_Kernel :: string
  s_Initrd :: string
  s_Firmware :: string
  s_BIOS :: string
  s_BootCPUs :: int
  s_MaxCPUs :: int
  s_Memory :: memory
  s_CPU :: string
  s_Accel :: string
  s_Disks :: "disk list"
  s_NICs :: "nic list"
  s_HotplugDisks :: int
  s_VsockCID :: int
  s_VsockFD :: int
  s_KVMFDSet :: int
  s_Monitors :: "monitor list"
  s_FDSets :: "fdset list"
  s_SerialFDSet :: int
  s_Serial :: string
  s_Cmdline :: cmdline
  s_Incoming :: string

record shape =
  sh_Machine :: string
  sh_Accel :: string
  sh_CPU :: string
  sh_SMP :: string
  sh_Memory :: string

subsection \<open>The shape\<close>

definition MachineType :: string where
  "MachineType = ''pc-q35-11.1''"

definition machineOpts :: string where
  "machineOpts = MachineType @ '',kernel-irqchip=on,hpet=off,acpi=on,sata=off,smbus=off''"

definition spec_accel :: "spec \<Rightarrow> string" where
  "spec_accel s = (if s_Accel s = [] then ''kvm'' else s_Accel s)"

definition derivedFromHost :: "string \<Rightarrow> bool" where
  "derivedFromHost model = (model = ''host'' \<or> model = ''max'')"

definition smpArg :: "int \<Rightarrow> int \<Rightarrow> string" where
  "smpArg bootCPUs maxCPUs =
     (if maxCPUs > 0 \<and> maxCPUs \<noteq> bootCPUs
      then decz bootCPUs @ '',maxcpus='' @ decz maxCPUs
      else decz bootCPUs)"

definition memoryArg :: "int \<Rightarrow> int \<Rightarrow> string" where
  "memoryArg sizeMB maxMB =
     (if maxMB > sizeMB then decz sizeMB @ '',maxmem='' @ decz maxMB @ ''M'' else decz sizeMB)"

text \<open>The CPU model of \<^verbatim>\<open>Shape\<close> before its options: the one named, or the default of the
  accelerator.\<close>

definition cpuModel :: "spec \<Rightarrow> string" where
  "cpuModel s = (if s_CPU s = [] then (if spec_accel s \<noteq> ''kvm'' then ''max'' else ''host'')
                 else s_CPU s)"

definition Shape :: "spec \<Rightarrow> shape" where
  "Shape s =
     (let accel = spec_accel s;
          cpu = cpuModel s;
          cpu' = (if derivedFromHost cpu then cpu @ '',migratable=on'' else cpu @ '',enforce=on'')
      in \<lparr>sh_Machine = machineOpts,
          sh_Accel = accel,
          sh_CPU = cpu' @ '',-vmx,-svm'',
          sh_SMP = smpArg (s_BootCPUs s) (s_MaxCPUs s),
          sh_Memory = memoryArg (m_SizeMB (s_Memory s)) (m_MaxMB (s_Memory s))\<rparr>)"

subsection \<open>Validation\<close>

datatype monitor_error = MonitorBothOrNeither | MonitorStdFD int

datatype nic_error = TapStdFD int | VhostStdFD | BadMAC string

datatype disk_error =
    NoPathNoChain
  | PathAndChain
  | NoFormat string
  | BadFormat string string "string list"
  | ChainWithFormat
  | ImageNoSet nat int
  | ImageNoFormat nat
  | ImageBadFormat nat string "string list"
  | ImageRawNotLast nat

datatype spec_error =
    NoQEMU
  | NoKernel
  | NoFirmware
  | BIOSIsPath string
  | BadAccel string
  | BadCPU string
  | BadBootCPUs int
  | MaxCPUsBelowBoot int int
  | MaxMBBelowSize int int
  | BadMemory int
  | TooManyDisks nat nat
  | TooManyNICs nat nat
  | BadHotplugDisks int int
  | KernelCmdline cmdline_error
  | MonitorErr nat monitor_error
  | FDSetTwice int
  | FDSetEmpty int
  | FDSetStdFD int int
  | ConsoleTwice
  | ConsoleNoSet int
  | KVMSetNotKVM string
  | KVMNoSet int
  | VsockFDNoVsock
  | VsockStdFD
  | NICErr nat nic_error
  | DiskErr nat disk_error

definition Monitor_validate :: "monitor \<Rightarrow> monitor_error option" where
  "Monitor_validate m =
     (if (mon_Socket m = []) = (mon_FD m = 0) then Some MonitorBothOrNeither
      else if mon_FD m \<noteq> 0 \<and> mon_FD m < 3 then Some (MonitorStdFD (mon_FD m))
      else None)"

definition NIC_validate :: "nic \<Rightarrow> nic_error option" where
  "NIC_validate n =
     (if n_TapFD n < 3 then Some (TapStdFD (n_TapFD n))
      else if n_VhostFD n \<noteq> 0 \<and> n_VhostFD n < 3 then Some VhostStdFD
      else case ParseMAC (n_MAC n) of
          None \<Rightarrow> Some (BadMAC (n_MAC n))
        | Some mac \<Rightarrow> if length mac \<noteq> 6 then Some (BadMAC (n_MAC n)) else None)"

text \<open>The loop over a disk's chain: \<open>n\<close> is its length, \<open>j\<close> the index reached.\<close>

fun chain_validate :: "(int \<Rightarrow> bool) \<Rightarrow> nat \<Rightarrow> nat \<Rightarrow> image list \<Rightarrow> disk_error option" where
  "chain_validate sets n j [] = None"
| "chain_validate sets n j (img # imgs) =
     (if \<not> sets (img_FDSet img) then Some (ImageNoSet j (img_FDSet img))
      else if img_Format img = [] then Some (ImageNoFormat j)
      else if img_Format img \<notin> set diskFormats
        then Some (ImageBadFormat j (img_Format img) diskFormats)
      else if img_Format img = ''raw'' \<and> j \<noteq> n - 1 then Some (ImageRawNotLast j)
      else chain_validate sets n (Suc j) imgs)"

definition Disk_validate :: "(int \<Rightarrow> bool) \<Rightarrow> disk \<Rightarrow> disk_error option" where
  "Disk_validate sets d =
     (if d_Path d = [] \<and> d_Chain d = [] then Some NoPathNoChain
      else if d_Path d \<noteq> [] \<and> d_Chain d \<noteq> [] then Some PathAndChain
      else if d_Path d \<noteq> [] \<and> d_Format d = [] then Some (NoFormat (d_Path d))
      else if d_Path d \<noteq> [] \<and> d_Format d \<notin> set diskFormats
        then Some (BadFormat (d_Path d) (d_Format d) diskFormats)
      else if d_Chain d \<noteq> [] \<and> d_Format d \<noteq> [] then Some ChainWithFormat
      else chain_validate sets (length (d_Chain d)) 0 (d_Chain d))"

text \<open>\<^verbatim>\<open>fdSets\<close>: the loop over the sets, with the index built so far.\<close>

fun fdSets_from :: "(int \<Rightarrow> bool) \<Rightarrow> fdset list \<Rightarrow> (spec_error, int \<Rightarrow> bool) result" where
  "fdSets_from sets [] = Inr sets"
| "fdSets_from sets (st # sts) =
     (if sets (set_ID st) then Inl (FDSetTwice (set_ID st))
      else if set_FDs st = [] then Inl (FDSetEmpty (set_ID st))
      else case find (\<lambda>f. fd_Num f < 3) (set_FDs st) of
          Some f \<Rightarrow> Inl (FDSetStdFD (set_ID st) (fd_Num f))
        | None \<Rightarrow> fdSets_from (sets(set_ID st := True)) sts)"

definition fdSets :: "spec \<Rightarrow> (spec_error, int \<Rightarrow> bool) result" where
  "fdSets s = fdSets_from (\<lambda>_. False) (s_FDSets s)"

text \<open>The first switch of \<^verbatim>\<open>validate\<close>, on the spec's own fields.\<close>

definition validate_fields :: "spec \<Rightarrow> spec_error option" where
  "validate_fields s =
     (if s_QEMU s = [] then Some NoQEMU
      else if s_Kernel s = [] then Some NoKernel
      else if s_Firmware s = [] then Some NoFirmware
      else if CHR ''/'' \<in> set (s_BIOS s) then Some (BIOSIsPath (s_BIOS s))
      else if s_Accel s \<noteq> [] \<and> s_Accel s \<noteq> ''kvm'' \<and> s_Accel s \<noteq> ''tcg''
        then Some (BadAccel (s_Accel s))
      else if list_ex (\<lambda>c. c \<in> {CHR '','', CHR '' '', CHR 0x09, CHR 0x0A}) (s_CPU s)
        then Some (BadCPU (s_CPU s))
      else if s_BootCPUs s < 1 then Some (BadBootCPUs (s_BootCPUs s))
      else if s_MaxCPUs s \<noteq> 0 \<and> s_MaxCPUs s < s_BootCPUs s
        then Some (MaxCPUsBelowBoot (s_MaxCPUs s) (s_BootCPUs s))
      else if m_MaxMB (s_Memory s) \<noteq> 0 \<and> m_MaxMB (s_Memory s) < m_SizeMB (s_Memory s)
        then Some (MaxMBBelowSize (m_MaxMB (s_Memory s)) (m_SizeMB (s_Memory s)))
      else if m_SizeMB (s_Memory s) < 1 then Some (BadMemory (m_SizeMB (s_Memory s)))
      else if length (s_Disks s) > maxDisks then Some (TooManyDisks (length (s_Disks s)) maxDisks)
      else if length (s_NICs s) > maxNICs then Some (TooManyNICs (length (s_NICs s)) maxNICs)
      else if s_HotplugDisks s < 0 \<or> s_HotplugDisks s > MaxHotplugDisks
        then Some (BadHotplugDisks (s_HotplugDisks s) MaxHotplugDisks)
      else None)"

text \<open>Its second switch, on the descriptors, with the index \<^verbatim>\<open>fdSets\<close> made.\<close>

definition validate_descriptors :: "(int \<Rightarrow> bool) \<Rightarrow> spec \<Rightarrow> spec_error option" where
  "validate_descriptors sets s =
     (if s_SerialFDSet s \<noteq> 0 \<and> s_Serial s \<noteq> [] then Some ConsoleTwice
      else if s_SerialFDSet s \<noteq> 0 \<and> \<not> sets (s_SerialFDSet s)
        then Some (ConsoleNoSet (s_SerialFDSet s))
      else if s_KVMFDSet s \<noteq> 0 \<and> s_Accel s \<noteq> [] \<and> s_Accel s \<noteq> ''kvm''
        then Some (KVMSetNotKVM (s_Accel s))
      else if s_KVMFDSet s \<noteq> 0 \<and> \<not> sets (s_KVMFDSet s) then Some (KVMNoSet (s_KVMFDSet s))
      else if s_VsockFD s \<noteq> 0 \<and> s_VsockCID s = 0 then Some VsockFDNoVsock
      else if s_VsockFD s \<noteq> 0 \<and> s_VsockFD s < 3 then Some VsockStdFD
      else None)"

definition validate :: "spec \<Rightarrow> spec_error option" where
  "validate s =
     (case validate_fields s of Some e \<Rightarrow> Some e | None \<Rightarrow>
      case Cmdline_validate (s_Cmdline s) of Some e \<Rightarrow> Some (KernelCmdline e) | None \<Rightarrow>
      case check_each Monitor_validate 0 (s_Monitors s) of
        Some (i, e) \<Rightarrow> Some (MonitorErr i e) | None \<Rightarrow>
      case fdSets s of Inl e \<Rightarrow> Some e | Inr sets \<Rightarrow>
      case validate_descriptors sets s of Some e \<Rightarrow> Some e | None \<Rightarrow>
      case check_each NIC_validate 0 (s_NICs s) of
        Some (i, e) \<Rightarrow> Some (NICErr i e) | None \<Rightarrow>
      case check_each (Disk_validate sets) 0 (s_Disks s) of
        Some (i, e) \<Rightarrow> Some (DiskErr i e) | None \<Rightarrow> None)"

subsection \<open>Well-formed specs\<close>

definition monitor_ok :: "monitor \<Rightarrow> bool" where
  "monitor_ok m = (mon_Socket m \<noteq> [] \<and> mon_FD m = 0 \<or> mon_Socket m = [] \<and> mon_FD m \<ge> 3)"

definition nic_ok :: "nic \<Rightarrow> bool" where
  "nic_ok n = (n_TapFD n \<ge> 3 \<and> (n_VhostFD n = 0 \<or> n_VhostFD n \<ge> 3)
     \<and> map_option length (ParseMAC (n_MAC n)) = Some 6)"

definition chain_ok :: "(int \<Rightarrow> bool) \<Rightarrow> image list \<Rightarrow> bool" where
  "chain_ok sets imgs = ((\<forall>img \<in> set imgs. sets (img_FDSet img) \<and> img_Format img \<in> set diskFormats)
     \<and> (\<forall>img \<in> set (butlast imgs). img_Format img \<noteq> ''raw''))"

definition disk_ok :: "(int \<Rightarrow> bool) \<Rightarrow> disk \<Rightarrow> bool" where
  "disk_ok sets d =
     (d_Path d \<noteq> [] \<and> d_Chain d = [] \<and> d_Format d \<in> set diskFormats
      \<or> d_Path d = [] \<and> d_Chain d \<noteq> [] \<and> d_Format d = [] \<and> chain_ok sets (d_Chain d))"

definition set_ids :: "spec \<Rightarrow> int \<Rightarrow> bool" where
  "set_ids s = (\<lambda>i. i \<in> set_ID ` set (s_FDSets s))"

definition fdset_ok :: "fdset \<Rightarrow> bool" where
  "fdset_ok st = (set_FDs st \<noteq> [] \<and> (\<forall>f \<in> set (set_FDs st). fd_Num f \<ge> 3))"

definition fdsets_ok :: "spec \<Rightarrow> bool" where
  "fdsets_ok s = (distinct (map set_ID (s_FDSets s)) \<and> (\<forall>st \<in> set (s_FDSets s). fdset_ok st))"

definition cpu_name_ok :: "string \<Rightarrow> bool" where
  "cpu_name_ok v = (\<forall>c \<in> set v. c \<notin> {CHR '','', CHR '' '', CHR 0x09, CHR 0x0A})"

definition fields_ok :: "spec \<Rightarrow> bool" where
  "fields_ok s = (s_QEMU s \<noteq> [] \<and> s_Kernel s \<noteq> [] \<and> s_Firmware s \<noteq> [] \<and> CHR ''/'' \<notin> set (s_BIOS s)
     \<and> s_Accel s \<in> {[], ''kvm'', ''tcg''} \<and> cpu_name_ok (s_CPU s)
     \<and> s_BootCPUs s \<ge> 1 \<and> (s_MaxCPUs s = 0 \<or> s_MaxCPUs s \<ge> s_BootCPUs s)
     \<and> m_SizeMB (s_Memory s) \<ge> 1
     \<and> (m_MaxMB (s_Memory s) = 0 \<or> m_MaxMB (s_Memory s) \<ge> m_SizeMB (s_Memory s))
     \<and> length (s_Disks s) \<le> maxDisks \<and> length (s_NICs s) \<le> maxNICs
     \<and> 0 \<le> s_HotplugDisks s \<and> s_HotplugDisks s \<le> MaxHotplugDisks)"

definition descriptors_ok :: "(int \<Rightarrow> bool) \<Rightarrow> spec \<Rightarrow> bool" where
  "descriptors_ok sets s =
     ((s_SerialFDSet s \<noteq> 0 \<longrightarrow> s_Serial s = [] \<and> sets (s_SerialFDSet s))
      \<and> (s_KVMFDSet s \<noteq> 0 \<longrightarrow> spec_accel s = ''kvm'' \<and> sets (s_KVMFDSet s))
      \<and> (s_VsockFD s \<noteq> 0 \<longrightarrow> s_VsockCID s \<noteq> 0 \<and> s_VsockFD s \<ge> 3))"

definition spec_ok :: "spec \<Rightarrow> bool" where
  "spec_ok s = (fields_ok s \<and> cmdline_ok (s_Cmdline s) \<and> (\<forall>m \<in> set (s_Monitors s). monitor_ok m)
     \<and> fdsets_ok s \<and> descriptors_ok (set_ids s) s \<and> (\<forall>n \<in> set (s_NICs s). nic_ok n)
     \<and> (\<forall>d \<in> set (s_Disks s). disk_ok (set_ids s) d))"

subsection \<open>What each check decides\<close>

interpretation monitor_check: checker Monitor_validate monitor_ok
  by unfold_locales (auto simp: Monitor_validate_def monitor_ok_def)

interpretation nic_check: checker NIC_validate nic_ok
  by unfold_locales (auto simp: NIC_validate_def nic_ok_def split: option.splits)

lemma chain_validate_None:
  "chain_validate sets n j imgs = None \<longleftrightarrow>
     (\<forall>img \<in> set imgs. sets (img_FDSet img) \<and> img_Format img \<in> set diskFormats)
     \<and> (\<forall>k < length imgs. j + k \<noteq> n - 1 \<longrightarrow> img_Format (imgs ! k) \<noteq> ''raw'')"
proof (induction imgs arbitrary: j)
  case Nil
  then show ?case by simp
next
  case (Cons img imgs)
  have "img_Format img \<in> set diskFormats \<Longrightarrow> img_Format img \<noteq> []"
    by (auto simp: diskFormats_def)
  with Cons.IH [of "Suc j"] show ?case by (auto simp: All_less_Suc2)
qed

lemma chain_ok_iff: "chain_validate sets (length imgs) 0 imgs = None \<longleftrightarrow> chain_ok sets imgs"
proof -
  have "(\<forall>k < length imgs. k \<noteq> length imgs - 1 \<longrightarrow> img_Format (imgs ! k) \<noteq> ''raw'')
      \<longleftrightarrow> (\<forall>img \<in> set (butlast imgs). img_Format img \<noteq> ''raw'')"
    unfolding all_set_conv_all_nth by (auto simp: nth_butlast)
  then show ?thesis by (simp add: chain_validate_None chain_ok_def)
qed

interpretation disk_check: checker "Disk_validate sets" "disk_ok sets"
proof
  fix d
  show "Disk_validate sets d = None \<longleftrightarrow> disk_ok sets d"
    by (auto simp: Disk_validate_def disk_ok_def chain_ok_iff[symmetric] diskFormats_def)
qed

lemma fdSets_from_Inr:
  "fdSets_from sets sts = Inr sets' \<longleftrightarrow>
     distinct (map set_ID sts) \<and> (\<forall>st \<in> set sts. \<not> sets (set_ID st) \<and> fdset_ok st)
     \<and> sets' = (\<lambda>i. sets i \<or> i \<in> set_ID ` set sts)"
proof (induction sts arbitrary: sets)
  case Nil
  then show ?case by auto
next
  case (Cons st sts)
  have ok: "fdset_ok st \<longleftrightarrow> set_FDs st \<noteq> [] \<and> find (\<lambda>f. fd_Num f < 3) (set_FDs st) = None"
    by (auto simp: fdset_ok_def find_None_iff)
  show ?case
    by (auto simp: Cons.IH ok fun_eq_iff image_iff split: option.splits)
qed

lemma fdSets_Inr: "fdSets s = Inr sets \<longleftrightarrow> fdsets_ok s \<and> sets = set_ids s"
  by (auto simp: fdSets_def fdSets_from_Inr fdsets_ok_def set_ids_def)

lemma validate_fields_None: "validate_fields s = None \<longleftrightarrow> fields_ok s"
proof -
  have cpu: "list_ex (\<lambda>c. c \<in> {CHR '','', CHR '' '', CHR 0x09, CHR 0x0A}) v \<longleftrightarrow> \<not> cpu_name_ok v" for v
    by (auto simp: cpu_name_ok_def list_ex_iff)
  have if_Some: "((if b then Some e else r) = None) = (\<not> b \<and> r = None)" for b r and e :: spec_error
    by simp
  show ?thesis
    unfolding validate_fields_def fields_ok_def cpu if_Some by (auto simp: not_less)
qed

lemma validate_descriptors_None:
  "validate_descriptors sets s = None \<longleftrightarrow> descriptors_ok sets s"
proof -
  have kvm: "spec_accel s = ''kvm'' \<longleftrightarrow> s_Accel s = [] \<or> s_Accel s = ''kvm''"
    by (auto simp: spec_accel_def)
  show ?thesis
    unfolding validate_descriptors_def descriptors_ok_def kvm by (auto simp: not_less)
qed

lemma validate_None: "validate s = None \<longleftrightarrow> spec_ok s"
proof (cases "fdSets s")
  case (Inl e)
  then have "\<not> fdsets_ok s" using fdSets_Inr by (metis sum.distinct(1))
  with Inl show ?thesis by (auto simp: validate_def spec_ok_def split: option.splits)
next
  case (Inr sets)
  then have "fdsets_ok s" and "sets = set_ids s" by (simp_all add: fdSets_Inr)
  with Inr show ?thesis
    by (auto simp: validate_def spec_ok_def split: option.splits
        simp flip: validate_fields_None validate_descriptors_None cmdline_check.chk_None
          monitor_check.check_each_None [of 0] nic_check.check_each_None [of 0]
          disk_check.check_each_None [of _ 0])
qed

lemma fdSets_Inl: "fdSets s = Inl e \<Longrightarrow> \<not> fdsets_ok s \<and> (\<forall>i e'. e \<noteq> DiskErr i e')"
proof -
  have "fdSets_from sets sts = Inl e \<Longrightarrow> e \<noteq> DiskErr i e'" for sets sts i e'
    by (induction sts arbitrary: sets) (auto split: if_splits option.splits)
  then show "fdSets s = Inl e \<Longrightarrow> \<not> fdsets_ok s \<and> (\<forall>i e'. e \<noteq> DiskErr i e')"
    using fdSets_Inr [of s "set_ids s"] by (auto simp: fdSets_def)
qed

lemma validate_DiskErr:
  "validate s = Some (DiskErr i e) \<longleftrightarrow> fields_ok s \<and> cmdline_ok (s_Cmdline s)
      \<and> list_all monitor_ok (s_Monitors s) \<and> fdsets_ok s \<and> descriptors_ok (set_ids s) s
      \<and> list_all nic_ok (s_NICs s)
      \<and> check_each (Disk_validate (set_ids s)) 0 (s_Disks s) = Some (i, e)"
proof -
  have f: "validate_fields s \<noteq> Some (DiskErr i e)" by (simp add: validate_fields_def)
  have d: "validate_descriptors sets s \<noteq> Some (DiskErr i e)" for sets
    by (simp add: validate_descriptors_def)
  show ?thesis
  proof (cases "fdSets s")
    case (Inl err)
    with fdSets_Inl [OF Inl] f show ?thesis by (auto simp: validate_def split: option.splits)
  next
    case (Inr sets)
    then have "fdsets_ok s" and "sets = set_ids s" by (simp_all add: fdSets_Inr)
    with Inr f d show ?thesis
      by (auto simp: validate_def list_all_iff split: option.splits
          simp flip: validate_fields_None validate_descriptors_None cmdline_check.chk_None
            monitor_check.check_each_None [of 0] nic_check.check_each_None [of 0])
  qed
qed

subsection \<open>A sample machine\<close>

text \<open>A spec that uses most of what a spec can say, with commas where a caller can put them. The
  witnesses of the development evaluate the model on it.\<close>

definition sample_spec :: spec where
  "sample_spec = \<lparr>s_QEMU = ''/q'', s_Kernel = ''/k'', s_Initrd = [], s_Firmware = ''/f'', s_BIOS = [],
     s_BootCPUs = 2, s_MaxCPUs = 4, s_Memory = \<lparr>m_SizeMB = 1024, m_MaxMB = 4096\<rparr>, s_CPU = [],
     s_Accel = [],
     s_Disks =
       [\<lparr>d_Path = ''/a,b'', d_Chain = [], d_Format = ''qcow2'', d_Readonly = False,
         d_Serial = ''x,y'', d_Locking = False, d_DirectOverBacking = True\<rparr>,
        \<lparr>d_Path = [], d_Chain = [\<lparr>img_FDSet = 1, img_Format = ''qcow2''\<rparr>, \<lparr>img_FDSet = 2, img_Format = ''raw''\<rparr>],
         d_Format = [], d_Readonly = False, d_Serial = [], d_Locking = True, d_DirectOverBacking = False\<rparr>],
     s_NICs = [\<lparr>n_TapFD = 5, n_VhostFD = 0, n_MAC = ''52:54:00:12:34:56'', n_MTU = 1400\<rparr>],
     s_HotplugDisks = 4, s_VsockCID = 7, s_VsockFD = 0, s_KVMFDSet = 0,
     s_Monitors = [\<lparr>mon_Socket = ''/m,n'', mon_FD = 0\<rparr>],
     s_FDSets = [\<lparr>set_ID = 1, set_FDs = [\<lparr>fd_Num = 10, fd_Opaque = ''/p,q''\<rparr>]\<rparr>,
                 \<lparr>set_ID = 2, set_FDs = [\<lparr>fd_Num = 11, fd_Opaque = []\<rparr>]\<rparr>],
     s_SerialFDSet = 0, s_Serial = ''mon:stdio'', s_Cmdline = DefaultCmdline, s_Incoming = []\<rparr>"

lemma sample_valid: "validate sample_spec = None"
  by code_simp

lemma sample_ok: "spec_ok sample_spec"
  using sample_valid by (simp add: validate_None)

subsection \<open>Properties\<close>

text \<open>C6: \<^verbatim>\<open>Spec.validate\<close> returns nil for exactly the well-formed specs: every path, count,
  descriptor, format and reference in range, every descriptor set given once, with a
  descriptor of 3 or above, and every set the spec refers to declared.\<close>

theorem validate_accepts_exactly_wellformed:
  "validate s = None \<longleftrightarrow> spec_ok s"
  by (rule validate_None)

text \<open>The error of \<^verbatim>\<open>validate\<close> names the first disk that is wrong, and names a disk only when
  everything checked before the disks is right: the index it carries is that of a disk its own
  check refuses, for the reason the error gives, and every disk before it is well-formed.\<close>

theorem validate_reports_the_first_bad_disk:
  "validate s = Some (DiskErr i e) \<longleftrightarrow>
     (fields_ok s \<and> cmdline_ok (s_Cmdline s) \<and> list_all monitor_ok (s_Monitors s) \<and> fdsets_ok s
      \<and> descriptors_ok (set_ids s) s \<and> list_all nic_ok (s_NICs s)
      \<and> i < length (s_Disks s) \<and> Disk_validate (set_ids s) (s_Disks s ! i) = Some e
      \<and> list_all (disk_ok (set_ids s)) (take i (s_Disks s)))"
proof -
  let ?each = "check_each (Disk_validate (set_ids s)) 0 (s_Disks s)"
  have "validate s = Some (DiskErr i e) \<longleftrightarrow> fields_ok s \<and> cmdline_ok (s_Cmdline s)
      \<and> list_all monitor_ok (s_Monitors s) \<and> fdsets_ok s \<and> descriptors_ok (set_ids s) s
      \<and> list_all nic_ok (s_NICs s) \<and> ?each = Some (i, e)"
    by (rule validate_DiskErr)
  moreover have "?each = Some (i, e) \<longleftrightarrow> i < length (s_Disks s)
      \<and> Disk_validate (set_ids s) (s_Disks s ! i) = Some e
      \<and> list_all (disk_ok (set_ids s)) (take i (s_Disks s))"
    by (auto simp: disk_check.check_each_Some list_all_length)
  ultimately show ?thesis by blast
qed

end
