(* ===== verification/Qemu_Options.thy ===== *)
theory Qemu_Options
  imports Go_Strings
begin

text \<open>
  How QEMU reads what the machine hands it, as far as the sources rely on it, and the escaping
  the machine does for it.

  \<open>qemuOpt\<close> is \<^verbatim>\<open>machine.qemuOpt\<close>. \<open>opt_parts\<close> is the reading its comment names: an option
  string splits on a single comma, and a doubled one is a literal comma. \<open>read_opts\<close> goes on to the names
  and values, as QEMU's manual gives the syntax: a part with an equals sign before any comma is
  a name and its value, the first part without one is the value of the name the option implies, if it does, and any other is a flag, on or,
  after \<^verbatim>\<open>no\<close>, off. \<open>argv_opts\<close> groups a
  command line into options: each takes the argument after it, but for the few that take none.

  The locale \<open>escaping\<close> is the law between the two: an escaped value is read back as that one
  value, whatever it holds. Inside it, an option string made of comma-free keys and escaped
  values is read back part by part. The locale \<open>appender\<close> is the contract the functions that
  build a command line share: each appends whole options and nothing else.
\<close>

subsection \<open>Escaping\<close>

definition qemuOpt :: "string \<Rightarrow> string" where
  "qemuOpt v = ReplaceAll v (CHR '','') '',,''"

fun opt_parts :: "string \<Rightarrow> string list" where
  "opt_parts [] = [[]]"
| "opt_parts (c # cs) =
     (if c = CHR '','' then
        (case cs of
           d # ds \<Rightarrow>
             if d = CHR '','' then
               (case opt_parts ds of [] \<Rightarrow> ['','']  | p # ps \<Rightarrow> (CHR '','' # p) # ps)
             else [] # opt_parts cs
         | [] \<Rightarrow> [] # opt_parts cs)
      else (case opt_parts cs of [] \<Rightarrow> [[c]] | p # ps \<Rightarrow> (c # p) # ps))"

locale escaping =
  fixes esc :: "string \<Rightarrow> string"
    and parts :: "string \<Rightarrow> string list"
  assumes parts_Nil: "parts [] = [[]]"
    and parts_esc: "parts (esc v @ r) = (v @ hd (parts r)) # tl (parts r)"
    and parts_sep: "r \<noteq> [] \<Longrightarrow> hd r \<noteq> CHR '','' \<Longrightarrow> parts (CHR '','' # r) = [] # parts r"
    and esc_plain: "CHR '','' \<notin> set v \<Longrightarrow> esc v = v"
begin

text \<open>A key without a comma is its own escape, so it is read as itself.\<close>

lemma parts_plain: "CHR '','' \<notin> set k \<Longrightarrow> parts (k @ r) = (k @ hd (parts r)) # tl (parts r)"
  using parts_esc [of k r] by (simp add: esc_plain)

lemma parts_value: "parts (esc v) = [v]"
  using parts_esc [of v "[]"] by (simp add: parts_Nil)

text \<open>Options given as pairs of a key and a value to escape.\<close>

definition render :: "(string \<times> string) list \<Rightarrow> string" where
  "render kvs = Join (map (\<lambda>(k, v). k @ esc v) kvs) '',''"

lemma parts_render:
  assumes "kvs \<noteq> []" and "\<forall>(k, v) \<in> set kvs. k \<noteq> [] \<and> CHR '','' \<notin> set k"
  shows "parts (render kvs) = map (\<lambda>(k, v). k @ v) kvs"
  using assms
proof (induction kvs)
  case Nil
  then show ?case by simp
next
  case (Cons kv kvs)
  obtain k v where kv: "kv = (k, v)" by (cases kv)
  with Cons.prems have k: "k \<noteq> []" "CHR '','' \<notin> set k" by auto
  show ?case
  proof (cases "kvs = []")
    case True
    with k show ?thesis by (simp add: kv render_def parts_plain parts_value)
  next
    case False
    then obtain k' v' rest where kvs: "kvs = (k', v') # rest" by (cases kvs) auto
    with Cons.prems have k': "k' \<noteq> []" "CHR '','' \<notin> set k'" by auto
    have r: "render (kv # kvs) = k @ esc v @ CHR '','' # render kvs"
      using False by (simp add: kv render_def Join_Cons)
    have "render kvs \<noteq> []" and "hd (render kvs) \<noteq> CHR '',''"
      using k' by (cases rest; auto simp: kvs render_def hd_append Join_Cons; metis hd_in_set)+
    then have "parts (CHR '','' # render kvs) = [] # parts (render kvs)" by (rule parts_sep)
    with r k Cons.IH Cons.prems False show ?thesis by (simp add: kv parts_plain parts_esc)
  qed
qed

end

lemma opt_parts_nonempty [simp]: "opt_parts s \<noteq> []"
  by (cases s) (auto split: list.splits)

lemma opt_parts_esc: "opt_parts (qemuOpt v @ r) = (v @ hd (opt_parts r)) # tl (opt_parts r)"
  by (induction v) (auto simp: qemuOpt_def ReplaceAll_def split: list.splits)

interpretation qopt: escaping qemuOpt opt_parts
proof
  show "opt_parts [] = [[]]" by simp
  show "opt_parts (qemuOpt v @ r) = (v @ hd (opt_parts r)) # tl (opt_parts r)" for v r
    by (rule opt_parts_esc)
  show "opt_parts (CHR '','' # r) = [] # opt_parts r" if "r \<noteq> []" and "hd r \<noteq> CHR '',''" for r
    using that by (cases r) auto
  show "qemuOpt v = v" if "CHR '','' \<notin> set v" for v
    using that by (induction v) (auto simp: qemuOpt_def ReplaceAll_def)
qed

text \<open>An option string of comma-free parts, one of which ends in an escaped value, is read back
  as those parts with the value as it was.\<close>

lemma opt_parts_Join_value:
  assumes "\<forall>p \<in> set (ps @ qs). p \<noteq> [] \<and> CHR '','' \<notin> set p" and "k \<noteq> []" and "CHR '','' \<notin> set k"
  shows "opt_parts (Join (ps @ [k @ qemuOpt v] @ qs) '','') = ps @ [k @ v] @ qs"
proof -
  let ?kvs = "map (\<lambda>p. (p, [])) ps @ [(k, v)] @ map (\<lambda>p. (p, [])) qs"
  have "qopt.render ?kvs = Join (ps @ [k @ qemuOpt v] @ qs) '',''"
    by (simp add: qopt.render_def comp_def qopt.esc_plain)
  moreover have "opt_parts (qopt.render ?kvs) = map (\<lambda>(k, v). k @ v) ?kvs"
    by (rule qopt.parts_render) (use assms in auto)
  ultimately show ?thesis by (simp add: comp_def)
qed

lemma opt_parts_Join:
  assumes "ps \<noteq> []" and "\<forall>p \<in> set ps. p \<noteq> [] \<and> CHR '','' \<notin> set p"
  shows "opt_parts (Join ps '','') = ps"
proof -
  have "qopt.render (map (\<lambda>p. (p, [])) ps) = Join ps '',''"
    by (simp add: qopt.render_def comp_def qopt.esc_plain)
  moreover have "opt_parts (qopt.render (map (\<lambda>p. (p, [])) ps)) = map (\<lambda>(k, v). k @ v) (map (\<lambda>p. (p, [])) ps)"
    by (rule qopt.parts_render) (use assms in auto)
  ultimately show ?thesis by (simp add: comp_def)
qed

subsection \<open>Names and values\<close>

definition named :: "string \<Rightarrow> bool" where
  "named p = (CHR ''='' \<in> set (takeWhile (\<lambda>c. c \<noteq> CHR '','') p))"

definition name_value :: "string \<Rightarrow> string \<times> string" where
  "name_value p = (takeWhile (\<lambda>c. c \<noteq> CHR ''='') p, tl (dropWhile (\<lambda>c. c \<noteq> CHR ''='') p))"

definition opt_pair :: "string option \<Rightarrow> string \<Rightarrow> string \<times> string" where
  "opt_pair implied p = (if named p then name_value p
     else (case implied of Some k \<Rightarrow> (k, p) | None \<Rightarrow> if HasPrefix p ''no'' then (drop 2 p, ''off'') else (p, ''on'')))"

definition read_parts :: "string option \<Rightarrow> string list \<Rightarrow> (string \<times> string) list" where
  "read_parts implied ps = (case ps of [] \<Rightarrow> [] | p # qs \<Rightarrow> opt_pair implied p # map (opt_pair None) qs)"

definition read_opts :: "string option \<Rightarrow> string \<Rightarrow> (string \<times> string) list" where
  "read_opts implied s = read_parts implied (opt_parts s)"

lemma opt_pair_named:
  assumes "CHR '','' \<notin> set k" and "CHR ''='' \<notin> set k"
  shows "opt_pair implied (k @ CHR ''='' # v) = (k, v)"
proof -
  have k: "takeWhile (\<lambda>c. c \<noteq> CHR '','') (k @ CHR ''='' # v) = k @ takeWhile (\<lambda>c. c \<noteq> CHR '','') (CHR ''='' # v)"
    by (rule takeWhile_append2) (use assms(1) in auto)
  have "takeWhile (\<lambda>c. c \<noteq> CHR ''='') (k @ CHR ''='' # v) = k" "dropWhile (\<lambda>c. c \<noteq> CHR ''='') (k @ CHR ''='' # v) = CHR ''='' # v"
    using assms(2) by (auto simp: takeWhile_append dropWhile_append)
  then show ?thesis by (simp add: opt_pair_def named_def name_value_def k)
qed

lemma read_parts_append: "ps \<noteq> [] \<Longrightarrow> read_parts implied (ps @ qs) = read_parts implied ps @ map (opt_pair None) qs"
  by (cases ps) (simp_all add: read_parts_def)

subsection \<open>The command line as options\<close>

type_synonym argv = "string list"
type_synonym qopts = "(string \<times> string option) list"

definition bare_flags :: "string list" where
  "bare_flags = [''-nodefaults'', ''-nographic'', ''-no-reboot'', ''-snapshot'']"

fun argv_opts :: "argv \<Rightarrow> qopts" where
  "argv_opts [] = []"
| "argv_opts [f] = [(f, None)]"
| "argv_opts (f # v # rest) =
     (if f \<in> set bare_flags then (f, None) # argv_opts (v # rest)
      else (f, Some v) # argv_opts rest)"

fun opts_argv :: "qopts \<Rightarrow> argv" where
  "opts_argv [] = []"
| "opts_argv ((f, None) # os) = f # opts_argv os"
| "opts_argv ((f, Some v) # os) = f # v # opts_argv os"

definition whole_opt :: "string \<times> string option \<Rightarrow> bool" where
  "whole_opt o' = (snd o' = None \<longleftrightarrow> fst o' \<in> set bare_flags)"

lemma opts_argv_append [simp]: "opts_argv (a @ b) = opts_argv a @ opts_argv b"
  by (induction a rule: opts_argv.induct) auto

lemma opts_argv_concat: "opts_argv (concat oss) = concat (map opts_argv oss)"
  by (induction oss) auto

lemma argv_opts_argv: "list_all whole_opt os \<Longrightarrow> argv_opts (opts_argv os) = os"
proof (induction os rule: opts_argv.induct)
  case 1
  then show ?case by simp
next
  case (2 f os)
  then show ?case by (cases "opts_argv os") (auto simp: whole_opt_def)
next
  case (3 f v os)
  then show ?case by (auto simp: whole_opt_def)
qed

text \<open>A function that appends a part of the machine to a command line: it appends what the
  options it stands for say, and each of them is whole.\<close>

locale appender =
  fixes app :: "'a \<Rightarrow> argv \<Rightarrow> argv"
    and opts :: "'a \<Rightarrow> qopts"
  assumes app_opts: "app s args = args @ opts_argv (opts s)"
    and opts_whole: "list_all whole_opt (opts s)"
begin

lemma app_render: "app s (opts_argv os) = opts_argv (os @ opts s)"
  by (simp add: app_opts)

lemma app_parse:
  "list_all whole_opt os \<Longrightarrow> argv_opts (app s (opts_argv os)) = os @ opts s"
  by (simp add: app_render argv_opts_argv opts_whole del: opts_argv_append)

end

end
