(* ===== verification/Go_Json.thy ===== *)
theory Go_Json
  imports Go_Strings
begin

text \<open>
  JSON: what the program uses of Go's \<^verbatim>\<open>encoding/json\<close> to write and to read.

  A string is written rune by rune: quotes, backslashes, control characters, the three characters
  HTML gives a meaning and the two line separators of Unicode are escaped, and a byte that is no
  part of valid UTF-8 is written as U+FFFD. \<open>json_text\<close> is the text \<^verbatim>\<open>Marshal\<close> writes and
  \<open>json_indented\<close> the one of an encoder with \<^verbatim>\<open>SetIndent("", "  ")\<close>.

  \<open>read_value\<close> reads one value off the front of a text and \<open>json_parse\<close> a text that is one value. The
  grammar is that of RFC 8259, as the package's scanner has it: no leading zeros, no control
  characters in strings, only the named escapes; a pair of surrogates is one character, and half a
  pair or a byte that is no part of valid UTF-8 is U+FFFD. (Its limit of ten thousand levels of
  nesting is left out.) The reader recurses on a bound for the depth and length of what it reads,
  and the length of the text is shown to be bound enough: what was written is read back, white
  space and all, with every string in it as \<open>to_valid\<close> makes it, and \<open>to_valid\<close> changes nothing of a
  string that is valid UTF-8.
\<close>

subsection \<open>UTF-8\<close>

definition byte_in :: "nat \<Rightarrow> nat \<Rightarrow> char \<Rightarrow> bool" where
  "byte_in lo hi c = (lo \<le> of_char c \<and> of_char c \<le> hi)"

definition second_byte :: "char \<Rightarrow> char \<Rightarrow> bool" where
  "second_byte c d = (if c = CHR 0xE0 then byte_in 0xA0 0xBF d else if c = CHR 0xED then byte_in 0x80 0x9F d
     else if c = CHR 0xF0 then byte_in 0x90 0xBF d else if c = CHR 0xF4 then byte_in 0x80 0x8F d
     else byte_in 0x80 0xBF d)"

text \<open>\<^verbatim>\<open>utf8.DecodeRune\<close>: how many bytes the character at the front has, 0 if there is none.\<close>

definition first_len :: "char \<Rightarrow> nat" where
  "first_len c = (if byte_in 0 0x7F c then 1 else if byte_in 0xC2 0xDF c then 2
     else if byte_in 0xE0 0xEF c then 3 else if byte_in 0xF0 0xF4 c then 4 else 0)"

definition cont_ok :: "char \<Rightarrow> string \<Rightarrow> bool" where
  "cont_ok c ds = (case ds of [] \<Rightarrow> True | d # es \<Rightarrow> second_byte c d \<and> list_all (byte_in 0x80 0xBF) es)"

definition utf8_len :: "string \<Rightarrow> nat" where
  "utf8_len s = (case s of
      [] \<Rightarrow> 0
    | c # r \<Rightarrow> (let n = first_len c in if n \<le> Suc (length r) \<and> cont_ok c (take (n - 1) r) then n else 0))"

text \<open>A string as its runes: valid sequences, and single bytes that are part of none.\<close>

definition rune_len :: "string \<Rightarrow> nat" where
  "rune_len s = max 1 (utf8_len s)"

function runes :: "string \<Rightarrow> string list" where
  "runes [] = []"
| "runes (c # cs) = take (rune_len (c # cs)) (c # cs) # runes (drop (rune_len (c # cs)) (c # cs))"
  by pat_completeness auto
termination
  by (relation "measure length") (auto simp: rune_len_def)

definition valid_rune :: "string \<Rightarrow> bool" where
  "valid_rune r = (r \<noteq> [] \<and> utf8_len r = length r)"

definition valid_utf8 :: "string \<Rightarrow> bool" where
  "valid_utf8 s = list_all valid_rune (runes s)"

definition replacement :: string where
  "replacement = [CHR 0xEF, CHR 0xBF, CHR 0xBD]"

definition to_valid :: "string \<Rightarrow> string" where
  "to_valid s = concat (map (\<lambda>r. if valid_rune r then r else replacement) (runes s))"

subsection \<open>Writing\<close>

text \<open>\<open>JOther\<close> is the text of a value of another kind: a number with a fraction or an exponent.\<close>

datatype json = JStr string | JBool bool | JNull | JInt int | JArr "json list" | JObj "(string \<times> json) list" | JOther string

definition json_char :: "char \<Rightarrow> string" where
  "json_char c = (let n = of_char c :: nat; bs = CHR 0x5C in
     if c = CHR 0x22 \<or> c = bs then [bs, c]
     else if n = 8 then [bs, CHR ''b''] else if n = 12 then [bs, CHR ''f'']
     else if n = 10 then [bs, CHR ''n''] else if n = 13 then [bs, CHR ''r'']
     else if n = 9 then [bs, CHR ''t'']
     else if n < 32 \<or> c \<in> {CHR ''<'', CHR ''>'', CHR ''&''}
       then [bs] @ ''u00'' @ [digit (n div 16), digit (n mod 16)]
     else [c])"

definition json_rune :: "string \<Rightarrow> string" where
  "json_rune r =
     (if \<not> valid_rune r then [CHR 0x5C] @ ''ufffd''
      else if r = [CHR 0xE2, CHR 0x80, CHR 0xA8] then [CHR 0x5C] @ ''u2028''
      else if r = [CHR 0xE2, CHR 0x80, CHR 0xA9] then [CHR 0x5C] @ ''u2029''
      else if length r = 1 then json_char (hd r)
      else r)"

definition json_string :: "string \<Rightarrow> string" where
  "json_string s = [CHR 0x22] @ concat (map json_rune (runes s)) @ [CHR 0x22]"

fun json_text :: "json \<Rightarrow> string" where
  "json_text (JStr s) = json_string s"
| "json_text (JBool b) = (if b then ''true'' else ''false'')"
| "json_text JNull = ''null''"
| "json_text (JInt i) = decz i"
| "json_text (JOther s) = s"
| "json_text (JArr vs) = ''['' @ Join (map json_text vs) '','' @ '']''"
| "json_text (JObj kvs) =
     ''{'' @ Join (map (\<lambda>(k, v). json_string k @ '':'' @ json_text v) kvs) '','' @ ''}''"

text \<open>A line's end and the spaces at the start of the next, at a depth.\<close>

definition line_at :: "nat \<Rightarrow> string" where
  "line_at d = CHR 0x0A # concat (replicate d ''  '')"

fun json_indented :: "nat \<Rightarrow> json \<Rightarrow> string" where
  "json_indented d (JArr vs) =
     (if vs = [] then ''[]''
      else ''['' @ line_at (Suc d) @ Join (map (json_indented (Suc d)) vs) ('','' @ line_at (Suc d)) @ line_at d @ '']'')"
| "json_indented d (JObj kvs) =
     (if kvs = [] then ''{}''
      else ''{'' @ line_at (Suc d) @ Join (map (\<lambda>(k, v). json_string k @ '': '' @ json_indented (Suc d) v) kvs) ('','' @ line_at (Suc d))
        @ line_at d @ ''}'')"
| "json_indented d j = json_text j"

subsection \<open>Reading\<close>

definition json_space :: "char \<Rightarrow> bool" where
  "json_space c = (c \<in> {CHR '' '', CHR 0x09, CHR 0x0A, CHR 0x0D})"

definition skip :: "string \<Rightarrow> string" where
  "skip s = dropWhile json_space s"

definition starts :: "char \<Rightarrow> string \<Rightarrow> bool" where
  "starts c s = (s \<noteq> [] \<and> hd s = c)"

text \<open>The UTF-8 of a code point.\<close>

definition utf8 :: "nat \<Rightarrow> string" where
  "utf8 n = (if n < 0x80 then [char_of n]
     else if n < 0x800 then [char_of (0xC0 + n div 64), char_of (0x80 + n mod 64)]
     else if n < 0x10000 then [char_of (0xE0 + n div 4096), char_of (0x80 + n div 64 mod 64), char_of (0x80 + n mod 64)]
     else [char_of (0xF0 + n div 262144), char_of (0x80 + n div 4096 mod 64), char_of (0x80 + n div 64 mod 64), char_of (0x80 + n mod 64)])"

definition escapes :: string where
  "escapes = [CHR 0x22, CHR 0x5C] @ ''/bfnrt''"

definition escaped :: "char \<Rightarrow> string" where
  "escaped c = (if c = CHR ''b'' then [CHR 0x08] else if c = CHR ''f'' then [CHR 0x0C] else if c = CHR ''n'' then [CHR 0x0A]
     else if c = CHR ''r'' then [CHR 0x0D] else if c = CHR ''t'' then [CHR 0x09] else [c])"

text \<open>Four hexadecimal digits, of either case.\<close>

definition lower_char :: "char \<Rightarrow> char" where
  "lower_char c = (if byte_in 65 90 c then char_of ((of_char c :: nat) + 32) else c)"

definition hex4 :: "string \<Rightarrow> nat option" where
  "hex4 s = (let ds = map lower_char (take 4 s) in
     if length ds = 4 \<and> list_all is_hexdigit ds then Some (undigits 16 ds) else None)"

text \<open>After a backslash and a \<^verbatim>\<open>u\<close>: a code point, or one half of a pair of surrogates with the other
  after it, or half a pair without, which stands for U+FFFD.\<close>

definition low_half :: "string \<Rightarrow> nat option" where
  "low_half s = (if HasPrefix s [CHR 0x5C, CHR ''u''] then hex4 (drop 2 s) else None)"

definition read_unicode :: "string \<Rightarrow> (string \<times> string) option" where
  "read_unicode s = (case hex4 s of
      None \<Rightarrow> None
    | Some a \<Rightarrow> let r = drop 4 s in
        if a < 0xD800 \<or> 0xE000 \<le> a then Some (utf8 a, r)
        else (case low_half r of
            Some b \<Rightarrow> if a < 0xDC00 \<and> 0xDC00 \<le> b \<and> b < 0xE000
              then Some (utf8 (0x10000 + (a - 0xD800) * 0x400 + (b - 0xDC00)), drop 6 r)
              else Some (replacement, r)
          | None \<Rightarrow> Some (replacement, r)))"

text \<open>One character of a string: an escape, or a rune as it stands; a byte that is part of no rune
  stands for U+FFFD, and a control character is refused.\<close>

definition read_rune :: "string \<Rightarrow> (string \<times> string) option" where
  "read_rune s = (case s of
      [] \<Rightarrow> None
    | c # r \<Rightarrow>
        if c = CHR 0x5C then
          (case r of [] \<Rightarrow> None
           | e # t \<Rightarrow> if e = CHR ''u'' then read_unicode t else if e \<in> set escapes then Some (escaped e, t) else None)
        else if of_char c < (32 :: nat) then None
        else (let v = take (rune_len s) s in Some (if valid_rune v then v else replacement, drop (rune_len s) s)))"

definition prepend :: "string \<Rightarrow> (string \<times> string) option \<Rightarrow> (string \<times> string) option" where
  "prepend v x = map_option (\<lambda>(w, r). (v @ w, r)) x"

lemma read_unicode_shorter: "read_unicode s = Some (v, r) \<Longrightarrow> length r \<le> length s"
  by (auto simp: read_unicode_def Let_def split: option.splits if_splits)

lemma read_rune_shorter: "read_rune s = Some (v, r) \<Longrightarrow> length r < length s"
  by (auto simp: read_rune_def Let_def rune_len_def split: list.splits if_splits dest: read_unicode_shorter)

text \<open>The rest of a string, up to its closing quote.\<close>

function read_string :: "string \<Rightarrow> (string \<times> string) option" where
  "read_string s = (if starts (CHR 0x22) s then Some ([], tl s)
     else (case read_rune s of None \<Rightarrow> None | Some (v, r) \<Rightarrow> prepend v (read_string r)))"
  by pat_completeness auto
termination
  by (relation "measure length") (auto dest: read_rune_shorter)

declare read_string.simps [simp del]

text \<open>A number: its whole part, which has no leading zero, a fraction and an exponent. One that is
  an integer's text is that integer, another is kept as its text.\<close>

definition whole_part :: "string \<Rightarrow> (string \<times> string) option" where
  "whole_part s = (if starts (CHR ''0'') s then Some (''0'', tl s)
     else if takeWhile is_digit s = [] then None else Some (takeWhile is_digit s, dropWhile is_digit s))"

definition some_digits :: "string \<Rightarrow> string \<Rightarrow> (string \<times> string) option" where
  "some_digits p s = (if takeWhile is_digit s = [] then None else Some (p @ takeWhile is_digit s, dropWhile is_digit s))"

definition fraction :: "string \<Rightarrow> (string \<times> string) option" where
  "fraction s = (if starts (CHR ''.'') s then some_digits ''.'' (tl s) else Some ([], s))"

definition exponent :: "string \<Rightarrow> (string \<times> string) option" where
  "exponent s =
     (if \<not> (starts (CHR ''e'') s \<or> starts (CHR ''E'') s) then Some ([], s)
      else if starts (CHR ''+'') (tl s) \<or> starts (CHR ''-'') (tl s) then some_digits (take 2 s) (drop 2 s)
      else some_digits (take 1 s) (tl s))"

definition number :: "bool \<Rightarrow> string \<Rightarrow> string \<Rightarrow> string \<Rightarrow> json" where
  "number neg ds fr ex =
     (if fr = [] \<and> ex = [] \<and> \<not> (neg \<and> ds = ''0'') then JInt (if neg then - int (undigits 10 ds) else int (undigits 10 ds))
      else JOther ((if neg then ''-'' else []) @ ds @ fr @ ex))"

definition read_number :: "string \<Rightarrow> (json \<times> string) option" where
  "read_number s = (let neg = starts (CHR ''-'') s in
     case whole_part (if neg then tl s else s) of None \<Rightarrow> None | Some (ds, r) \<Rightarrow>
     (case fraction r of None \<Rightarrow> None | Some (fr, r') \<Rightarrow>
     (case exponent r' of None \<Rightarrow> None | Some (ex, r'') \<Rightarrow> Some (number neg ds fr ex, r''))))"

definition read_word :: "string \<Rightarrow> json \<Rightarrow> string \<Rightarrow> (json \<times> string) option" where
  "read_word w j s = (if HasPrefix s w then Some (j, drop (length w) s) else None)"

text \<open>A value, the elements of an array and the members of an object up to their closing bracket.\<close>

fun read_value :: "nat \<Rightarrow> string \<Rightarrow> (json \<times> string) option"
  and read_elems :: "nat \<Rightarrow> string \<Rightarrow> (json list \<times> string) option"
  and read_members :: "nat \<Rightarrow> string \<Rightarrow> ((string \<times> json) list \<times> string) option" where
  "read_value 0 s = None"
| "read_value (Suc n) s = (case skip s of
      [] \<Rightarrow> None
    | c # r \<Rightarrow>
        if c = CHR 0x22 then map_option (\<lambda>(v, t). (JStr v, t)) (read_string r)
        else if c = CHR ''['' then
          (if starts (CHR '']'') (skip r) then Some (JArr [], tl (skip r))
           else map_option (\<lambda>(vs, t). (JArr vs, t)) (read_elems n r))
        else if c = CHR ''{'' then
          (if starts (CHR ''}'') (skip r) then Some (JObj [], tl (skip r))
           else map_option (\<lambda>(vs, t). (JObj vs, t)) (read_members n r))
        else if c = CHR ''t'' then read_word ''true'' (JBool True) (c # r)
        else if c = CHR ''f'' then read_word ''false'' (JBool False) (c # r)
        else if c = CHR ''n'' then read_word ''null'' JNull (c # r)
        else read_number (c # r))"
| "read_elems 0 s = None"
| "read_elems (Suc n) s = (case read_value n s of
      None \<Rightarrow> None
    | Some (v, r) \<Rightarrow> (case skip r of
          [] \<Rightarrow> None
        | c # t \<Rightarrow> if c = CHR '','' then map_option (\<lambda>(vs, u). (v # vs, u)) (read_elems n t)
            else if c = CHR '']'' then Some ([v], t) else None))"
| "read_members 0 s = None"
| "read_members (Suc n) s = (case skip s of
      [] \<Rightarrow> None
    | q # s1 \<Rightarrow> if q \<noteq> CHR 0x22 then None else (case read_string s1 of
          None \<Rightarrow> None
        | Some (k, s2) \<Rightarrow> (case skip s2 of
              [] \<Rightarrow> None
            | cl # s3 \<Rightarrow> if cl \<noteq> CHR '':'' then None else (case read_value n s3 of
                  None \<Rightarrow> None
                | Some (v, r) \<Rightarrow> (case skip r of
                      [] \<Rightarrow> None
                    | c # t \<Rightarrow> if c = CHR '','' then map_option (\<lambda>(vs, u). ((k, v) # vs, u)) (read_members n t)
                        else if c = CHR ''}'' then Some ([(k, v)], t) else None)))))"

definition json_parse :: "string \<Rightarrow> json option" where
  "json_parse s = (case read_value (Suc (length s)) s of
     Some (j, r) \<Rightarrow> if skip r = [] then Some j else None | None \<Rightarrow> None)"

subsection \<open>The bound of the reader\<close>

text \<open>A reader ends with less than it was given, and what it read with some bound it reads with any
  that is above the length of what it took: the bound decides nothing.\<close>

lemma skip_length: "length (skip s) \<le> length s"
  by (simp add: skip_def length_dropWhile_le)

lemma read_string_shorter: "read_string s = Some (v, r) \<Longrightarrow> length r < length s"
proof (induction s arbitrary: v r rule: read_string.induct)
  case (1 s)
  show ?case
  proof (cases "starts (CHR 0x22) s")
    case True
    then have "r = tl s" "s \<noteq> []" using 1(2) by (simp_all add: read_string.simps [of s] starts_def)
    then show ?thesis by simp
  next
    case False
    then obtain v1 r1 v2 where "read_rune s = Some (v1, r1)" "read_string r1 = Some (v2, r)"
      using 1(2) by (auto simp: read_string.simps [of s] prepend_def split: option.splits)
    then show ?thesis using 1(1) [OF False] read_rune_shorter by fastforce
  qed
qed

lemma read_number_shorter:
  assumes "read_number s = Some (v, r)"
  shows "length r < length s"
proof -
  have drop: "length (dropWhile is_digit t) < length t" if "takeWhile is_digit t \<noteq> []" for t :: string
    using that length_dropWhile_le [of is_digit "tl t"] by (cases t) (auto split: if_splits)
  have whole: "length u < length t" if "whole_part t = Some (d, u)" for t d u
    using that drop [of t] by (cases t) (auto simp: whole_part_def starts_def split: if_splits)
  have digits: "length u \<le> length t" if "some_digits p t = Some (d, u)" for p t d u
    using that drop [of t] by (auto simp: some_digits_def split: if_splits)
  have fraction: "length u \<le> length t" if "fraction t = Some (d, u)" for t d u
    using that digits [of _ "tl t"] by (fastforce simp: fraction_def split: if_splits)
  have exponent: "length u \<le> length t" if "exponent t = Some (d, u)" for t d u
    using that digits [of _ "tl t"] digits [of _ "drop 2 t"] by (fastforce simp: exponent_def split: if_splits)
  let ?t = "if starts (CHR ''-'') s then tl s else s"
  obtain d1 u1 d2 u2 d3 where parts: "whole_part ?t = Some (d1, u1)" "fraction u1 = Some (d2, u2)" "exponent u2 = Some (d3, r)"
    using assms by (auto simp: read_number_def Let_def split: option.splits)
  have "length ?t \<le> length s" by simp
  then show ?thesis using whole [OF parts(1)] fraction [OF parts(2)] exponent [OF parts(3)] by linarith
qed

definition settled :: "(nat \<Rightarrow> string \<Rightarrow> ('a \<times> string) option) \<Rightarrow> string \<Rightarrow> 'a \<times> string \<Rightarrow> bool" where
  "settled f s p = (length (snd p) < length s \<and> (\<forall>m. length s < m + length (snd p) \<longrightarrow> f m s = Some p))"

lemma settledI:
  assumes "length r < length s" and "\<And>m. length s < Suc m + length r \<Longrightarrow> f (Suc m) s = Some (v, r)"
  shows "settled f s (v, r)"
  unfolding settled_def
proof (intro conjI allI impI)
  fix m assume "length s < m + length (snd (v, r))"
  then obtain m' where "m = Suc m'" using assms(1) by (cases m) auto
  then show "f m s = Some (v, r)" using assms(2) [of m'] \<open>length s < m + length (snd (v, r))\<close> by simp
qed (use assms(1) in simp)

lemma settledD: "settled f s (v, r) \<Longrightarrow> length s < m + length r \<Longrightarrow> f m s = Some (v, r)"
  and settled_shorter: "settled f s (v, r) \<Longrightarrow> length r < length s"
  by (simp_all add: settled_def)

lemma settled_elems:
  assumes "\<And>v r. read_value n s = Some (v, r) \<Longrightarrow> settled read_value s (v, r)"
    and "\<And>t v r. read_elems n t = Some (v, r) \<Longrightarrow> settled read_elems t (v, r)"
    and "read_elems (Suc n) s = Some (vs, r)"
  shows "settled read_elems s (vs, r)"
proof -
  obtain v s1 c t where v: "read_value n s = Some (v, s1)" and c: "skip s1 = c # t"
    using assms(3) by (auto split: option.splits list.splits)
  note sv = assms(1) [OF v]
  have len: "length t < length s1" using skip_length [of s1] c by simp
  consider (more) ws where "c = CHR '',''" "read_elems n t = Some (ws, r)" "vs = v # ws" | (last) "c = CHR '']''" "vs = [v]" "r = t"
    using assms(3) v c by (auto split: if_splits)
  then show ?thesis
  proof cases
    case more
    note se = assms(2) [OF more(2)]
    show ?thesis
      using settled_shorter [OF sv] settled_shorter [OF se] len c more
      by (intro settledI) (auto simp: settledD [OF sv] settledD [OF se])
  next
    case last
    then show ?thesis
      using settled_shorter [OF sv] len c by (intro settledI) (auto simp: settledD [OF sv])
  qed
qed

lemma settled_members:
  assumes "\<And>t v r. read_value n t = Some (v, r) \<Longrightarrow> settled read_value t (v, r)"
    and "\<And>t v r. read_members n t = Some (v, r) \<Longrightarrow> settled read_members t (v, r)"
    and "read_members (Suc n) s = Some (vs, r)"
  shows "settled read_members s (vs, r)"
proof -
  obtain s1 k s2 s3 v s4 c t where s1: "skip s = CHR 0x22 # s1" and k: "read_string s1 = Some (k, s2)"
    and s3: "skip s2 = CHR '':'' # s3" and v: "read_value n s3 = Some (v, s4)" and c: "skip s4 = c # t"
    using assms(3) by (auto split: option.splits list.splits if_splits)
  note sv = assms(1) [OF v]
  have len: "length s1 < length s" "length s2 < length s1" "length s3 < length s2" "length t < length s4"
    using skip_length [of s] skip_length [of s2] skip_length [of s4] s1 s3 c read_string_shorter [OF k] by auto
  consider (more) ws where "c = CHR '',''" "read_members n t = Some (ws, r)" "vs = (k, v) # ws"
    | (last) "c = CHR ''}''" "vs = [(k, v)]" "r = t"
    using assms(3) s1 k s3 v c by (auto split: if_splits)
  then show ?thesis
  proof cases
    case more
    note se = assms(2) [OF more(2)]
    show ?thesis
      using settled_shorter [OF sv] settled_shorter [OF se] len s1 k s3 c more
      by (intro settledI) (auto simp: settledD [OF sv] settledD [OF se])
  next
    case last
    then show ?thesis
      using settled_shorter [OF sv] len s1 k s3 c by (intro settledI) (auto simp: settledD [OF sv])
  qed
qed

lemma read_word_shorter: "w \<noteq> [] \<Longrightarrow> read_word w j s = Some (v, r) \<Longrightarrow> length r < length s"
  by (cases s) (auto simp: read_word_def HasPrefix_def split: if_splits)

lemma settled_value:
  assumes "\<And>t v r. read_elems n t = Some (v, r) \<Longrightarrow> settled read_elems t (v, r)"
    and "\<And>t v r. read_members n t = Some (v, r) \<Longrightarrow> settled read_members t (v, r)"
    and "read_value (Suc n) s = Some (v, r)"
  shows "settled read_value s (v, r)"
proof -
  obtain c t where c: "skip s = c # t" using assms(3) by (auto split: list.splits)
  have len: "length t < length s" using skip_length [of s] c by simp
  consider (elems) vs where "c = CHR ''[''" "\<not> starts (CHR '']'') (skip t)" "read_elems n t = Some (vs, r)" "v = JArr vs"
    | (members) vs where "c = CHR ''{''" "\<not> starts (CHR ''}'') (skip t)" "read_members n t = Some (vs, r)" "v = JObj vs"
    | (leaf) "c = CHR ''['' \<Longrightarrow> starts (CHR '']'') (skip t)" "c = CHR ''{'' \<Longrightarrow> starts (CHR ''}'') (skip t)"
    using assms(3) c by (cases "c = CHR ''[''"; cases "c = CHR ''{''") (auto split: if_splits)
  then show ?thesis
  proof cases
    case elems
    note se = assms(1) [OF elems(3)]
    show ?thesis
      using settled_shorter [OF se] len c elems by (intro settledI) (auto simp: settledD [OF se])
  next
    case members
    note se = assms(2) [OF members(3)]
    show ?thesis
      using settled_shorter [OF se] len c members by (intro settledI) (auto simp: settledD [OF se])
  next
    case leaf
    have "read_value (Suc m) s = read_value (Suc n) s" for m using leaf c by simp
    moreover have "length r < length s"
      using assms(3) c leaf len skip_length [of t] read_string_shorter [of t _ r] read_number_shorter [of "c # t" v r]
        read_word_shorter [of "''true''" "JBool True" "c # t" v r] read_word_shorter [of "''false''" "JBool False" "c # t" v r]
        read_word_shorter [of "''null''" JNull "c # t" v r]
      by (auto split: if_splits)
    ultimately show ?thesis using assms(3) by (intro settledI) auto
  qed
qed

theorem bound_decides_nothing:
  "read_value n s = Some (v, r) \<Longrightarrow> settled read_value s (v, r)"
  "read_elems n s = Some (vs, r) \<Longrightarrow> settled read_elems s (vs, r)"
  "read_members n s = Some (ms, r) \<Longrightarrow> settled read_members s (ms, r)"
proof (induction n arbitrary: s v vs ms r)
  case (Suc n)
  { case 1 show ?case by (rule settled_value [OF Suc.IH(2,3) 1]) }
  { case 2 show ?case by (rule settled_elems [OF Suc.IH(1,2) 2]) }
  { case 3 show ?case by (rule settled_members [OF Suc.IH(1,3) 3]) }
qed simp_all

lemma json_parse_any_bound:
  assumes "read_value n s = Some (v, r)" and "skip r = []"
  shows "json_parse s = Some v"
  using settledD [OF bound_decides_nothing(1) [OF assms(1)], of "Suc (length s)"] assms(2) by (simp add: json_parse_def)

subsection \<open>A string is read back\<close>

lemma rune_len_pos: "0 < rune_len s"
  by (simp add: rune_len_def)

lemma runes_concat [simp]: "concat (runes s) = s"
  by (induction s rule: runes.induct) simp_all

lemma valid_rune_single: "valid_rune [c] \<longleftrightarrow> byte_in 0 0x7F c"
  by (simp add: valid_rune_def utf8_len_def first_len_def cont_ok_def)

lemma valid_rune_high:
  assumes "valid_rune r" and "length r \<noteq> 1"
  shows "\<forall>c \<in> set r. 0x80 \<le> (of_char c :: nat)"
proof -
  obtain c cs where r: "r = c # cs" using assms(1) by (cases r) (auto simp: valid_rune_def)
  have len: "utf8_len (c # cs) = Suc (length cs)" using assms(1) r by (simp add: valid_rune_def)
  then have first: "first_len c = Suc (length cs)" and ok: "cont_ok c cs"
    by (auto simp: utf8_len_def Let_def split: if_splits)
  have "0x80 \<le> (of_char c :: nat)" using first assms(2) r by (auto simp: first_len_def byte_in_def split: if_splits)
  moreover have "0x80 \<le> (of_char d :: nat)" if "second_byte x d" for x d
    using that by (auto simp: second_byte_def byte_in_def split: if_splits)
  ultimately show ?thesis using ok r by (auto simp: cont_ok_def list_all_iff byte_in_def split: list.splits)
qed

lemma utf8_len_append: "utf8_len s \<noteq> 0 \<Longrightarrow> utf8_len (s @ t) = utf8_len s"
  by (cases s) (auto simp: utf8_len_def Let_def split: if_splits)

lemma prepend_append [simp]: "prepend a (prepend b x) = prepend (a @ b) x"
  by (cases x) (auto simp: prepend_def)

lemma prepend_Some [simp]: "prepend a (Some (v, r)) = Some (a @ v, r)"
  by (simp add: prepend_def)

lemma prepend_Nil [simp]: "prepend [] x = x"
  by (cases x) (auto simp: prepend_def)

lemma read_string_quote [simp]: "read_string (CHR 0x22 # t) = Some ([], t)"
  by (simp add: read_string.simps starts_def)

lemma read_string_step: "hd s \<noteq> CHR 0x22 \<Longrightarrow> read_rune s = Some (v, r) \<Longrightarrow> read_string s = prepend v (read_string r)"
  by (simp add: read_string.simps [of s] starts_def)

lemma rune_len_valid: "valid_rune r \<Longrightarrow> rune_len (r @ t) = length r"
  using utf8_len_append [of r t] by (cases r) (simp_all add: valid_rune_def rune_len_def)

lemma read_string_copy:
  assumes "valid_rune r" and "hd r \<noteq> CHR 0x22" and "hd r \<noteq> CHR 0x5C" and "\<not> of_char (hd r) < (32 :: nat)"
  shows "read_string (r @ t) = prepend r (read_string t)"
proof -
  obtain c cs where r: "r = c # cs" using assms(1) by (cases r) (auto simp: valid_rune_def)
  have "read_rune (r @ t) = Some (r, t)"
    using assms rune_len_valid [OF assms(1), of t] by (simp add: read_rune_def r Let_def)
  then show ?thesis using read_string_step [of "r @ t" r t] assms(2) r by simp
qed

lemma read_string_escape:
  assumes "e \<in> set escapes"
  shows "read_string (CHR 0x5C # e # t) = prepend (escaped e) (read_string t)"
proof (rule read_string_step)
  have "e \<noteq> CHR ''u''" using assms by (auto simp: escapes_def)
  then show "read_rune (CHR 0x5C # e # t) = Some (escaped e, t)" using assms by (simp add: read_rune_def)
qed simp

lemma lower_hexdigits: "list_all is_hexdigit ds \<Longrightarrow> map lower_char ds = ds"
  by (induction ds) (auto simp: lower_char_def is_hexdigit_def is_digit_def byte_in_def)

lemma read_string_unicode:
  assumes "length ds = 4" and "list_all is_hexdigit ds" and "undigits 16 ds < 0xD800 \<or> 0xE000 \<le> undigits 16 ds"
  shows "read_string (CHR 0x5C # CHR ''u'' # ds @ t) = prepend (utf8 (undigits 16 ds)) (read_string t)"
proof (rule read_string_step)
  have "hex4 (ds @ t) = Some (undigits 16 ds)" using assms(1,2) lower_hexdigits [OF assms(2)] by (simp add: hex4_def)
  then have "read_unicode (ds @ t) = Some (utf8 (undigits 16 ds), t)"
    using assms(1,3) by (auto simp: read_unicode_def Let_def)
  then show "read_rune (CHR 0x5C # CHR ''u'' # ds @ t) = Some (utf8 (undigits 16 ds), t)" by (simp add: read_rune_def)
qed simp

lemma is_hexdigit_digit: "d < 16 \<Longrightarrow> is_hexdigit (digit d)"
  by (auto simp: digit_def is_hexdigit_def is_digit_def of_char_of)

lemma read_hex_pair:
  assumes "n < 128"
  shows "read_string ([CHR 0x5C] @ ''u00'' @ [digit (n div 16), digit (n mod 16)] @ t) = prepend [char_of n] (read_string t)"
proof -
  let ?ds = "[CHR ''0'', CHR ''0'', digit (n div 16), digit (n mod 16)]"
  have "digit_val CHR ''0'' = 0" "is_hexdigit CHR ''0''" by (simp_all add: digit_val_def is_hexdigit_def is_digit_def)
  moreover have "digit_val (digit (n div 16)) = n div 16" "digit_val (digit (n mod 16)) = n mod 16"
    using assms by (auto intro!: digit_val_digit)
  moreover have "is_hexdigit (digit (n div 16))" "is_hexdigit (digit (n mod 16))"
    using assms by (auto intro!: is_hexdigit_digit)
  ultimately have ds: "undigits 16 ?ds = n" "list_all is_hexdigit ?ds" by (simp_all add: undigits_def)
  have "utf8 n = [char_of n]" using assms by (simp only: utf8_def if_True)
  then show ?thesis using read_string_unicode [of ?ds t] ds assms by simp
qed

lemma char_eq_nat: "c = d \<longleftrightarrow> (of_char c :: nat) = of_char d"
  by simp

lemma read_json_char:
  assumes "byte_in 0 0x7F c"
  shows "read_string (json_char c @ t) = prepend [c] (read_string t)"
proof -
  let ?n = "of_char c :: nat"
  have esc: "read_string (CHR 0x5C # e # t) = prepend (escaped e) (read_string t)"
    if "e \<in> {CHR 0x22, CHR 0x5C, CHR ''b'', CHR ''f'', CHR ''n'', CHR ''r'', CHR ''t''}" for e
    using that by (intro read_string_escape) (auto simp: escapes_def)
  have named: "c = CHR 0x08 \<longleftrightarrow> ?n = 8" "c = CHR 0x0C \<longleftrightarrow> ?n = 12" "c = CHR 0x0A \<longleftrightarrow> ?n = 10"
    "c = CHR 0x0D \<longleftrightarrow> ?n = 13" "c = CHR 0x09 \<longleftrightarrow> ?n = 9"
    by (subst char_eq_nat, simp)+
  have "?n < 128" using assms by (simp add: byte_in_def)
  then have hex: "read_string ([CHR 0x5C] @ ''u00'' @ [digit (?n div 16), digit (?n mod 16)] @ t) = prepend [c] (read_string t)"
    using read_hex_pair [of ?n t] by simp
  have copy: "read_string ([c] @ t) = prepend [c] (read_string t)"
    if "c \<noteq> CHR 0x22" and "c \<noteq> CHR 0x5C" and "\<not> ?n < 32"
    using read_string_copy [of "[c]" t] that assms by (simp add: valid_rune_single)
  show ?thesis
    unfolding json_char_def Let_def named [symmetric]
    using esc hex copy by (simp add: escaped_def)
qed

lemma read_json_rune:
  "read_string (json_rune r @ t) = prepend (if valid_rune r then r else replacement) (read_string t)"
proof -
  have points: "utf8 (undigits 16 ''fffd'') = replacement" "utf8 (undigits 16 ''2028'') = [CHR 0xE2, CHR 0x80, CHR 0xA8]"
    "utf8 (undigits 16 ''2029'') = [CHR 0xE2, CHR 0x80, CHR 0xA9]"
    by (simp_all add: undigits_def digit_val_def utf8_def replacement_def char_of_def bit_0)
  have escapes: "read_string ([CHR 0x5C] @ ''ufffd'' @ t) = prepend replacement (read_string t)"
    "read_string ([CHR 0x5C] @ ''u2028'' @ t) = prepend [CHR 0xE2, CHR 0x80, CHR 0xA8] (read_string t)"
    "read_string ([CHR 0x5C] @ ''u2029'' @ t) = prepend [CHR 0xE2, CHR 0x80, CHR 0xA9] (read_string t)"
    unfolding points [symmetric]
    by (simp_all add: read_string_unicode [of "''fffd''" t, simplified] read_string_unicode [of "''2028''" t, simplified]
        read_string_unicode [of "''2029''" t, simplified] is_hexdigit_def is_digit_def undigits_def digit_val_def)
  consider "\<not> valid_rune r" | "valid_rune r" "r = [CHR 0xE2, CHR 0x80, CHR 0xA8]" | "valid_rune r" "r = [CHR 0xE2, CHR 0x80, CHR 0xA9]"
    | "valid_rune r" "length r = 1" | "valid_rune r" "length r \<noteq> 1" "r \<noteq> [CHR 0xE2, CHR 0x80, CHR 0xA8]" "r \<noteq> [CHR 0xE2, CHR 0x80, CHR 0xA9]"
    by blast
  then show ?thesis
  proof cases
    case 4
    then obtain c where c: "r = [c]" by (auto simp: length_Suc_conv)
    then have "byte_in 0 0x7F c" using 4 by (simp add: valid_rune_single)
    then show ?thesis using read_json_char [of c t] 4 c by (simp add: json_rune_def)
  next
    case 5
    have high: "0x80 \<le> (of_char c :: nat)" if "c \<in> set r" for c using valid_rune_high [OF 5(1,2)] that by blast
    have "hd r \<in> set r" using 5(1) by (cases r) (auto simp: valid_rune_def)
    then have "0x80 \<le> (of_char (hd r) :: nat)" by (rule high)
    then have "hd r \<noteq> CHR 0x22" "hd r \<noteq> CHR 0x5C" "\<not> of_char (hd r) < (32 :: nat)" by auto
    then show ?thesis using read_string_copy [of r t] 5 by (simp add: json_rune_def)
  qed (use escapes in \<open>simp_all add: json_rune_def\<close>)
qed

lemma read_json_string: "read_string (concat (map json_rune rs) @ CHR 0x22 # t)
   = Some (concat (map (\<lambda>r. if valid_rune r then r else replacement) rs), t)"
  by (induction rs) (simp_all add: read_json_rune)

lemma read_string_back: "read_string (tl (json_string s) @ t) = Some (to_valid s, t)"
  using read_json_string [of "runes s" t] by (simp add: json_string_def to_valid_def)

lemma to_valid_valid: "valid_utf8 s \<Longrightarrow> to_valid s = s"
proof -
  assume "valid_utf8 s"
  then have "map (\<lambda>r. if valid_rune r then r else replacement) (runes s) = runes s"
    by (intro map_idI) (simp add: valid_utf8_def list_all_iff)
  then show ?thesis by (simp add: to_valid_def)
qed

text \<open>Only a string that is valid UTF-8 survives: each byte that is part of none becomes three.\<close>

lemma runes_length:
  "r \<in> set (runes s) \<Longrightarrow> \<not> valid_rune r \<Longrightarrow> length r = 1"
proof (induction s rule: runes.induct)
  case (2 c cs)
  let ?s = "c # cs"
  show ?case
  proof (cases "r \<in> set (runes (drop (rune_len ?s) ?s))")
    case False
    then have r: "r = take (rune_len ?s) ?s" using 2(2) by simp
    have "utf8_len ?s = 0"
    proof (rule ccontr)
      assume u: "utf8_len ?s \<noteq> 0"
      then have len: "rune_len ?s = utf8_len ?s" by (simp add: rune_len_def)
      have f: "utf8_len ?s = first_len c" "first_len c \<le> Suc (length cs)" "cont_ok c (take (first_len c - 1) cs)" "first_len c \<noteq> 0"
        using u by (auto simp: utf8_len_def Let_def split: if_splits)
      then have "r = c # take (first_len c - 1) cs" using r len by (cases "first_len c") simp_all
      then have "utf8_len r = length r" "r \<noteq> []" using f by (auto simp: utf8_len_def Let_def)
      then show False using 2(3) by (simp add: valid_rune_def)
    qed
    then show ?thesis using r by (simp add: rune_len_def)
  qed (use 2 in blast)
qed simp

lemma to_valid_iff: "to_valid s = s \<longleftrightarrow> valid_utf8 s"
proof
  let ?f = "\<lambda>r. if valid_rune r then r else replacement"
  assume "to_valid s = s"
  then have "length (concat (map ?f (runes s))) = length (concat (runes s))" by (simp add: to_valid_def)
  then have eq: "(\<Sum>r\<leftarrow>runes s. length (?f r)) = (\<Sum>r\<leftarrow>runes s. length r)" by (simp del: runes_concat add: length_concat comp_def)
  have le: "length r \<le> length (?f r)" if "r \<in> set (runes s)" for r using runes_length [OF that] by (auto simp: replacement_def)
  have same: "length (?f r) = length r" if r: "r \<in> set (runes s)" for r
  proof (rule ccontr)
    assume ne: "length (?f r) \<noteq> length r"
    have "(\<Sum>r\<leftarrow>runes s. length r) < (\<Sum>r\<leftarrow>runes s. length (?f r))"
    proof -
      obtain a b where ab: "runes s = a @ r # b" using split_list [OF r] by blast
      have "(\<Sum>r\<leftarrow>a. length r) \<le> (\<Sum>r\<leftarrow>a. length (?f r))" "(\<Sum>r\<leftarrow>b. length r) \<le> (\<Sum>r\<leftarrow>b. length (?f r))"
        using le by (auto simp: ab intro!: sum_list_mono)
      moreover have "length r < length (?f r)" using le [OF r] ne by simp
      ultimately show ?thesis by (simp add: ab)
    qed
    with eq show False by simp
  qed
  have "valid_rune r" if "r \<in> set (runes s)" for r
    using runes_length [OF that] same [OF that] by (cases "valid_rune r") (simp_all add: replacement_def)
  then show "valid_utf8 s" by (simp add: valid_utf8_def list_all_iff)
qed (rule to_valid_valid)

abbreviation ascii :: "string \<Rightarrow> bool" where
  "ascii \<equiv> list_all (byte_in 0 0x7F)"

lemma ascii_numbers [simp]: "ascii (dec n)" "ascii (decz i)" "ascii (hex n)"
proof -
  show "ascii (hex n)" using hex_digits [of _ n] by (auto simp: list_all_iff byte_in_def is_hexdigit_def is_digit_def dest!: hex_digits)
  show "ascii (dec n)" for n using dec_digits [of _ n] by (fastforce simp: list_all_iff byte_in_def is_digit_def)
  then show "ascii (decz i)" by (simp add: decz_def byte_in_def)
qed

lemma runes_ascii: "list_all (byte_in 0 0x7F) s \<Longrightarrow> runes s = map (\<lambda>c. [c]) s"
  by (induction s) (simp_all add: rune_len_def utf8_len_def first_len_def cont_ok_def)

lemma ascii_valid: "list_all (byte_in 0 0x7F) s \<Longrightarrow> valid_utf8 s"
  by (simp add: valid_utf8_def runes_ascii list_all_iff valid_rune_single)

lemma utf8_len_le: "utf8_len s \<le> length s"
  by (cases s) (simp_all add: utf8_len_def Let_def)

lemma utf8_len_take:
  assumes "valid_rune (take (rune_len s) s)"
  shows "utf8_len s = rune_len s"
proof (cases "utf8_len s = 0")
  case True
  then have "rune_len s = 1" by (simp add: rune_len_def)
  then obtain c r where s: "s = c # r" and "valid_rune [c]" using assms by (cases s) (auto simp: valid_rune_def)
  then have "byte_in 0 0x7F c" by (simp only: valid_rune_single)
  then show ?thesis using True s by (simp add: utf8_len_def first_len_def cont_ok_def)
next
  case False
  then show ?thesis by (simp add: rune_len_def)
qed

lemma runes_append: "valid_utf8 s \<Longrightarrow> runes (s @ t) = runes s @ runes t"
proof (induction s rule: runes.induct)
  case 1
  then show ?case by simp
next
  case (2 c cs)
  let ?s = "c # cs"
  have v: "valid_rune (take (rune_len ?s) ?s)" "valid_utf8 (drop (rune_len ?s) ?s)" using 2(2) by (simp_all add: valid_utf8_def)
  have len: "utf8_len ?s = rune_len ?s" by (rule utf8_len_take [OF v(1)])
  then have "utf8_len ?s \<noteq> 0" using rune_len_pos [of ?s] by simp
  then have "utf8_len (?s @ t) = utf8_len ?s" by (rule utf8_len_append)
  then have same: "rune_len (?s @ t) = rune_len ?s" by (simp add: rune_len_def)
  have le: "rune_len ?s \<le> length ?s" using len utf8_len_le [of ?s] by simp
  have "runes (?s @ t) = take (rune_len (?s @ t)) (?s @ t) # runes (drop (rune_len (?s @ t)) (?s @ t))"
    by (simp only: append_Cons runes.simps(2))
  also have "\<dots> = take (rune_len ?s) ?s # runes (drop (rune_len ?s) ?s @ t)"
    unfolding same take_append drop_append using le by simp
  finally show ?case using 2(1) [OF v(2)] by (simp only: runes.simps(2) append_Cons)
qed

lemma valid_utf8_append: "valid_utf8 s \<Longrightarrow> valid_utf8 t \<Longrightarrow> valid_utf8 (s @ t)"
  by (simp add: valid_utf8_def runes_append [unfolded valid_utf8_def])

subsection \<open>A value is read back\<close>

text \<open>A value as its strings survive the writing.\<close>

fun valid_json :: "json \<Rightarrow> json" where
  "valid_json (JStr s) = JStr (to_valid s)"
| "valid_json (JArr vs) = JArr (map valid_json vs)"
| "valid_json (JObj kvs) = JObj (map (\<lambda>(k, v). (to_valid k, valid_json v)) kvs)"
| "valid_json j = j"

fun no_other :: "json \<Rightarrow> bool" where
  "no_other (JOther _) = False"
| "no_other (JArr vs) = list_all no_other vs"
| "no_other (JObj kvs) = list_all (\<lambda>(k, v). no_other v) kvs"
| "no_other _ = True"

definition spaces :: "string \<Rightarrow> bool" where
  "spaces w = list_all json_space w"

text \<open>The text \<open>t\<close> is read as \<open>v\<close> with any bound above its length, whatever follows that is no part of a
  number.\<close>

definition number_char :: "char \<Rightarrow> bool" where
  "number_char c = (is_digit c \<or> c \<in> {CHR ''.'', CHR ''e'', CHR ''E''})"

definition reads :: "string \<Rightarrow> json \<Rightarrow> bool" where
  "reads t v = (t \<noteq> [] \<and> \<not> json_space (hd t) \<and> hd t \<notin> {CHR '']'', CHR ''}''} \<and>
     (\<forall>n r. length t < n \<longrightarrow> (r = [] \<or> \<not> number_char (hd r)) \<longrightarrow> read_value n (t @ r) = Some (v, r)))"

lemma skip_spaces [simp]: "spaces w \<Longrightarrow> skip (w @ s) = skip s"
  by (induction w) (simp_all add: spaces_def skip_def)

lemma skip_stop [simp]: "s \<noteq> [] \<Longrightarrow> \<not> json_space (hd s) \<Longrightarrow> skip s = s"
  by (cases s) (simp_all add: skip_def)

lemma skip_Cons [simp]: "\<not> json_space c \<Longrightarrow> skip (c # s) = c # s"
  by (simp add: skip_def)

lemma line_at_spaces [simp]: "spaces (line_at d)"
  by (auto simp: line_at_def spaces_def json_space_def list_all_iff)

lemma read_value_space: "spaces w \<Longrightarrow> read_value n (w @ s) = read_value n s"
  by (cases n) simp_all

lemma read_elems_space: "spaces w \<Longrightarrow> read_elems n (w @ s) = read_elems n s"
  by (cases n) (simp_all add: read_value_space)

lemma read_members_space: "spaces w \<Longrightarrow> read_members n (w @ s) = read_members n s"
  by (cases n) simp_all

lemma not_space [simp]: "\<not> json_space CHR '',''" "\<not> json_space CHR '']''" "\<not> json_space CHR ''}''" "\<not> json_space CHR '':''"
    "\<not> json_space CHR ''[''" "\<not> json_space CHR ''{''" "\<not> json_space CHR 0x22"
  and not_digit [simp]: "\<not> number_char CHR '',''" "\<not> number_char CHR '']''" "\<not> number_char CHR ''}''"
  by (simp_all add: json_space_def number_char_def is_digit_def)

lemma space_no_digit: "spaces w \<Longrightarrow> \<not> number_char c \<Longrightarrow> \<not> number_char (hd (w @ c # r))"
  by (cases w) (auto simp: spaces_def json_space_def number_char_def is_digit_def)

lemma reads_value: "reads t v \<Longrightarrow> length t < n \<Longrightarrow> spaces w \<Longrightarrow> \<not> number_char c \<Longrightarrow> read_value n (t @ w @ c # r) = Some (v, w @ c # r)"
  using space_no_digit [of w c r] by (simp add: reads_def)

lemma read_elems_texts:
  assumes "ps \<noteq> []" and "\<forall>p \<in> set ps. reads (fst p) (snd p)" and "spaces w" and "spaces w'"
    and "Suc (length (Join (map fst ps) ('','' @ w))) < n"
  shows "read_elems n (Join (map fst ps) ('','' @ w) @ w' @ CHR '']'' # r) = Some (map snd ps, r)"
  using assms(1,2,5)
proof (induction ps arbitrary: n rule: list_nonempty_induct)
  case (single p)
  then obtain m where n: "n = Suc m" by (cases n) auto
  have "read_value m (fst p @ w' @ CHR '']'' # r) = Some (snd p, w' @ CHR '']'' # r)"
    using single n assms(4) by (intro reads_value) auto
  then show ?case using assms(4) n by simp
next
  case (cons p ps)
  then obtain m q qs where n: "n = Suc m" and ps: "ps = q # qs" by (cases n; cases ps) auto
  let ?rest = "Join (map fst ps) ('','' @ w) @ w' @ CHR '']'' # r"
  have "read_value m (fst p @ [] @ CHR '','' # w @ ?rest) = Some (snd p, [] @ CHR '','' # w @ ?rest)"
    using cons n ps by (intro reads_value) (auto simp: spaces_def)
  moreover have "read_elems m (w @ ?rest) = Some (map snd ps, r)"
    unfolding read_elems_space [OF assms(3)] using cons n ps by (intro cons.IH) auto
  ultimately show ?case using n ps by simp
qed

text \<open>A member: its key, its text and its value.\<close>

definition member_text :: "string \<Rightarrow> string \<times> string \<times> json \<Rightarrow> string" where
  "member_text z m = json_string (fst m) @ CHR '':'' # z @ fst (snd m)"

lemma read_member:
  assumes "reads t v" and "length t < n" and "spaces z" and "spaces w" and "\<not> number_char c" and "\<not> json_space c"
  shows "read_members (Suc n) (member_text z (k, t, v) @ w @ c # r) =
    (if c = CHR '','' then map_option (\<lambda>(vs, u). ((to_valid k, v) # vs, u)) (read_members n r)
     else if c = CHR ''}'' then Some ([(to_valid k, v)], r) else None)"
proof -
  obtain q where q: "json_string k = CHR 0x22 # q" "tl (json_string k) = q" by (simp add: json_string_def)
  have "read_string (q @ CHR '':'' # z @ t @ w @ c # r) = Some (to_valid k, CHR '':'' # z @ t @ w @ c # r)"
    using read_string_back [of k] q(2) by simp
  moreover have "read_value n (z @ t @ w @ c # r) = Some (v, w @ c # r)"
    unfolding read_value_space [OF assms(3)] by (rule reads_value [OF assms(1,2,4,5)])
  ultimately show ?thesis using assms(4,6) by (simp add: member_text_def q(1))
qed

lemma read_members_texts:
  assumes "ms \<noteq> []" and "\<forall>m \<in> set ms. reads (fst (snd m)) (snd (snd m))" and "spaces z" and "spaces w" and "spaces w'"
    and "Suc (length (Join (map (member_text z) ms) ('','' @ w))) < n"
  shows "read_members n (Join (map (member_text z) ms) ('','' @ w) @ w' @ CHR ''}'' # r)
    = Some (map (\<lambda>m. (to_valid (fst m), snd (snd m))) ms, r)"
  using assms(1,2,6)
proof (induction ms arbitrary: n rule: list_nonempty_induct)
  case (single m)
  then obtain n' where n: "n = Suc n'" by (cases n) auto
  have "length (fst (snd m)) < n'" using single n by (simp add: member_text_def)
  then show ?case using read_member [of "fst (snd m)" "snd (snd m)" n' z w' "CHR ''}''" "fst m" r] single n assms(3,5) by simp
next
  case (cons m ms)
  then obtain n' q qs where n: "n = Suc n'" and ms: "ms = q # qs" by (cases n; cases ms) auto
  let ?rest = "Join (map (member_text z) ms) ('','' @ w) @ w' @ CHR ''}'' # r"
  have "length (fst (snd m)) < n'" using cons n ms by (simp add: member_text_def)
  moreover have "read_members n' (w @ ?rest) = Some (map (\<lambda>m. (to_valid (fst m), snd (snd m))) ms, r)"
    unfolding read_members_space [OF assms(4)] using cons n ms by (intro cons.IH) auto
  ultimately show ?case
    using read_member [of "fst (snd m)" "snd (snd m)" n' z "[]" "CHR '',''" "fst m" "w @ ?rest"] cons n ms assms(3)
    by (simp add: spaces_def)
qed

lemma readsI:
  assumes "t = c # s" and "\<not> json_space c" and "c \<noteq> CHR '']''" and "c \<noteq> CHR ''}''"
    and "\<And>n r. length s < n \<Longrightarrow> r = [] \<or> \<not> number_char (hd r) \<Longrightarrow> read_value (Suc n) (c # s @ r) = Some (v, r)"
  shows "reads t v"
  unfolding reads_def
proof (intro conjI allI impI)
  fix n r assume "length t < n" and r: "r = [] \<or> \<not> number_char (hd r)"
  then obtain m where "n = Suc m" "length s < m" using assms(1) by (cases n) auto
  then show "read_value n (t @ r) = Some (v, r)" using assms(1,5) r by simp
qed (use assms in auto)

lemma reads_JStr: "reads (json_string s) (JStr (to_valid s))"
proof (rule readsI)
  show "json_string s = CHR 0x22 # tl (json_string s)" by (simp add: json_string_def)
  show "read_value (Suc n) (CHR 0x22 # tl (json_string s) @ r) = Some (JStr (to_valid s), r)" for n r
    by (simp add: read_string_back del: append_Cons)
qed simp_all

lemma reads_words: "reads ''true'' (JBool True)" "reads ''false'' (JBool False)" "reads ''null'' JNull"
  by (rule readsI, rule refl, simp_all add: json_space_def read_word_def HasPrefix_def)+

lemma dec_leading: "hd (dec n) = CHR ''0'' \<Longrightarrow> dec n = ''0''"
proof (induction n rule: less_induct)
  case (less n)
  have digit0: "digit d = CHR ''0'' \<longleftrightarrow> d = 0" if "d < 10" for d
    using that digit_val_digit [of d] digit_val_digit [of 0] by (auto simp: digit_val_def digit_def char_of_def bit_0)
  have dec0: "dec 0 = ''0''" by (simp add: dec_def base.simps digit_def char_of_def bit_0)
  show ?case
  proof (cases "n < 10")
    case True
    then have "n = 0" using less(2) digit0 by (simp add: dec_def base.simps [of 10 n])
    then show ?thesis using dec0 by simp
  next
    case False
    then have n: "dec n = dec (n div 10) @ [digit (n mod 10)]" by (simp add: dec_def base.simps [of 10 n])
    then have "dec (n div 10) = dec 0" using less False dec0 by simp
    then show ?thesis using False by simp
  qed
qed

lemma whole_part_dec:
  assumes "r = [] \<or> \<not> number_char (hd r)"
  shows "whole_part (dec n @ r) = Some (dec n, r)"
proof -
  have r: "r = [] \<or> \<not> is_digit (hd r)" using assms by (auto simp: number_char_def)
  have ds: "takeWhile is_digit (dec n @ r) = dec n" "dropWhile is_digit (dec n @ r) = r"
    using r dec_digits [of _ n] by (cases r; simp add: takeWhile_append dropWhile_append)+
  show ?thesis using dec_leading [of n] ds by (auto simp: whole_part_def starts_def)
qed

lemma read_number_back:
  assumes "r = [] \<or> \<not> number_char (hd r)"
  shows "read_number (decz i @ r) = Some (JInt i, r)"
proof -
  have sign: "\<not> starts (CHR ''-'') (dec n @ r)" for n
    using dec_digits [of "hd (dec n)" n] by (cases "dec n") (auto simp: is_digit_def starts_def)
  have rest: "fraction r = Some ([], r)" "exponent r = Some ([], r)"
    using assms by (auto simp: fraction_def exponent_def starts_def number_char_def)
  have pos: "dec n \<noteq> ''0''" if "0 < n" for n
    using that undigits_base [of 10 n] by (auto simp: dec_def undigits_def digit_val_def)
  show ?thesis
  proof (cases "i < 0")
    case True
    then have "decz i @ r = CHR ''-'' # dec (nat (- i)) @ r" by (simp add: decz_def)
    moreover have "undigits 10 (dec (nat (- i))) = nat (- i)" by (simp add: dec_def undigits_base)
    ultimately show ?thesis
      using True pos [of "nat (- i)"] rest whole_part_dec [OF assms] by (simp add: read_number_def starts_def number_def)
  next
    case False
    moreover have "undigits 10 (dec (nat i)) = nat i" by (simp add: dec_def undigits_base)
    ultimately show ?thesis
      using sign rest whole_part_dec [OF assms] by (simp add: read_number_def decz_def number_def)
  qed
qed

lemma decz_head: "\<exists>c s. decz i = c # s \<and> (is_digit c \<or> c = CHR ''-'')"
proof -
  obtain c s where "dec (nat \<bar>i\<bar>) = c # s" by (cases "dec (nat \<bar>i\<bar>)") auto
  moreover from this have "is_digit c" using dec_digits [of c "nat \<bar>i\<bar>"] by simp
  ultimately show ?thesis by (auto simp: decz_def)
qed

lemma reads_JInt: "reads (decz i) (JInt i)"
proof -
  obtain c s where d: "decz i = c # s" "is_digit c \<or> c = CHR ''-''" using decz_head by blast
  then have c: "\<not> json_space c" "c \<noteq> CHR '']''" "c \<noteq> CHR ''}''" "c \<notin> {CHR 0x22, CHR ''['', CHR ''{'', CHR ''t'', CHR ''f'', CHR ''n''}"
    by (auto simp: json_space_def is_digit_def)
  show ?thesis
  proof (rule readsI [OF d(1) c(1-3)])
    show "read_value (Suc n) (c # s @ r) = Some (JInt i, r)" if "r = [] \<or> \<not> number_char (hd r)" for n r
      using read_number_back [OF that, of i] d(1) c by simp
  qed
qed

lemma Join_head: "xs \<noteq> [] \<Longrightarrow> hd xs \<noteq> [] \<Longrightarrow> Join xs sep \<noteq> [] \<and> hd (Join xs sep) = hd (hd xs)"
  by (cases xs; cases "tl xs") auto

lemma reads_JArr:
  assumes "ps \<noteq> []" and "\<forall>p \<in> set ps. reads (fst p) (snd p)" and "spaces w" and "spaces w'"
  shows "reads (CHR ''['' # w @ Join (map fst ps) ('','' @ w) @ w' @ '']'') (JArr (map snd ps))"
proof (rule readsI [OF refl])
  fix n :: nat and r :: string
  assume n: "length (w @ Join (map fst ps) ('','' @ w) @ w' @ '']'') < n"
  let ?j = "Join (map fst ps) ('','' @ w)"
  have "reads (fst (hd ps)) (snd (hd ps))" using assms(1,2) by simp
  then have "?j \<noteq> [] \<and> \<not> json_space (hd ?j) \<and> hd ?j \<noteq> CHR '']''"
    using Join_head [of "map fst ps" "'','' @ w"] assms(1) by (auto simp: reads_def hd_map)
  then have "\<not> starts (CHR '']'') (skip (?j @ w' @ CHR '']'' # r))" by (simp add: starts_def)
  moreover have "read_elems n (?j @ w' @ CHR '']'' # r) = Some (map snd ps, r)"
    using assms n by (intro read_elems_texts) auto
  ultimately show "read_value (Suc n) (CHR ''['' # (w @ ?j @ w' @ '']'') @ r) = Some (JArr (map snd ps), r)"
    using assms(3) by (simp add: read_elems_space)
qed simp_all

lemma member_head: "member_text z m \<noteq> [] \<and> hd (member_text z m) = CHR 0x22"
  by (simp add: member_text_def json_string_def)

lemma reads_JObj:
  assumes "ms \<noteq> []" and "\<forall>m \<in> set ms. reads (fst (snd m)) (snd (snd m))" and "spaces z" and "spaces w" and "spaces w'"
  shows "reads (CHR ''{'' # w @ Join (map (member_text z) ms) ('','' @ w) @ w' @ ''}'')
     (JObj (map (\<lambda>m. (to_valid (fst m), snd (snd m))) ms))"
proof (rule readsI [OF refl])
  fix n :: nat and r :: string
  let ?j = "Join (map (member_text z) ms) ('','' @ w)"
  assume n: "length (w @ ?j @ w' @ ''}'') < n"
  have "?j \<noteq> [] \<and> hd ?j = CHR 0x22"
    using Join_head [of "map (member_text z) ms" "'','' @ w"] assms(1) member_head by (simp add: hd_map)
  then have "\<not> starts (CHR ''}'') (skip (?j @ w' @ CHR ''}'' # r))" by (simp add: starts_def)
  moreover have "read_members n (?j @ w' @ CHR ''}'' # r) = Some (map (\<lambda>m. (to_valid (fst m), snd (snd m))) ms, r)"
    using assms n by (intro read_members_texts) auto
  ultimately show "read_value (Suc n) (CHR ''{'' # (w @ ?j @ w' @ ''}'') @ r) = Some (JObj (map (\<lambda>m. (to_valid (fst m), snd (snd m))) ms), r)"
    using assms(4) by (simp add: read_members_space)
qed simp_all

lemma reads_empty: "reads ''[]'' (JArr [])" "reads ''{}'' (JObj [])"
  by (rule readsI, rule refl, simp_all add: starts_def)+

lemma reads_elems:
  assumes "\<forall>v \<in> set vs. reads (f v) (valid_json v)" and "spaces w" and "spaces w'" and "vs \<noteq> []"
  shows "reads (''['' @ w @ Join (map f vs) ('','' @ w) @ w' @ '']'') (valid_json (JArr vs))"
proof -
  have "map f vs = map fst (map (\<lambda>v. (f v, valid_json v)) vs)" "map valid_json vs = map snd (map (\<lambda>v. (f v, valid_json v)) vs)"
    by simp_all
  then show ?thesis using reads_JArr [of "map (\<lambda>v. (f v, valid_json v)) vs" w w'] assms by (simp add: comp_def)
qed

lemma reads_members:
  assumes "\<forall>p \<in> set kvs. reads (f (snd p)) (valid_json (snd p))" and "spaces z" and "spaces w" and "spaces w'" and "kvs \<noteq> []"
  shows "reads (''{'' @ w @ Join (map (\<lambda>(k, v). json_string k @ CHR '':'' # z @ f v) kvs) ('','' @ w) @ w' @ ''}'') (valid_json (JObj kvs))"
proof -
  let ?ms = "map (\<lambda>(k, v). (k, f v, valid_json v)) kvs"
  have texts: "map (\<lambda>(k, v). json_string k @ CHR '':'' # z @ f v) kvs = map (member_text z) ?ms"
    and vals: "map (\<lambda>(k, v). (to_valid k, valid_json v)) kvs = map (\<lambda>m. (to_valid (fst m), snd (snd m))) ?ms"
    by (auto simp: member_text_def)
  have "reads (CHR ''{'' # w @ Join (map (member_text z) ?ms) ('','' @ w) @ w' @ ''}'')
      (JObj (map (\<lambda>m. (to_valid (fst m), snd (snd m))) ?ms))"
    using assms by (intro reads_JObj) auto
  then show ?thesis unfolding texts valid_json.simps vals by simp
qed

lemma nothing_spaces: "spaces []"
  by (simp add: spaces_def)

lemma json_text_reads: "no_other j \<Longrightarrow> reads (json_text j) (valid_json j)"
proof (induction j)
  case (JArr vs)
  then have "\<forall>v \<in> set vs. reads (json_text v) (valid_json v)" by (simp add: list_all_iff)
  then show ?case
    using reads_elems [of vs json_text "[]" "[]"] reads_empty nothing_spaces by (cases "vs = []") auto
next
  case (JObj kvs)
  then have "\<forall>p \<in> set kvs. reads (json_text (snd p)) (valid_json (snd p))" by (fastforce simp: list_all_iff)
  then show ?case
    using reads_members [of kvs json_text "[]" "[]" "[]"] reads_empty nothing_spaces by (cases "kvs = []") auto
qed (simp_all add: reads_JStr reads_JInt reads_words)

lemma json_indented_reads: "no_other j \<Longrightarrow> reads (json_indented d j) (valid_json j)"
proof (induction j arbitrary: d)
  case (JArr vs)
  then have "\<forall>v \<in> set vs. reads (json_indented (Suc d) v) (valid_json v)" by (simp add: list_all_iff)
  then show ?case
    using reads_elems [of vs "json_indented (Suc d)" "line_at (Suc d)" "line_at d"] reads_empty by (cases "vs = []") auto
next
  case (JObj kvs)
  then have "\<forall>p \<in> set kvs. reads (json_indented (Suc d) (snd p)) (valid_json (snd p))" by (fastforce simp: list_all_iff)
  moreover have "spaces '' ''" by (simp add: spaces_def json_space_def)
  ultimately show ?case
    using reads_members [of kvs "json_indented (Suc d)" "'' ''" "line_at (Suc d)" "line_at d"] reads_empty by (cases "kvs = []") auto
qed (simp_all add: reads_JStr reads_JInt reads_words)

lemma json_parse_reads:
  assumes "reads t v" and "spaces w"
  shows "json_parse (t @ w) = Some v"
proof -
  have "w = [] \<or> \<not> number_char (hd w)" using assms(2) by (cases w) (auto simp: spaces_def json_space_def number_char_def is_digit_def)
  then have "read_value (Suc (length (t @ w))) (t @ w) = Some (v, w)"
    using assms(1) unfolding reads_def by (metis length_append less_Suc_eq_le le_add1)
  moreover have "skip w = []" using skip_spaces [OF assms(2), of "[]"] by (simp add: skip_def)
  ultimately show ?thesis unfolding json_parse_def by simp
qed

lemma newline_spaces: "spaces [CHR 0x0A]"
  by (simp add: spaces_def json_space_def)

text \<open>What is written is read back, compact and indented, with or without the encoder's newline.\<close>

lemmas json_written =
  json_parse_reads [OF json_text_reads nothing_spaces, simplified]
  json_parse_reads [OF json_text_reads newline_spaces]
  json_parse_reads [OF json_indented_reads newline_spaces]

text \<open>A value whose strings are all valid UTF-8 is read back as itself.\<close>

fun utf8_json :: "json \<Rightarrow> bool" where
  "utf8_json (JStr s) = valid_utf8 s"
| "utf8_json (JArr vs) = list_all utf8_json vs"
| "utf8_json (JObj kvs) = list_all (\<lambda>(k, v). valid_utf8 k \<and> utf8_json v) kvs"
| "utf8_json _ = True"

lemma valid_json_utf8: "utf8_json j \<Longrightarrow> valid_json j = j"
proof (induction j)
  case (JArr vs)
  then show ?case by (simp add: list_all_iff map_idI)
next
  case (JObj kvs)
  have "(case p of (k, v) \<Rightarrow> (to_valid k, valid_json v)) = p" if "p \<in> set kvs" for p
    using JObj that by (cases p) (fastforce simp: list_all_iff to_valid_valid)
  then show ?case by (simp add: map_idI)
qed (simp_all add: to_valid_valid)

lemma utf8_reads: "no_other j \<Longrightarrow> utf8_json j \<Longrightarrow> reads (json_text j) j"
  by (metis json_text_reads valid_json_utf8)

end
