(* ===== verification/Machine_Args.thy ===== *)
theory Machine_Args
  imports Machine_Spec Qemu_Options Go_Json
begin

text \<open>
  The QEMU command line: \<^verbatim>\<open>Spec.Args\<close> of \<^verbatim>\<open>machine/machine.go\<close> and the \<^verbatim>\<open>append\<close> functions it
  calls, in its order, with the \<^verbatim>\<open>-blockdev\<close> nodes of a chain and their JSON.

  Only the model is here; \<^verbatim>\<open>Machine_Opts\<close> shows which options each function adds, and
  \<^verbatim>\<open>Machine_Slots\<close> and \<^verbatim>\<open>Machine_Chains\<close> hold the properties.
\<close>

subsection \<open>Small renderings\<close>

definition virtioModern :: string where "virtioModern = ''disable-legacy=on''"
definition hotplugController :: string where "hotplugController = ''scsi0''"
definition hotplugBus :: string where "hotplugBus = hotplugController @ ''.0''"
definition memGrowthID :: string where "memGrowthID = ''mem.growth''"
definition VirtioMemID :: string where "VirtioMemID = ''vmem0''"
definition DefaultBIOS :: string where "DefaultBIOS = ''qboot.bin''"

definition spec_bios :: "spec \<Rightarrow> string" where
  "spec_bios s = (if s_BIOS s = [] then DefaultBIOS else s_BIOS s)"

definition accelArg :: "string \<Rightarrow> int \<Rightarrow> string" where
  "accelArg accel kvmFDSet =
     (if kvmFDSet = 0 then accel else accel @ '',device=/dev/fdset/'' @ decz kvmFDSet)"

text \<open>The result of a Go \<^verbatim>\<open>int\<close> operation: 64 bits, two's complement.\<close>

definition wrap64 :: "int \<Rightarrow> int" where
  "wrap64 i = (i + 2 ^ 63) mod 2 ^ 64 - 2 ^ 63"

subsection \<open>Chains\<close>

record nodeCache =
  nc_Direct :: bool

record fileNode =
  fn_Driver :: string
  fn_NodeName :: string
  fn_Filename :: string
  fn_AIO :: string
  fn_Discard :: string
  fn_ReadOnly :: bool
  fn_DropCache :: bool
  fn_Locking :: string
  fn_Cache :: "nodeCache option"

text \<open>The three states of a format node's backing: absent, null, a node name.\<close>

datatype backing = BackingAbsent | BackingNull | BackingNode string

record formatNode =
  fm_Driver :: string
  fm_NodeName :: string
  fm_File :: string
  fm_ReadOnly :: bool
  fm_Discard :: string
  fm_Backing :: backing

definition fileNode_json :: "fileNode \<Rightarrow> json" where
  "fileNode_json n = JObj
     ([(''driver'', JStr (fn_Driver n)), (''node-name'', JStr (fn_NodeName n)),
       (''filename'', JStr (fn_Filename n)), (''aio'', JStr (fn_AIO n)),
       (''discard'', JStr (fn_Discard n)), (''read-only'', JBool (fn_ReadOnly n)),
       (''drop-cache'', JBool (fn_DropCache n))] @
      (if fn_Locking n \<noteq> [] then [(''locking'', JStr (fn_Locking n))] else []) @
      (case fn_Cache n of None \<Rightarrow> [] | Some c \<Rightarrow> [(''cache'', JObj [(''direct'', JBool (nc_Direct c))])]))"

definition formatNode_json :: "formatNode \<Rightarrow> json" where
  "formatNode_json n = JObj
     ([(''driver'', JStr (fm_Driver n)), (''node-name'', JStr (fm_NodeName n)),
       (''file'', JStr (fm_File n)), (''read-only'', JBool (fm_ReadOnly n)),
       (''discard'', JStr (fm_Discard n))] @
      (case fm_Backing n of
         BackingAbsent \<Rightarrow> [] | BackingNull \<Rightarrow> [(''backing'', JNull)]
       | BackingNode b \<Rightarrow> [(''backing'', JStr b)]))"

definition encodeNode :: "json \<Rightarrow> string" where
  "encodeNode j = json_text j"

definition nodeName :: "nat \<Rightarrow> nat \<Rightarrow> string" where
  "nodeName i j = (if j = 0 then ''blk'' @ dec i else ''blk'' @ dec i @ ''-'' @ dec j)"

text \<open>The two nodes of image \<open>j\<close> of disk \<open>i\<close>.\<close>

definition chainFile :: "disk \<Rightarrow> nat \<Rightarrow> nat \<Rightarrow> fileNode" where
  "chainFile d i j =
     \<lparr>fn_Driver = ''file'', fn_NodeName = nodeName i j @ ''-file'',
      fn_Filename = ''/dev/fdset/'' @ decz (img_FDSet (d_Chain d ! j)),
      fn_AIO = ''io_uring'', fn_Discard = ''unmap'', fn_ReadOnly = (d_Readonly d \<or> j > 0),
      fn_DropCache = False,
      fn_Locking = (if j = 0 \<and> d_Locking d then ''on'' else []),
      fn_Cache = (if d_DirectOverBacking d then Some \<lparr>nc_Direct = (j = 0)\<rparr> else None)\<rparr>"

definition chainFormat :: "disk \<Rightarrow> nat \<Rightarrow> nat \<Rightarrow> formatNode" where
  "chainFormat d i j =
     \<lparr>fm_Driver = img_Format (d_Chain d ! j), fm_NodeName = nodeName i j,
      fm_File = nodeName i j @ ''-file'', fm_ReadOnly = (d_Readonly d \<or> j > 0),
      fm_Discard = ''unmap'',
      fm_Backing =
        (if j < length (d_Chain d) - 1 then BackingNode (nodeName i (j + 1))
         else if img_Format (d_Chain d ! j) \<noteq> ''raw'' then BackingNull
         else BackingAbsent)\<rparr>"

text \<open>The loop of \<^verbatim>\<open>chainArgs\<close> runs from the last image up to the top.\<close>

definition chainNodes :: "disk \<Rightarrow> nat \<Rightarrow> (fileNode \<times> formatNode) list" where
  "chainNodes d i = map (\<lambda>j. (chainFile d i j, chainFormat d i j)) (rev [0..<length (d_Chain d)])"

definition chainArgs :: "disk \<Rightarrow> nat \<Rightarrow> argv" where
  "chainArgs d i = concat (map (\<lambda>(file, format).
     [''-blockdev'', encodeNode (fileNode_json file), ''-blockdev'', encodeNode (formatNode_json format)])
     (chainNodes d i))"

definition driveArg :: "disk \<Rightarrow> nat \<Rightarrow> string" where
  "driveArg d i =
     ''file='' @ qemuOpt (d_Path d) @ '',if=none,id=blk'' @ dec i @ '',format='' @ d_Format d
       @ '',aio=io_uring,discard=unmap,file.drop-cache=off''
     @ (if d_DirectOverBacking d then '',cache.direct=on,backing.cache.direct=off'' else [])
     @ (if d_Readonly d then '',readonly=on'' else [])
     @ (if d_Locking d then '',file.locking=on'' else [])"

subsection \<open>The append functions\<close>

definition appendChipset :: "argv \<Rightarrow> argv" where
  "appendChipset args =
     args @ [''-global'', ''ICH9-LPC.disable_s3=1'', ''-global'', ''ICH9-LPC.disable_s4=1'']
       @ [''-global'', ''ICH9-LPC.acpi-pci-hotplug-with-bridge-support=off'']
       @ [''-no-reboot'']"

definition appendBoot :: "spec \<Rightarrow> argv \<Rightarrow> argv" where
  "appendBoot s args =
     args @ [''-kernel'', s_Kernel s]
       @ (if s_Initrd s \<noteq> [] then [''-initrd'', s_Initrd s] else [])
       @ [''-append'', Cmdline_String (s_Cmdline s)]"

definition rngDevice :: string where
  "rngDevice = ''virtio-rng-pci,'' @ virtioModern @ '',addr=0x'' @ hex slotRNG"

definition balloonDevice :: string where
  "balloonDevice = ''virtio-balloon-pci,free-page-reporting=on,deflate-on-oom=on,'' @ virtioModern
     @ '',addr=0x'' @ hex slotBalloon"

definition vsockDevice :: "spec \<Rightarrow> string" where
  "vsockDevice s = ''vhost-vsock-pci,guest-cid='' @ decz (s_VsockCID s) @ '','' @ virtioModern
     @ '',addr=0x'' @ hex slotVsock
     @ (if s_VsockFD s \<noteq> 0 then '',vhostfd='' @ decz (s_VsockFD s) else [])"

definition growthMB :: "spec \<Rightarrow> int" where
  "growthMB s = wrap64 (m_MaxMB (s_Memory s) - m_SizeMB (s_Memory s))"

definition growthObject :: "spec \<Rightarrow> string" where
  "growthObject s = ''memory-backend-ram,id='' @ memGrowthID @ '',size='' @ decz (growthMB s) @ ''M''"

definition memDevice :: string where
  "memDevice = ''virtio-mem-pci,id='' @ VirtioMemID @ '',memdev='' @ memGrowthID
     @ '',requested-size=0,'' @ virtioModern @ '',addr=0x'' @ hex slotMem"

definition scsiDevice :: string where
  "scsiDevice = ''virtio-scsi-pci,id='' @ hotplugController @ '','' @ virtioModern
     @ '',addr=0x'' @ hex slotHotplug"

definition appendDevices :: "spec \<Rightarrow> argv \<Rightarrow> argv" where
  "appendDevices s args =
     args @ [''-device'', ''vmgenid,guid=auto'']
       @ [''-device'', rngDevice]
       @ [''-device'', balloonDevice]
       @ (if s_VsockCID s \<noteq> 0 then [''-device'', vsockDevice s] else [])
       @ (if m_MaxMB (s_Memory s) > m_SizeMB (s_Memory s)
          then [''-object'', growthObject s, ''-device'', memDevice] else [])
       @ (if s_HotplugDisks s > 0 then [''-device'', scsiDevice] else [])"

definition diskDevice :: "nat \<Rightarrow> disk \<Rightarrow> string" where
  "diskDevice i d = ''virtio-blk-pci,drive=blk'' @ dec i @ '','' @ virtioModern
     @ '',addr=0x'' @ hex (slotDiskBase + i)
     @ (if d_Serial d \<noteq> [] then '',serial='' @ qemuOpt (d_Serial d) else [])"

definition diskArgs :: "nat \<times> disk \<Rightarrow> argv" where
  "diskArgs p = (case p of (i, d) \<Rightarrow>
     (if d_Chain d \<noteq> [] then chainArgs d i else [''-drive'', driveArg d i])
     @ [''-device'', diskDevice i d])"

definition appendDisks :: "spec \<Rightarrow> argv \<Rightarrow> argv" where
  "appendDisks s args = args @ concat (map diskArgs (enumerate 0 (s_Disks s)))"

definition nicDevice :: "nat \<Rightarrow> nic \<Rightarrow> string" where
  "nicDevice i n = ''virtio-net-pci,netdev=net'' @ dec i @ '',mac='' @ n_MAC n @ '',romfile=,''
     @ virtioModern @ '',addr=0x'' @ hex (slotNICBase + i)
     @ (if n_MTU n > 0 then '',host_mtu='' @ decz (n_MTU n) else [])"

definition nicNetdev :: "nat \<Rightarrow> nic \<Rightarrow> string" where
  "nicNetdev i n = ''tap,id=net'' @ dec i @ '',fd='' @ decz (n_TapFD n) @ '',vhost=on''
     @ (if n_VhostFD n \<noteq> 0 then '',vhostfd='' @ decz (n_VhostFD n) else [])"

definition nicArgs :: "nat \<times> nic \<Rightarrow> argv" where
  "nicArgs p = (case p of (i, n) \<Rightarrow> [''-netdev'', nicNetdev i n, ''-device'', nicDevice i n])"

definition appendNICs :: "spec \<Rightarrow> argv \<Rightarrow> argv" where
  "appendNICs s args = args @ concat (map nicArgs (enumerate 0 (s_NICs s)))"

definition appendConsole :: "spec \<Rightarrow> argv \<Rightarrow> argv" where
  "appendConsole s args = args @
     (if s_SerialFDSet s \<noteq> 0 then
        [''-chardev'', ''file,id=serial0,path=/dev/fdset/'' @ decz (s_SerialFDSet s) @ '',append=on'',
         ''-serial'', ''chardev:serial0'']
      else if s_Serial s \<noteq> [] then [''-serial'', s_Serial s]
      else [''-serial'', ''none''])"

definition monitorArgs :: "nat \<times> monitor \<Rightarrow> argv" where
  "monitorArgs p = (case p of (i, m) \<Rightarrow>
     if mon_Socket m \<noteq> [] then
       [''-qmp'', ''unix:'' @ qemuOpt (mon_Socket m) @ '',server=on,wait=off'']
     else (let qid = ''qmp'' @ dec i in
       [''-chardev'', ''socket,id='' @ qid @ '',fd='' @ decz (mon_FD m) @ '',server=on,wait=off'',
        ''-object'', ''monitor-qmp,id=mon-'' @ qid @ '',chardev='' @ qid]))"

definition appendMonitors :: "spec \<Rightarrow> argv \<Rightarrow> argv" where
  "appendMonitors s args = args @ concat (map monitorArgs (enumerate 0 (s_Monitors s)))"

definition addFdArg :: "int \<Rightarrow> fd \<Rightarrow> string" where
  "addFdArg setID f = ''fd='' @ decz (fd_Num f) @ '',set='' @ decz setID
     @ (if fd_Opaque f \<noteq> [] then '',opaque='' @ qemuOpt (fd_Opaque f) else [])"

definition appendFDSets :: "spec \<Rightarrow> argv \<Rightarrow> argv" where
  "appendFDSets s args = args @
     concat (map (\<lambda>st. concat (map (\<lambda>f. [''-add-fd'', addFdArg (set_ID st) f]) (set_FDs st)))
       (s_FDSets s))"

definition appendIncoming :: "spec \<Rightarrow> argv \<Rightarrow> argv" where
  "appendIncoming s args = (if s_Incoming s \<noteq> [] then args @ [''-incoming'', s_Incoming s] else args)"

definition shapeArgs :: "spec \<Rightarrow> argv" where
  "shapeArgs s = (let shape = Shape s in
     [''-L'', s_Firmware s, ''-bios'', spec_bios s, ''-nodefaults'', ''-nographic'',
      ''-sandbox'', ''on,obsolete=deny,elevateprivileges=deny,spawn=deny,resourcecontrol=deny'',
      ''-machine'', sh_Machine shape, ''-accel'', accelArg (sh_Accel shape) (s_KVMFDSet s),
      ''-cpu'', sh_CPU shape, ''-smp'', sh_SMP shape, ''-m'', sh_Memory shape])"

definition Args :: "spec \<Rightarrow> (spec_error, argv) result" where
  "Args s =
     (case validate s of
        Some e \<Rightarrow> Inl e
      | None \<Rightarrow> Inr (appendIncoming s (appendFDSets s (appendMonitors s (appendConsole s (appendNICs s
          (appendDisks s (appendDevices s (appendBoot s (appendChipset (shapeArgs s)))))))))))"

text \<open>\<^verbatim>\<open>HotplugDisk\<close>: the arguments of \<^verbatim>\<open>device_add\<close> for a disk that arrives while the machine
  runs, a map in Go, its keys distinct here.\<close>

definition HotplugDisk :: "int \<Rightarrow> string \<Rightarrow> string \<Rightarrow> string \<Rightarrow> (string \<times> json) list" where
  "HotplugDisk i devID node serial =
     [(''driver'', JStr ''scsi-hd''), (''id'', JStr devID), (''drive'', JStr node),
      (''bus'', JStr hotplugBus), (''scsi-id'', JInt i), (''lun'', JInt 0)]
     @ (if serial \<noteq> [] then [(''serial'', JStr serial)] else [])"

end
