(* ===== verification/Machine_Opts.thy ===== *)
theory Machine_Opts
  imports Machine_Args
begin

text \<open>
  A command line as the options it holds. Each \<^verbatim>\<open>append\<close> function has a companion that lists its
  options as flag and value, and is interpreted as an \<open>appender\<close> of them; \<open>args_opts\<close> is the
  whole command line of a spec, and \<open>Args_opts\<close> that \<^verbatim>\<open>Args\<close> renders exactly it. The
  properties about slots, injection and chains are read off \<open>args_opts\<close>.
\<close>

subsection \<open>The options of each part\<close>

definition shape_opts :: "spec \<Rightarrow> qopts" where
  "shape_opts s =
     [(''-L'', Some (s_Firmware s)), (''-bios'', Some (spec_bios s)),
      (''-nodefaults'', None), (''-nographic'', None),
      (''-sandbox'', Some ''on,obsolete=deny,elevateprivileges=deny,spawn=deny,resourcecontrol=deny''),
      (''-machine'', Some (sh_Machine (Shape s))),
      (''-accel'', Some (accelArg (sh_Accel (Shape s)) (s_KVMFDSet s))),
      (''-cpu'', Some (sh_CPU (Shape s))), (''-smp'', Some (sh_SMP (Shape s))),
      (''-m'', Some (sh_Memory (Shape s)))]"

definition chipset_opts :: "spec \<Rightarrow> qopts" where
  "chipset_opts s =
     [(''-global'', Some ''ICH9-LPC.disable_s3=1''), (''-global'', Some ''ICH9-LPC.disable_s4=1''),
      (''-global'', Some ''ICH9-LPC.acpi-pci-hotplug-with-bridge-support=off''),
      (''-no-reboot'', None)]"

definition boot_opts :: "spec \<Rightarrow> qopts" where
  "boot_opts s =
     [(''-kernel'', Some (s_Kernel s))]
       @ (if s_Initrd s \<noteq> [] then [(''-initrd'', Some (s_Initrd s))] else [])
       @ [(''-append'', Some (Cmdline_String (s_Cmdline s)))]"

definition device_opts :: "spec \<Rightarrow> qopts" where
  "device_opts s =
     [(''-device'', Some ''vmgenid,guid=auto''), (''-device'', Some rngDevice),
      (''-device'', Some balloonDevice)]
     @ (if s_VsockCID s \<noteq> 0 then [(''-device'', Some (vsockDevice s))] else [])
     @ (if m_MaxMB (s_Memory s) > m_SizeMB (s_Memory s)
        then [(''-object'', Some (growthObject s)), (''-device'', Some memDevice)] else [])
     @ (if s_HotplugDisks s > 0 then [(''-device'', Some scsiDevice)] else [])"

definition chain_opts :: "disk \<Rightarrow> nat \<Rightarrow> qopts" where
  "chain_opts d i = concat (map (\<lambda>(file, format).
     [(''-blockdev'', Some (encodeNode (fileNode_json file))),
      (''-blockdev'', Some (encodeNode (formatNode_json format)))]) (chainNodes d i))"

definition disk_opts :: "nat \<times> disk \<Rightarrow> qopts" where
  "disk_opts p = (case p of (i, d) \<Rightarrow>
     (if d_Chain d \<noteq> [] then chain_opts d i else [(''-drive'', Some (driveArg d i))])
     @ [(''-device'', Some (diskDevice i d))])"

definition nic_opts :: "nat \<times> nic \<Rightarrow> qopts" where
  "nic_opts p = (case p of (i, n) \<Rightarrow>
     [(''-netdev'', Some (nicNetdev i n)), (''-device'', Some (nicDevice i n))])"

definition console_opts :: "spec \<Rightarrow> qopts" where
  "console_opts s =
     (if s_SerialFDSet s \<noteq> 0 then
        [(''-chardev'', Some (''file,id=serial0,path=/dev/fdset/'' @ decz (s_SerialFDSet s) @ '',append=on'')),
         (''-serial'', Some ''chardev:serial0'')]
      else if s_Serial s \<noteq> [] then [(''-serial'', Some (s_Serial s))]
      else [(''-serial'', Some ''none'')])"

definition monitor_opts :: "nat \<times> monitor \<Rightarrow> qopts" where
  "monitor_opts p = (case p of (i, m) \<Rightarrow>
     if mon_Socket m \<noteq> [] then
       [(''-qmp'', Some (''unix:'' @ qemuOpt (mon_Socket m) @ '',server=on,wait=off''))]
     else (let qid = ''qmp'' @ dec i in
       [(''-chardev'', Some (''socket,id='' @ qid @ '',fd='' @ decz (mon_FD m) @ '',server=on,wait=off'')),
        (''-object'', Some (''monitor-qmp,id=mon-'' @ qid @ '',chardev='' @ qid))]))"

definition fdset_opts :: "fdset \<Rightarrow> qopts" where
  "fdset_opts st = map (\<lambda>f. (''-add-fd'', Some (addFdArg (set_ID st) f))) (set_FDs st)"

definition incoming_opts :: "spec \<Rightarrow> qopts" where
  "incoming_opts s = (if s_Incoming s \<noteq> [] then [(''-incoming'', Some (s_Incoming s))] else [])"

definition disks_opts :: "spec \<Rightarrow> qopts" where
  "disks_opts s = concat (map disk_opts (enumerate 0 (s_Disks s)))"

definition nics_opts :: "spec \<Rightarrow> qopts" where
  "nics_opts s = concat (map nic_opts (enumerate 0 (s_NICs s)))"

definition monitors_opts :: "spec \<Rightarrow> qopts" where
  "monitors_opts s = concat (map monitor_opts (enumerate 0 (s_Monitors s)))"

definition fdsets_opts :: "spec \<Rightarrow> qopts" where
  "fdsets_opts s = concat (map fdset_opts (s_FDSets s))"

definition args_opts :: "spec \<Rightarrow> qopts" where
  "args_opts s = shape_opts s @ chipset_opts s @ boot_opts s @ device_opts s @ disks_opts s
     @ nics_opts s @ console_opts s @ monitors_opts s @ fdsets_opts s @ incoming_opts s"

subsection \<open>Each append function adds whole options\<close>

lemma list_all_concat_map: "list_all P (concat (map f xs)) \<longleftrightarrow> (\<forall>x \<in> set xs. list_all P (f x))"
  by (induction xs) auto

lemma opts_argv_loop:
  "(\<And>p. one p = opts_argv (opts p)) \<Longrightarrow> opts_argv (concat (map opts ps)) = concat (map one ps)"
  by (induction ps) auto

lemmas whole_simps = whole_opt_def bare_flags_def list_all_concat_map

interpretation chipset: appender "\<lambda>s. appendChipset" chipset_opts
  by unfold_locales (simp_all add: appendChipset_def chipset_opts_def whole_simps)

interpretation boot: appender appendBoot boot_opts
  by unfold_locales (simp_all add: appendBoot_def boot_opts_def whole_simps)

interpretation devices: appender appendDevices device_opts
  by unfold_locales (simp_all add: appendDevices_def device_opts_def whole_simps)

lemma chainArgs_opts: "chainArgs d i = opts_argv (chain_opts d i)"
  unfolding chainArgs_def chain_opts_def opts_argv_concat map_map
  by (intro arg_cong [where f = concat] map_cong) auto

lemma diskArgs_opts: "diskArgs p = opts_argv (disk_opts p)"
  by (simp add: diskArgs_def disk_opts_def chainArgs_opts split: prod.splits)

interpretation disks: appender appendDisks disks_opts
proof
  show "appendDisks s args = args @ opts_argv (disks_opts s)" for s args
    by (simp add: appendDisks_def disks_opts_def opts_argv_loop [OF diskArgs_opts])
  show "list_all whole_opt (disks_opts s)" for s
    by (auto simp: disks_opts_def disk_opts_def chain_opts_def whole_simps)
qed

interpretation nics: appender appendNICs nics_opts
proof
  have one: "nicArgs p = opts_argv (nic_opts p)" for p
    by (simp add: nicArgs_def nic_opts_def split: prod.splits)
  show "appendNICs s args = args @ opts_argv (nics_opts s)" for s args
    by (simp add: appendNICs_def nics_opts_def opts_argv_loop [OF one])
  show "list_all whole_opt (nics_opts s)" for s
    by (auto simp: nics_opts_def nic_opts_def whole_simps)
qed

interpretation console: appender appendConsole console_opts
  by unfold_locales (simp_all add: appendConsole_def console_opts_def whole_simps)

interpretation monitors: appender appendMonitors monitors_opts
proof
  have one: "monitorArgs p = opts_argv (monitor_opts p)" for p
    by (simp add: monitorArgs_def monitor_opts_def Let_def split: prod.splits)
  show "appendMonitors s args = args @ opts_argv (monitors_opts s)" for s args
    by (simp add: appendMonitors_def monitors_opts_def opts_argv_loop [OF one])
  show "list_all whole_opt (monitors_opts s)" for s
    by (auto simp: monitors_opts_def monitor_opts_def whole_simps Let_def)
qed

interpretation fdsets: appender appendFDSets fdsets_opts
proof
  have "opts_argv (map (\<lambda>f. (''-add-fd'', Some (g f))) fs) = concat (map (\<lambda>f. [''-add-fd'', g f]) fs)"
    for g and fs :: "fd list"
    by (induction fs) auto
  then show "appendFDSets s args = args @ opts_argv (fdsets_opts s)" for s args
    by (simp add: appendFDSets_def fdsets_opts_def fdset_opts_def opts_argv_concat comp_def)
  show "list_all whole_opt (fdsets_opts s)" for s
    by (auto simp: fdsets_opts_def fdset_opts_def whole_simps list_all_iff)
qed

interpretation incoming: appender appendIncoming incoming_opts
  by unfold_locales (simp_all add: appendIncoming_def incoming_opts_def whole_simps)

lemma shapeArgs_opts: "shapeArgs s = opts_argv (shape_opts s)"
  by (simp add: shapeArgs_def shape_opts_def Let_def)

lemma shape_whole: "list_all whole_opt (shape_opts s)"
  by (simp add: shape_opts_def whole_simps)

lemma args_whole: "list_all whole_opt (args_opts s)"
  by (simp add: args_opts_def shape_whole chipset.opts_whole boot.opts_whole devices.opts_whole
      disks.opts_whole nics.opts_whole console.opts_whole monitors.opts_whole fdsets.opts_whole
      incoming.opts_whole)

lemma Args_ok: "spec_ok s \<Longrightarrow> Args s = Inr (opts_argv (args_opts s))"
  by (simp add: Args_def validate_None [THEN iffD2] shapeArgs_opts args_opts_def
      chipset.app_opts boot.app_opts devices.app_opts disks.app_opts nics.app_opts
      console.app_opts monitors.app_opts fdsets.app_opts incoming.app_opts)

lemma Args_Inr: "Args s = Inr args \<longleftrightarrow> spec_ok s \<and> args = opts_argv (args_opts s)"
proof (cases "spec_ok s")
  case True
  then show ?thesis by (auto simp: Args_ok)
next
  case False
  then obtain e where "validate s = Some e" using validate_None by (cases "validate s") auto
  with False show ?thesis by (simp add: Args_def)
qed

lemma Args_opts: "Args s = Inr args \<Longrightarrow> argv_opts args = args_opts s"
  by (simp add: Args_Inr argv_opts_argv args_whole)

end
