(* ===== verification/Machine_Slots.thy ===== *)
theory Machine_Slots
  imports Machine_Opts
begin

text \<open>
  What QEMU finds on a command line: which devices at which PCI slots, and that values a caller
  supplies stay values. The slots are read from the command line the way QEMU reads it, the
  \<^verbatim>\<open>addr\<close> property of each \<^verbatim>\<open>-device\<close>, not from the definition that wrote it.
\<close>

definition device_values :: "qopts \<Rightarrow> string list" where
  "device_values os = concat (map (\<lambda>(f, v).
     if f = ''-device'' then (case v of None \<Rightarrow> [] | Some d \<Rightarrow> [d]) else []) os)"

definition slot_of :: "string \<Rightarrow> string list" where
  "slot_of dev = map (drop 5) (filter (\<lambda>p. HasPrefix p ''addr='') (opt_parts dev))"

definition pci_slots :: "qopts \<Rightarrow> string list" where
  "pci_slots os = concat (map slot_of (device_values os))"

definition slot_text :: "nat \<Rightarrow> string" where
  "slot_text n = ''0x'' @ hex n"

lemma device_values_append [simp]: "device_values (a @ b) = device_values a @ device_values b"
  by (simp add: device_values_def)

lemma device_values_concat: "device_values (concat oss) = concat (map device_values oss)"
  by (induction oss) (auto simp: device_values_def)

lemma slot_text_inj [simp]: "slot_text m = slot_text n \<longleftrightarrow> m = n"
  by (simp add: slot_text_def)

subsection \<open>The parts of each device\<close>

lemmas device_text =
  rngDevice_def balloonDevice_def memDevice_def scsiDevice_def virtioModern_def VirtioMemID_def
  memGrowthID_def hotplugController_def

lemma slot_of_Join:
  "ps \<noteq> [] \<Longrightarrow> \<forall>p \<in> set ps. p \<noteq> [] \<and> CHR '','' \<notin> set p \<Longrightarrow>
     slot_of (Join ps '','') = map (drop 5) (filter (\<lambda>p. HasPrefix p ''addr='') ps)"
  by (simp add: slot_of_def opt_parts_Join)

lemma slot_of_fixed:
  "slot_of ''vmgenid,guid=auto'' = []"
  "slot_of rngDevice = [slot_text slotRNG]"
  "slot_of balloonDevice = [slot_text slotBalloon]"
  "slot_of memDevice = [slot_text slotMem]"
  "slot_of scsiDevice = [slot_text slotHotplug]"
  by code_simp+

definition vsock_parts :: "spec \<Rightarrow> string list" where
  "vsock_parts s = [''vhost-vsock-pci'', ''guest-cid='' @ decz (s_VsockCID s), ''disable-legacy=on'',
     ''addr=0x'' @ hex slotVsock] @ (if s_VsockFD s \<noteq> 0 then [''vhostfd='' @ decz (s_VsockFD s)] else [])"

lemma vsockDevice_parts: "vsockDevice s = Join (vsock_parts s) '',''"
  by (simp add: vsockDevice_def vsock_parts_def virtioModern_def)

lemma vsock_parts_nonempty: "vsock_parts s \<noteq> []"
  by (simp add: vsock_parts_def)

lemma vsock_parts_ok: "\<forall>p \<in> set (vsock_parts s). p \<noteq> [] \<and> CHR '','' \<notin> set p"
  by (simp add: vsock_parts_def)

lemma slot_of_vsock: "slot_of (vsockDevice s) = [slot_text slotVsock]"
  unfolding vsockDevice_parts slot_of_Join [OF vsock_parts_nonempty vsock_parts_ok]
  by (simp add: vsock_parts_def HasPrefix_def slot_text_def)

definition nic_parts :: "nat \<Rightarrow> nic \<Rightarrow> string list" where
  "nic_parts i n = [''virtio-net-pci'', ''netdev=net'' @ dec i, ''mac='' @ n_MAC n, ''romfile='',
     ''disable-legacy=on'', ''addr=0x'' @ hex (slotNICBase + i)]
     @ (if n_MTU n > 0 then [''host_mtu='' @ decz (n_MTU n)] else [])"

lemma nicDevice_parts: "nicDevice i n = Join (nic_parts i n) '',''"
  by (simp add: nicDevice_def nic_parts_def virtioModern_def)

lemma nic_parts_nonempty: "nic_parts i n \<noteq> []"
  by (simp add: nic_parts_def)

lemma nic_parts_ok:
  "CHR '','' \<notin> set (n_MAC n) \<Longrightarrow> \<forall>p \<in> set (nic_parts i n). p \<noteq> [] \<and> CHR '','' \<notin> set p"
  by (simp add: nic_parts_def)

lemma slot_of_nic:
  assumes "CHR '','' \<notin> set (n_MAC n)"
  shows "slot_of (nicDevice i n) = [slot_text (slotNICBase + i)]"
  unfolding nicDevice_parts slot_of_Join [OF nic_parts_nonempty nic_parts_ok [OF assms]]
  by (simp add: nic_parts_def HasPrefix_def slot_text_def)

definition disk_parts :: "nat \<Rightarrow> string list" where
  "disk_parts i = [''virtio-blk-pci'', ''drive=blk'' @ dec i, ''disable-legacy=on'',
     ''addr=0x'' @ hex (slotDiskBase + i)]"

lemma disk_parts_ok: "\<forall>p \<in> set (disk_parts i). p \<noteq> [] \<and> CHR '','' \<notin> set p"
  by (simp add: disk_parts_def)

lemma opt_parts_diskDevice:
  "opt_parts (diskDevice i d) =
     disk_parts i @ (if d_Serial d \<noteq> [] then [''serial='' @ d_Serial d] else [])"
proof (cases "d_Serial d = []")
  case True
  then have "diskDevice i d = Join (disk_parts i) '',''"
    by (simp add: diskDevice_def disk_parts_def virtioModern_def)
  then show ?thesis using True opt_parts_Join [OF _ disk_parts_ok] by (simp add: disk_parts_def)
next
  case False
  then have "diskDevice i d = Join (disk_parts i @ [''serial='' @ qemuOpt (d_Serial d)]) '',''"
    by (simp add: diskDevice_def disk_parts_def virtioModern_def)
  then show ?thesis using False opt_parts_Join_value [of "disk_parts i" "[]" "''serial=''"] disk_parts_ok [of i]
    by simp
qed

lemma slot_of_disk: "slot_of (diskDevice i d) = [slot_text (slotDiskBase + i)]"
  by (simp add: slot_of_def opt_parts_diskDevice disk_parts_def HasPrefix_def slot_text_def)

subsection \<open>The slots of a command line\<close>

definition slot_numbers :: "spec \<Rightarrow> nat list" where
  "slot_numbers s =
     [slotRNG, slotBalloon]
     @ (if s_VsockCID s \<noteq> 0 then [slotVsock] else [])
     @ (if m_MaxMB (s_Memory s) > m_SizeMB (s_Memory s) then [slotMem] else [])
     @ (if s_HotplugDisks s > 0 then [slotHotplug] else [])
     @ map (\<lambda>i. slotDiskBase + i) [0..<length (s_Disks s)]
     @ map (\<lambda>i. slotNICBase + i) [0..<length (s_NICs s)]"

lemma nic_ok_no_comma: "nic_ok n \<Longrightarrow> CHR '','' \<notin> set (n_MAC n)"
  by (auto simp: nic_ok_def dest: ParseMAC_no_comma)

lemma device_values_disks:
  "device_values (disks_opts s) = map (\<lambda>(i, d). diskDevice i d) (enumerate 0 (s_Disks s))"
proof -
  have "device_values (chain_opts d i) = []" for d i
    by (auto simp: chain_opts_def device_values_def)
  then have "device_values (disk_opts p) = [case p of (i, d) \<Rightarrow> diskDevice i d]" for p
    by (simp add: disk_opts_def device_values_def split: prod.splits)
  then show ?thesis by (simp add: disks_opts_def device_values_concat comp_def)
qed

lemma device_values_nics:
  "device_values (nics_opts s) = map (\<lambda>(i, n). nicDevice i n) (enumerate 0 (s_NICs s))"
proof -
  have "device_values (nic_opts p) = [case p of (i, n) \<Rightarrow> nicDevice i n]" for p
    by (simp add: nic_opts_def device_values_def split: prod.splits)
  then show ?thesis by (simp add: nics_opts_def device_values_concat comp_def)
qed

lemma device_values_rest:
  "device_values (shape_opts s) = []" "device_values (chipset_opts s) = []"
  "device_values (boot_opts s) = []" "device_values (console_opts s) = []"
  "device_values (monitors_opts s) = []" "device_values (fdsets_opts s) = []"
  "device_values (incoming_opts s) = []"
proof -
  show "device_values (monitors_opts s) = []"
    by (auto simp: monitors_opts_def monitor_opts_def device_values_def Let_def)
  show "device_values (fdsets_opts s) = []"
    by (auto simp: fdsets_opts_def fdset_opts_def device_values_def)
qed (simp_all add: device_values_def shape_opts_def chipset_opts_def boot_opts_def
      console_opts_def incoming_opts_def)

lemma concat_map_enumerate:
  assumes "\<And>i x. (i, x) \<in> set (enumerate k xs) \<Longrightarrow> f (i, x) = [g i]"
  shows "concat (map f (enumerate k xs)) = map g [k..<k + length xs]"
proof -
  have "concat (map f (enumerate k xs)) = concat (map (\<lambda>p. [g (fst p)]) (enumerate k xs))"
    using assms by (intro arg_cong [where f = concat] map_cong) auto
  also have "\<dots> = map g (map fst (enumerate k xs))"
    by (simp add: concat_map_singleton comp_def del: map_fst_enumerate)
  finally show ?thesis by simp
qed

lemma pci_slots_args:
  assumes "spec_ok s"
  shows "pci_slots (args_opts s) = map slot_text (slot_numbers s)"
proof -
  have nics: "concat (map slot_of (device_values (nics_opts s)))
      = map (\<lambda>i. slot_text (slotNICBase + i)) [0..<length (s_NICs s)]"
  proof -
    have "slot_of (nicDevice i n) = [slot_text (slotNICBase + i)]"
      if "(i, n) \<in> set (enumerate 0 (s_NICs s))" for i n
      using assms that by (auto simp: spec_ok_def in_set_enumerate_eq intro!: slot_of_nic nic_ok_no_comma)
    then show ?thesis
      using concat_map_enumerate [of 0 "s_NICs s" "\<lambda>(i, n). slot_of (nicDevice i n)"]
      by (simp add: device_values_nics comp_def split_def)
  qed
  have disks: "concat (map slot_of (device_values (disks_opts s)))
      = map (\<lambda>i. slot_text (slotDiskBase + i)) [0..<length (s_Disks s)]"
    using concat_map_enumerate [of 0 "s_Disks s" "\<lambda>(i, d). slot_of (diskDevice i d)"]
    by (simp add: device_values_disks comp_def split_def slot_of_disk)
  have devices: "concat (map slot_of (device_values (device_opts s))) = map slot_text
     ([slotRNG, slotBalloon]
     @ (if s_VsockCID s \<noteq> 0 then [slotVsock] else [])
     @ (if m_MaxMB (s_Memory s) > m_SizeMB (s_Memory s) then [slotMem] else [])
     @ (if s_HotplugDisks s > 0 then [slotHotplug] else []))"
    by (simp add: device_opts_def device_values_def slot_of_fixed slot_of_vsock)
  show ?thesis
    unfolding pci_slots_def args_opts_def slot_numbers_def
    by (simp add: device_values_rest disks nics devices comp_def)
qed

lemma slot_numbers_distinct:
  assumes "spec_ok s"
  shows "distinct (slot_numbers s)" and "set (slot_numbers s) \<subseteq> {0x02..0x1e} - {0x1b..0x1d}"
proof -
  have d: "length (s_Disks s) \<le> 11" and n: "length (s_NICs s) \<le> 10"
    using assms by (auto simp: spec_ok_def fields_ok_def machine_defs)
  show "distinct (slot_numbers s)"
    using d n by (auto simp: slot_numbers_def machine_defs distinct_map inj_on_def)
  show "set (slot_numbers s) \<subseteq> {0x02..0x1e} - {0x1b..0x1d}"
    using d n by (auto simp: slot_numbers_def machine_defs)
qed

subsection \<open>Values a caller supplies\<close>

definition drive_parts :: "disk \<Rightarrow> nat \<Rightarrow> string list" where
  "drive_parts d i =
     [''if=none'', ''id=blk'' @ dec i, ''format='' @ d_Format d, ''aio=io_uring'', ''discard=unmap'',
      ''file.drop-cache=off'']
     @ (if d_DirectOverBacking d then [''cache.direct=on'', ''backing.cache.direct=off''] else [])
     @ (if d_Readonly d then [''readonly=on''] else [])
     @ (if d_Locking d then [''file.locking=on''] else [])"

lemma disk_format_no_comma: "f \<in> set diskFormats \<Longrightarrow> CHR '','' \<notin> set f"
  by (auto simp: diskFormats_def)

lemma opt_parts_driveArg:
  assumes "CHR '','' \<notin> set (d_Format d)"
  shows "opt_parts (driveArg d i) = (''file='' @ d_Path d) # drive_parts d i"
proof -
  have "driveArg d i = Join ([] @ [''file='' @ qemuOpt (d_Path d)] @ drive_parts d i) '',''"
    by (simp add: driveArg_def drive_parts_def)
  moreover have "\<forall>p \<in> set ([] @ drive_parts d i). p \<noteq> [] \<and> CHR '','' \<notin> set p"
    using assms by (auto simp: drive_parts_def)
  ultimately show ?thesis using opt_parts_Join_value [of "[]" "drive_parts d i" "''file=''"] by simp
qed

lemma opt_parts_addFdArg:
  "opt_parts (addFdArg i f) = [''fd='' @ decz (fd_Num f), ''set='' @ decz i]
     @ (if fd_Opaque f \<noteq> [] then [''opaque='' @ fd_Opaque f] else [])"
proof (cases "fd_Opaque f = []")
  case True
  let ?ps = "[''fd='' @ decz (fd_Num f), ''set='' @ decz i]"
  have "opt_parts (Join ?ps '','') = ?ps" by (rule opt_parts_Join) simp_all
  moreover have "addFdArg i f = Join ?ps '',''" using True by (simp add: addFdArg_def)
  ultimately show ?thesis using True by (simp only: append_Nil2 if_False simp_thms)
next
  case False
  then have "addFdArg i f = Join ([''fd='' @ decz (fd_Num f), ''set='' @ decz i]
      @ [''opaque='' @ qemuOpt (fd_Opaque f)] @ []) '',''"
    by (simp add: addFdArg_def)
  then show ?thesis
    using False opt_parts_Join_value [of "[''fd='' @ decz (fd_Num f), ''set='' @ decz i]" "[]" "''opaque=''"]
    by simp
qed

lemma opt_parts_socket: "opt_parts (qemuOpt v @ '',server=on,wait=off'') = [v, ''server=on'', ''wait=off'']"
  using qopt.parts_esc [of v "'',server=on,wait=off''"] by simp

text \<open>The pairs whose names the machine writes itself.\<close>

lemma written_pairs:
  "opt_pair k (''file='' @ v) = (''file'', v)" "opt_pair k (''serial='' @ v) = (''serial'', v)" "opt_pair k (''opaque='' @ v) = (''opaque'', v)"
  "opt_pair k (''fd='' @ v) = (''fd'', v)" "opt_pair k (''set='' @ v) = (''set'', v)"
  "opt_pair k (''server='' @ v) = (''server'', v)" "opt_pair k (''wait='' @ v) = (''wait'', v)"
  using opt_pair_named [of "''file''" k v] opt_pair_named [of "''serial''" k v] opt_pair_named [of "''opaque''" k v]
    opt_pair_named [of "''fd''" k v] opt_pair_named [of "''set''" k v] opt_pair_named [of "''server''" k v] opt_pair_named [of "''wait''" k v]
  by simp_all

lemma args_opts_disk:
  assumes "i < length (s_Disks s)"
  shows "set (disk_opts (i, s_Disks s ! i)) \<subseteq> set (args_opts s)"
proof -
  have "(i, s_Disks s ! i) \<in> set (enumerate 0 (s_Disks s))"
    using assms by (simp add: in_set_enumerate_eq)
  then have "set (disk_opts (i, s_Disks s ! i)) \<subseteq> set (disks_opts s)"
    by (force simp: disks_opts_def)
  then show ?thesis by (auto simp: args_opts_def)
qed

lemma args_opts_monitor:
  assumes "i < length (s_Monitors s)"
  shows "set (monitor_opts (i, s_Monitors s ! i)) \<subseteq> set (args_opts s)"
proof -
  have "(i, s_Monitors s ! i) \<in> set (enumerate 0 (s_Monitors s))"
    using assms by (simp add: in_set_enumerate_eq)
  then have "set (monitor_opts (i, s_Monitors s ! i)) \<subseteq> set (monitors_opts s)"
    by (force simp: monitors_opts_def)
  then show ?thesis by (auto simp: args_opts_def)
qed

lemma args_opts_fdset: "st \<in> set (s_FDSets s) \<Longrightarrow> set (fdset_opts st) \<subseteq> set (args_opts s)"
  by (auto simp: args_opts_def fdsets_opts_def)

lemma length_slot_numbers:
  "Suc (length (slot_numbers s)) =
     length (device_values (device_opts s)) + length (s_Disks s) + length (s_NICs s)"
  by (simp add: slot_numbers_def device_opts_def device_values_def)

lemma sample_args: "Args sample_spec = Inr (opts_argv (args_opts sample_spec))"
  by (rule Args_ok [OF sample_ok])

subsection \<open>Properties\<close>

text \<open>C4: Every PCI device on a command line \<^verbatim>\<open>Args\<close> returns has a slot of its own. Read back as
  QEMU reads it, no two \<^verbatim>\<open>-device\<close> options carry the same \<^verbatim>\<open>addr\<close>; every one but vmgenid, which is
  not a PCI device, carries one; none is the host bridge's (0), the conventional VGA slot (1),
  one of the slots left free (0x1b to 0x1d) or the chipset's (0x1f); and a disk's and a NIC's
  slot depends on its index alone.\<close>

theorem every_pci_device_has_its_own_slot:
  assumes "Args s = Inr args"
  shows "distinct (pci_slots (argv_opts args))
    \<and> set (pci_slots (argv_opts args)) \<subseteq> slot_text ` ({0x02..0x1e} - {0x1b..0x1d})
    \<and> Suc (length (pci_slots (argv_opts args))) = length (device_values (argv_opts args))
    \<and> pci_slots (argv_opts args) = map slot_text (slot_numbers s)"
proof -
  have ok: "spec_ok s" and opts: "argv_opts args = args_opts s"
    using assms by (simp_all add: Args_Inr argv_opts_argv args_whole)
  note slots = pci_slots_args [OF ok] and num = slot_numbers_distinct [OF ok]
  have "distinct (map slot_text (slot_numbers s))" using num(1) by (simp add: distinct_map inj_on_def)
  moreover have "set (map slot_text (slot_numbers s)) \<subseteq> slot_text ` ({0x02..0x1e} - {0x1b..0x1d})"
    using num(2) by auto
  moreover have "Suc (length (slot_numbers s)) = length (device_values (args_opts s))"
    by (simp add: args_opts_def device_values_rest device_values_disks device_values_nics
        length_slot_numbers)
  ultimately show ?thesis unfolding opts slots by simp
qed

theorem every_pci_device_has_its_own_slot_witness:
  "pci_slots (argv_opts (opts_argv (args_opts sample_spec))) =
     [''0x3'', ''0x4'', ''0x2'', ''0x1e'', ''0x1a'', ''0x5'', ''0x6'', ''0x10'']"
proof -
  have "map slot_text (slot_numbers sample_spec) =
      [''0x3'', ''0x4'', ''0x2'', ''0x1e'', ''0x1a'', ''0x5'', ''0x6'', ''0x10'']" by code_simp
  then show ?thesis using every_pci_device_has_its_own_slot [OF sample_args] by simp
qed

lemma drive_option:
  assumes "spec_ok s" and "i < length (s_Disks s)" and "d_Chain (s_Disks s ! i) = []"
  shows "\<exists>v. (''-drive'', Some v) \<in> set (args_opts s)
    \<and> read_opts None v = (''file'', d_Path (s_Disks s ! i)) # map (opt_pair None) (drive_parts (s_Disks s ! i) i)"
proof -
  have "disk_ok (set_ids s) (s_Disks s ! i)" using assms(1,2) by (simp add: spec_ok_def)
  then have "d_Format (s_Disks s ! i) \<in> set diskFormats" using assms(3) by (simp add: disk_ok_def)
  moreover have "(''-drive'', Some (driveArg (s_Disks s ! i) i)) \<in> set (args_opts s)"
    using args_opts_disk [OF assms(2)] assms(3) by (auto simp: disk_opts_def)
  ultimately show ?thesis
    using opt_parts_driveArg [of "s_Disks s ! i" i, OF disk_format_no_comma]
    by (intro exI [of _ "driveArg (s_Disks s ! i) i"]) (simp add: read_opts_def read_parts_def written_pairs [simplified])
qed

lemma serial_option:
  assumes "i < length (s_Disks s)" and "d_Serial (s_Disks s ! i) \<noteq> []"
  shows "\<exists>v. (''-device'', Some v) \<in> set (args_opts s)
    \<and> read_opts (Some ''driver'') v = read_parts (Some ''driver'') (disk_parts i) @ [(''serial'', d_Serial (s_Disks s ! i))]"
proof -
  have "opt_parts (diskDevice i (s_Disks s ! i)) = disk_parts i @ [''serial='' @ d_Serial (s_Disks s ! i)]"
    using assms(2) by (simp add: opt_parts_diskDevice)
  moreover have "(''-device'', Some (diskDevice i (s_Disks s ! i))) \<in> set (args_opts s)"
    using args_opts_disk [OF assms(1)] by (auto simp: disk_opts_def)
  moreover have "disk_parts i \<noteq> []" by (simp add: disk_parts_def)
  ultimately show ?thesis
    by (intro exI [of _ "diskDevice i (s_Disks s ! i)"]) (simp add: read_opts_def read_parts_append written_pairs [simplified])
qed

lemma monitor_option:
  assumes "m \<in> set (s_Monitors s)" and "mon_Socket m \<noteq> []"
  shows "\<exists>v. (''-qmp'', Some (''unix:'' @ v)) \<in> set (args_opts s)
    \<and> read_opts (Some ''path'') v = opt_pair (Some ''path'') (mon_Socket m) # [(''server'', ''on''), (''wait'', ''off'')]"
proof -
  obtain i where "i < length (s_Monitors s)" and "m = s_Monitors s ! i" using assms(1) by (auto simp: in_set_conv_nth)
  then have "(''-qmp'', Some (''unix:'' @ qemuOpt (mon_Socket m) @ '',server=on,wait=off'')) \<in> set (args_opts s)"
    using args_opts_monitor [of i s] assms(2) by (auto simp: monitor_opts_def)
  then show ?thesis
    by (intro exI conjI, assumption) (simp add: read_opts_def read_parts_def opt_parts_socket written_pairs [simplified])
qed

lemma opaque_option:
  assumes "st \<in> set (s_FDSets s)" and "f \<in> set (set_FDs st)" and "fd_Opaque f \<noteq> []"
  shows "\<exists>v. (''-add-fd'', Some v) \<in> set (args_opts s)
    \<and> read_opts None v = [(''fd'', decz (fd_Num f)), (''set'', decz (set_ID st)), (''opaque'', fd_Opaque f)]"
proof -
  have "(''-add-fd'', Some (addFdArg (set_ID st) f)) \<in> set (args_opts s)"
    using args_opts_fdset [OF assms(1)] assms(2) by (auto simp: fdset_opts_def)
  moreover have "opt_parts (addFdArg (set_ID st) f) =
      [''fd='' @ decz (fd_Num f), ''set='' @ decz (set_ID st), ''opaque='' @ fd_Opaque f]"
    unfolding opt_parts_addFdArg using assms(3) by simp
  ultimately show ?thesis
    by (intro exI [of _ "addFdArg (set_ID st) f"]) (simp add: read_opts_def read_parts_def written_pairs [simplified])
qed

text \<open>C5: A value a caller supplies is read as that value. On a command line \<^verbatim>\<open>Args\<close> returns, whatever a
  disk's path and serial and a descriptor's opaque hold, QEMU reads each back under its name, among exactly
  the options the machine wrote beside it. A monitor's socket is the path, whatever its commas, exactly
  when no equals sign comes before the first of them: \<^verbatim>\<open>-qmp\<close> writes it without a name, and one that has
  such a sign is read as another option, which \<^verbatim>\<open>validate\<close> does not refuse.\<close>

theorem caller_values_stay_values:
  assumes "Args s = Inr args"
  shows "(\<forall>i < length (s_Disks s). d_Chain (s_Disks s ! i) = [] \<longrightarrow>
        (\<exists>v. (''-drive'', Some v) \<in> set (argv_opts args)
           \<and> read_opts None v = (''file'', d_Path (s_Disks s ! i)) # map (opt_pair None) (drive_parts (s_Disks s ! i) i)))
    \<and> (\<forall>i < length (s_Disks s). d_Serial (s_Disks s ! i) \<noteq> [] \<longrightarrow>
        (\<exists>v. (''-device'', Some v) \<in> set (argv_opts args)
           \<and> read_opts (Some ''driver'') v = read_parts (Some ''driver'') (disk_parts i) @ [(''serial'', d_Serial (s_Disks s ! i))]))
    \<and> (\<forall>m \<in> set (s_Monitors s). mon_Socket m \<noteq> [] \<longrightarrow>
        (\<exists>v. (''-qmp'', Some (''unix:'' @ v)) \<in> set (argv_opts args)
           \<and> (if CHR ''='' \<in> set (takeWhile (\<lambda>c. c \<noteq> CHR '','') (mon_Socket m))
              then read_opts (Some ''path'') v = name_value (mon_Socket m) # [(''server'', ''on''), (''wait'', ''off'')]
              else read_opts (Some ''path'') v = [(''path'', mon_Socket m), (''server'', ''on''), (''wait'', ''off'')])))
    \<and> (\<forall>st \<in> set (s_FDSets s). \<forall>f \<in> set (set_FDs st). fd_Opaque f \<noteq> [] \<longrightarrow>
        (\<exists>v. (''-add-fd'', Some v) \<in> set (argv_opts args)
           \<and> read_opts None v = [(''fd'', decz (fd_Num f)), (''set'', decz (set_ID st)), (''opaque'', fd_Opaque f)]))"
    (is "?drive \<and> ?serial \<and> ?monitor \<and> ?opaque")
proof -
  have ok: "spec_ok s" and opts: "argv_opts args = args_opts s"
    using assms by (simp_all add: Args_Inr argv_opts_argv args_whole)
  have ?drive unfolding opts using drive_option [OF ok] by blast
  moreover have ?serial unfolding opts using serial_option by blast
  moreover have ?monitor
    unfolding opts named_def [symmetric] using monitor_option by (fastforce simp: opt_pair_def)
  moreover have ?opaque unfolding opts using opaque_option by blast
  ultimately show ?thesis by blast
qed

theorem caller_values_stay_values_witness:
  "\<exists>v. (''-drive'', Some v) \<in> set (argv_opts (opts_argv (args_opts sample_spec)))
     \<and> hd (read_opts None v) = (''file'', ''/a,b'')"
proof -
  have "length (s_Disks sample_spec) = 2" and "d_Chain (s_Disks sample_spec ! 0) = []"
    and "d_Path (s_Disks sample_spec ! 0) = ''/a,b''"
    by (simp_all add: sample_spec_def)
  with caller_values_stay_values [OF sample_args, THEN conjunct1, rule_format, of 0]
  show ?thesis by auto
qed

end
