(* ===== verification/Machine_Chains.thy ===== *)
theory Machine_Chains
  imports Machine_Slots
begin

text \<open>
  Disks given as a chain of images: the \<^verbatim>\<open>-blockdev\<close> nodes \<^verbatim>\<open>chainArgs\<close> makes. Each format node
  stands on its file node and is backed by the node given just before it, the first by nothing,
  so QEMU follows no backing name of an image header; only the top can be written; and no two
  nodes of a machine share a name.
\<close>

lemma chainNodes_length [simp]: "length (chainNodes d i) = length (d_Chain d)"
  by (simp add: chainNodes_def)

lemma chainNodes_nth:
  "k < length (d_Chain d) \<Longrightarrow> chainNodes d i ! k =
     (chainFile d i (length (d_Chain d) - 1 - k), chainFormat d i (length (d_Chain d) - 1 - k))"
  by (simp add: chainNodes_def rev_nth)

text \<open>What a list of nodes must be for QEMU to read the chain it was meant to.\<close>

definition chain_closed :: "(fileNode \<times> formatNode) list \<Rightarrow> bool" where
  "chain_closed ns = (\<forall>k < length ns.
     fm_File (snd (ns ! k)) = fn_NodeName (fst (ns ! k))
     \<and> (if k = 0 then fm_Backing (snd (ns ! 0)) = BackingNull
          \<or> fm_Backing (snd (ns ! 0)) = BackingAbsent \<and> fm_Driver (snd (ns ! 0)) = ''raw''
        else fm_Backing (snd (ns ! k)) = BackingNode (fm_NodeName (snd (ns ! (k - 1))))))"

lemma chain_closed_chainNodes: "chain_closed (chainNodes d i)"
  unfolding chain_closed_def
proof (intro allI impI)
  fix k assume k: "k < length (chainNodes d i)"
  let ?n = "length (d_Chain d)"
  let ?ns = "chainNodes d i"
  have own: "fm_File (snd (?ns ! k)) = fn_NodeName (fst (?ns ! k))"
    using k by (simp add: chainNodes_nth chainFormat_def chainFile_def)
  show "fm_File (snd (?ns ! k)) = fn_NodeName (fst (?ns ! k))
     \<and> (if k = 0 then fm_Backing (snd (?ns ! 0)) = BackingNull
          \<or> fm_Backing (snd (?ns ! 0)) = BackingAbsent \<and> fm_Driver (snd (?ns ! 0)) = ''raw''
        else fm_Backing (snd (?ns ! k)) = BackingNode (fm_NodeName (snd (?ns ! (k - 1)))))"
  proof (cases "k = 0")
    case True
    with k own show ?thesis by (simp add: chainNodes_nth chainFormat_def)
  next
    case False
    have j: "Suc (?n - 1 - k) = ?n - 1 - (k - 1)" and lt: "?n - 1 - k < ?n - 1"
      using k False by auto
    have "fm_Backing (snd (?ns ! k)) = BackingNode (nodeName i (Suc (?n - 1 - k)))"
      using k lt by (simp add: chainNodes_nth chainFormat_def)
    moreover have "fm_NodeName (snd (?ns ! (k - 1))) = nodeName i (?n - 1 - (k - 1))"
      using k by (simp add: chainNodes_nth chainFormat_def)
    ultimately show ?thesis using own False by (simp only: j if_False simp_thms)
  qed
qed

lemma chain_readonly_below_top:
  "k + 1 < length (d_Chain d) \<Longrightarrow>
     fn_ReadOnly (fst (chainNodes d i ! k)) \<and> fm_ReadOnly (snd (chainNodes d i ! k))"
  by (simp add: chainNodes_nth chainFile_def chainFormat_def)

lemma chain_top:
  assumes "d_Chain d \<noteq> []"
  shows "last (chainNodes d i) = (chainFile d i 0, chainFormat d i 0)"
proof -
  have "chainNodes d i \<noteq> []" using assms by (simp add: chainNodes_def)
  then show ?thesis using assms by (simp add: last_conv_nth chainNodes_nth)
qed

lemma chain_filename:
  "k < length (d_Chain d) \<Longrightarrow> fn_Filename (fst (chainNodes d i ! k)) =
     ''/dev/fdset/'' @ decz (img_FDSet (d_Chain d ! (length (d_Chain d) - 1 - k)))"
  by (simp add: chainNodes_nth chainFile_def)

lemma enumerate_split:
  "i < length xs \<Longrightarrow> enumerate 0 xs = enumerate 0 (take i xs) @ (i, xs ! i) # enumerate (Suc i) (drop (Suc i) xs)"
  by (subst id_take_nth_drop [of i xs]) (simp_all add: enumerate_append_eq)

lemma args_opts_chain:
  assumes "i < length (s_Disks s)" and "d_Chain (s_Disks s ! i) \<noteq> []"
  shows "\<exists>pre post. args_opts s = pre @ chain_opts (s_Disks s ! i) i
     @ (''-device'', Some (diskDevice i (s_Disks s ! i))) # post"
proof -
  have "disks_opts s = concat (map disk_opts (enumerate 0 (take i (s_Disks s))))
      @ disk_opts (i, s_Disks s ! i) @ concat (map disk_opts (enumerate (Suc i) (drop (Suc i) (s_Disks s))))"
    unfolding disks_opts_def enumerate_split [OF assms(1)] by simp
  then show ?thesis
    using assms(2) unfolding args_opts_def by (simp add: disk_opts_def) (metis append_assoc)
qed

subsection \<open>Node names\<close>

lemma takeWhile_dec: "x = [] \<or> \<not> is_digit (hd x) \<Longrightarrow> takeWhile is_digit (dec i @ x) = dec i"
proof -
  assume x: "x = [] \<or> \<not> is_digit (hd x)"
  have "takeWhile is_digit (dec i @ x) = dec i @ takeWhile is_digit x"
    by (rule takeWhile_append2) (rule dec_digits)
  moreover have "takeWhile is_digit x = []" using x by (cases x) auto
  ultimately show ?thesis by simp
qed

lemma dec_append_inj:
  assumes "x = [] \<or> \<not> is_digit (hd x)" and "y = [] \<or> \<not> is_digit (hd y)"
  shows "dec i @ x = dec j @ y \<longleftrightarrow> i = j \<and> x = y"
  using takeWhile_dec [OF assms(1), of i] takeWhile_dec [OF assms(2), of j] by auto

lemma not_digit [simp]: "\<not> is_digit (CHR ''-'')" "\<not> is_digit (CHR ''f'')"
  by (simp_all add: is_digit_def)

lemma dec_not_f: "dec j @ x \<noteq> CHR ''f'' # y" "CHR ''f'' # y \<noteq> dec j @ x"
proof -
  show "dec j @ x \<noteq> CHR ''f'' # y"
    by (metis dec_digits dec_nonempty hd_append2 hd_in_set list.sel(1) not_digit(2))
  then show "CHR ''f'' # y \<noteq> dec j @ x" by metis
qed

definition node_tail :: "nat \<Rightarrow> string \<Rightarrow> string" where
  "node_tail j x = (if j = 0 then x else CHR ''-'' # dec j @ x)"

lemma nodeName_tail: "nodeName i j @ x = ''blk'' @ dec i @ node_tail j x"
  by (simp add: nodeName_def node_tail_def)

lemma node_tail_inj:
  assumes "x = [] \<or> x = ''-file''" and "y = [] \<or> y = ''-file''"
  shows "node_tail j x = node_tail j' y \<longleftrightarrow> j = j' \<and> x = y"
proof -
  have tails: "x = [] \<or> \<not> is_digit (hd x)" "y = [] \<or> \<not> is_digit (hd y)" using assms by auto
  have "CHR ''-'' # dec k @ z \<noteq> x" "CHR ''-'' # dec k @ z \<noteq> y" for k z
    using assms dec_not_f [where j = k and x = z] by auto
  then show ?thesis
    by (cases "j = 0"; cases "j' = 0") (auto simp: node_tail_def dec_append_inj [OF tails] dest: sym)
qed

lemma nodeName_suffix:
  assumes "x = [] \<or> x = ''-file''" and "y = [] \<or> y = ''-file''"
  shows "nodeName i j @ x = nodeName i' j' @ y \<longleftrightarrow> i = i' \<and> j = j' \<and> x = y"
proof -
  have "node_tail j x = [] \<or> \<not> is_digit (hd (node_tail j x))"
    and "node_tail j' y = [] \<or> \<not> is_digit (hd (node_tail j' y))"
    using assms by (auto simp: node_tail_def)
  then show ?thesis
    by (simp add: nodeName_tail dec_append_inj node_tail_inj [OF assms])
qed

text \<open>The names of the block nodes of one disk, and of a machine: a \<^verbatim>\<open>-drive\<close>'s id is one.\<close>

definition disk_nodes :: "nat \<times> disk \<Rightarrow> string list" where
  "disk_nodes p = (case p of (i, d) \<Rightarrow>
     if d_Chain d \<noteq> []
     then map (\<lambda>n. fn_NodeName (fst n)) (chainNodes d i) @ map (\<lambda>n. fm_NodeName (snd n)) (chainNodes d i)
     else [nodeName i 0])"

definition block_nodes :: "spec \<Rightarrow> string list" where
  "block_nodes s = concat (map disk_nodes (enumerate 0 (s_Disks s)))"

lemma disk_nodes_eq:
  "disk_nodes (i, d) = (if d_Chain d \<noteq> []
     then map (\<lambda>j. nodeName i j @ ''-file'') (rev [0..<length (d_Chain d)])
       @ map (\<lambda>j. nodeName i j @ []) (rev [0..<length (d_Chain d)])
     else [nodeName i 0 @ []])"
  by (simp add: disk_nodes_def chainNodes_def chainFile_def chainFormat_def)

lemma disk_nodes_distinct: "distinct (disk_nodes (i, d))"
proof (cases "d_Chain d = []")
  case True
  then show ?thesis by (simp add: disk_nodes_eq)
next
  case False
  have "inj_on (\<lambda>j. nodeName i j @ ''-file'') A" and "inj_on (\<lambda>j. nodeName i j @ []) A" for A
    using nodeName_suffix by (intro inj_onI; blast)+
  moreover have "nodeName i j @ ''-file'' \<noteq> nodeName i k @ []" for j k
    using nodeName_suffix by blast
  ultimately show ?thesis
    using False unfolding disk_nodes_eq by (auto simp: distinct_map simp del: append_Nil2)
qed

lemma disk_nodes_prefix: "w \<in> set (disk_nodes (i, d)) \<Longrightarrow> \<exists>j x. w = nodeName i j @ x \<and> (x = [] \<or> x = ''-file'')"
  unfolding disk_nodes_eq by (auto simp del: append_Nil2 split: if_splits)

lemma distinct_concat_enumerate:
  assumes "\<And>i x. distinct (f (i, x))"
    and "\<And>i j x y w. w \<in> set (f (i, x)) \<Longrightarrow> w \<in> set (f (j, y)) \<Longrightarrow> i = j"
  shows "distinct (concat (map f (enumerate k xs)))"
proof (induction xs arbitrary: k)
  case Nil
  then show ?case by simp
next
  case (Cons x xs)
  have "w \<notin> set (f (i, y))" if "w \<in> set (f (k, x))" and "(i, y) \<in> set (enumerate (Suc k) xs)" for w i y
    using assms(2) [of w k x i y] that by (auto simp: in_set_enumerate_eq)
  then show ?case using Cons assms(1) by auto
qed

lemma block_nodes_distinct: "distinct (block_nodes s)"
  unfolding block_nodes_def
proof (rule distinct_concat_enumerate)
  show "distinct (disk_nodes (i, d))" for i d by (rule disk_nodes_distinct)
  show "i = j" if "w \<in> set (disk_nodes (i, x))" and "w \<in> set (disk_nodes (j, y))" for i j x y w
    using disk_nodes_prefix [OF that(1)] disk_nodes_prefix [OF that(2)] nodeName_suffix by blast
qed

subsection \<open>The nodes as QEMU reads them\<close>

lemma ascii_nodeName [simp]: "ascii (nodeName i j)"
  by (simp add: nodeName_def byte_in_def)

lemma node_reads_back:
  assumes "utf8_json j" and "no_other j"
  shows "json_parse (encodeNode j) = Some j"
  using json_written(1) [OF assms(2)] valid_json_utf8 [OF assms(1)] by (simp add: encodeNode_def)

lemma chainFile_reads_back: "json_parse (encodeNode (fileNode_json (chainFile d i j))) = Some (fileNode_json (chainFile d i j))"
  by (rule node_reads_back) (simp_all add: fileNode_json_def chainFile_def ascii_valid byte_in_def split: option.split)

lemma chainFormat_reads_back:
  assumes "img_Format (d_Chain d ! j) \<in> set diskFormats"
  shows "json_parse (encodeNode (formatNode_json (chainFormat d i j))) = Some (formatNode_json (chainFormat d i j))"
proof (rule node_reads_back)
  have "ascii (img_Format (d_Chain d ! j))" using assms by (auto simp: diskFormats_def byte_in_def)
  then show "utf8_json (formatNode_json (chainFormat d i j))"
    by (simp add: formatNode_json_def chainFormat_def ascii_valid byte_in_def split: backing.split)
qed (simp add: formatNode_json_def split: backing.split)

lemma chain_reads_back:
  assumes "chain_ok sets (d_Chain d)" and "n \<in> set (chainNodes d i)"
  shows "json_parse (encodeNode (fileNode_json (fst n))) = Some (fileNode_json (fst n))
    \<and> json_parse (encodeNode (formatNode_json (snd n))) = Some (formatNode_json (snd n))"
proof -
  obtain j where j: "j < length (d_Chain d)" and n: "n = (chainFile d i j, chainFormat d i j)"
    using assms(2) by (auto simp: chainNodes_def)
  have "img_Format (d_Chain d ! j) \<in> set diskFormats" using assms(1) j by (auto simp: chain_ok_def)
  then show ?thesis using chainFile_reads_back chainFormat_reads_back n by simp
qed

subsection \<open>Properties\<close>

text \<open>C8: A disk given as a chain reaches QEMU as a closed chain. On a command line \<^verbatim>\<open>Args\<close>
  returns, its nodes come base first, just before the device on them; each format node stands
  on its own file node and is backed by the node before it, and the base by null or, for a raw
  image, by no option at all, so no backing name of a header is followed; every node below the
  top is read-only; every file node opens a descriptor set the spec declares, and the top is
  the node the device names; and the JSON each node is written as reads back as that node.\<close>

theorem chain_reaches_qemu_closed:
  assumes "Args s = Inr args" and "i < length (s_Disks s)" and "d = s_Disks s ! i" and "d_Chain d \<noteq> []"
  shows "(\<exists>pre post. argv_opts args = pre @ chain_opts d i @ (''-device'', Some (diskDevice i d)) # post)
    \<and> chain_closed (chainNodes d i)
    \<and> (\<forall>k. k + 1 < length (chainNodes d i) \<longrightarrow>
         fn_ReadOnly (fst (chainNodes d i ! k)) \<and> fm_ReadOnly (snd (chainNodes d i ! k)))
    \<and> (\<forall>k < length (chainNodes d i). \<exists>st \<in> set (s_FDSets s).
         fn_Filename (fst (chainNodes d i ! k)) = ''/dev/fdset/'' @ decz (set_ID st))
    \<and> fm_NodeName (snd (last (chainNodes d i))) = ''blk'' @ dec i
    \<and> opt_parts (diskDevice i d) ! 1 = ''drive=blk'' @ dec i
    \<and> (\<forall>n \<in> set (chainNodes d i). json_parse (encodeNode (fileNode_json (fst n))) = Some (fileNode_json (fst n))
         \<and> json_parse (encodeNode (formatNode_json (snd n))) = Some (formatNode_json (snd n)))"
proof -
  have ok: "spec_ok s" and opts: "argv_opts args = args_opts s"
    using assms(1) by (simp_all add: Args_Inr argv_opts_argv args_whole)
  have "disk_ok (set_ids s) d" using ok assms(2,3) by (simp add: spec_ok_def)
  then have chain: "chain_ok (set_ids s) (d_Chain d)" using assms(4) by (simp add: disk_ok_def)
  note read_back = chain_reads_back [OF chain]
  have "\<exists>pre post. argv_opts args = pre @ chain_opts d i @ (''-device'', Some (diskDevice i d)) # post"
    unfolding opts assms(3) by (rule args_opts_chain) (use assms in auto)
  moreover have "\<exists>st \<in> set (s_FDSets s). fn_Filename (fst (chainNodes d i ! k)) = ''/dev/fdset/'' @ decz (set_ID st)"
    if "k < length (chainNodes d i)" for k
  proof -
    let ?img = "d_Chain d ! (length (d_Chain d) - 1 - k)"
    have "?img \<in> set (d_Chain d)" using that by simp
    then have "set_ids s (img_FDSet ?img)" using chain unfolding chain_ok_def by blast
    then show ?thesis using that chain_filename [of k d i] by (auto simp: set_ids_def)
  qed
  moreover have "fm_NodeName (snd (last (chainNodes d i))) = ''blk'' @ dec i"
    using chain_top [OF assms(4)] by (simp add: chainFormat_def nodeName_def)
  moreover have "opt_parts (diskDevice i d) ! 1 = ''drive=blk'' @ dec i"
    unfolding opt_parts_diskDevice by (simp add: disk_parts_def)
  ultimately show ?thesis
    using chain_closed_chainNodes [of d i] chain_readonly_below_top [of _ d i] read_back by simp
qed

theorem chain_reaches_qemu_closed_witness:
  "fm_NodeName (snd (last (chainNodes (s_Disks sample_spec ! 1) 1))) = ''blk1''
   \<and> fm_Backing (snd (chainNodes (s_Disks sample_spec ! 1) 1 ! 1)) = BackingNode ''blk1-1''"
proof -
  have "1 < length (s_Disks sample_spec)" and c: "d_Chain (s_Disks sample_spec ! 1) \<noteq> []"
    by (simp_all add: sample_spec_def)
  from chain_reaches_qemu_closed [OF sample_args this(1) refl c]
  have "fm_NodeName (snd (last (chainNodes (s_Disks sample_spec ! 1) 1))) = ''blk'' @ dec 1" by blast
  moreover have "dec 1 = ''1''" by code_simp
  moreover have "fm_Backing (snd (chainNodes (s_Disks sample_spec ! 1) 1 ! 1)) = BackingNode ''blk1-1''"
    by code_simp
  ultimately show ?thesis by simp
qed

text \<open>No two block nodes of a machine have the same name, whatever mix of paths and chains
  its disks are: the drive ids, the format nodes and the file nodes of every layer of every
  disk.\<close>

theorem block_node_names_are_distinct: "distinct (block_nodes s)"
  by (rule block_nodes_distinct)

end
