(* ===== verification/Go_Files.thy ===== *)
theory Go_Files
  imports Go_Strings Prelude
begin

text \<open>
  What the program uses of Go's \<^verbatim>\<open>os\<close>, \<^verbatim>\<open>path/filepath\<close> and \<^verbatim>\<open>bufio\<close>.

  A run of the program sees the file system through a record of what each call answers:
  \<open>os_stat\<close> a file's size, \<open>os_open\<close> the bytes a file yields and the error its last read ends
  with, if not the end of the file, \<open>os_getwd\<close> the working directory. \<^verbatim>\<open>filepath.Clean\<close>,
  \<^verbatim>\<open>Join\<close> and \<^verbatim>\<open>Abs\<close> are the lexical functions on slash-separated paths. \<open>scan\<close> is a
  \<^verbatim>\<open>bufio.Scanner\<close> with its default split and buffer: the lines without their end, a single
  carriage return dropped, and an error at a line of 65536 bytes or more.
\<close>

datatype os_error = ErrNotExist | OSError string

record os_env =
  os_stat :: "string \<Rightarrow> (os_error, int) result"
  os_open :: "string \<Rightarrow> (os_error, string \<times> os_error option) result"
  os_getwd :: "(os_error, string) result"

subsection \<open>Paths\<close>

fun clean_elems :: "bool \<Rightarrow> string list \<Rightarrow> string list \<Rightarrow> string list" where
  "clean_elems rooted out [] = out"
| "clean_elems rooted out (e # es) =
     (if e = [] \<or> e = ''.'' then clean_elems rooted out es
      else if e = ''..'' then
        (if out \<noteq> [] \<and> last out \<noteq> ''..'' then clean_elems rooted (butlast out) es
         else if rooted then clean_elems rooted out es
         else clean_elems rooted (out @ [e]) es)
      else clean_elems rooted (out @ [e]) es)"

definition IsAbs :: "string \<Rightarrow> bool" where
  "IsAbs path = HasPrefix path ''/''"

definition Clean :: "string \<Rightarrow> string" where
  "Clean path =
     (let body = Join (clean_elems (IsAbs path) [] (Split path (CHR ''/''))) ''/'' in
      if IsAbs path then ''/'' @ body else if body = [] then ''.'' else body)"

text \<open>\<^verbatim>\<open>filepath.Join\<close> of two elements: an empty one is left out.\<close>

definition path_join :: "string \<Rightarrow> string \<Rightarrow> string" where
  "path_join a b =
     (if a = [] \<and> b = [] then [] else if a = [] then Clean b else if b = [] then Clean a
      else Clean (a @ ''/'' @ b))"

definition Abs :: "os_env \<Rightarrow> string \<Rightarrow> (os_error, string) result" where
  "Abs env path =
     (if IsAbs path then Inr (Clean path)
      else case os_getwd env of Inl e \<Rightarrow> Inl e | Inr wd \<Rightarrow> Inr (path_join wd path))"

text \<open>An element \<^verbatim>\<open>Clean\<close> keeps as it is, and a path made of such elements under a root.\<close>

definition plain_elem :: "string \<Rightarrow> bool" where
  "plain_elem e = (e \<noteq> [] \<and> e \<noteq> ''.'' \<and> e \<noteq> ''..'' \<and> CHR ''/'' \<notin> set e)"

definition abs_path :: "string list \<Rightarrow> string" where
  "abs_path es = ''/'' @ Join es ''/''"

lemma clean_elems_plain:
  "list_all plain_elem es \<Longrightarrow> clean_elems rooted out es = out @ es"
  by (induction es arbitrary: out) (simp_all add: plain_elem_def)

lemma clean_elems_rooted_plain:
  assumes "list_all plain_elem out" and "\<forall>e \<in> set es. CHR ''/'' \<notin> set e"
  shows "list_all plain_elem (clean_elems True out es)"
  using assms
proof (induction es arbitrary: out)
  case Nil
  then show ?case by simp
next
  case (Cons e es)
  have "list_all plain_elem (butlast out)"
    using Cons.prems(1) by (auto simp: list_all_iff dest: in_set_butlastD)
  moreover have "plain_elem e" if "e \<noteq> []" "e \<noteq> ''.''" "e \<noteq> ''..''"
    using Cons.prems(2) that by (simp add: plain_elem_def)
  ultimately show ?case using Cons by simp
qed

lemma Split_slash_Cons: "Split (CHR ''/'' # s) (CHR ''/'') = [] # Split s (CHR ''/'')"
  using Split_part [of "CHR ''/''" "[]" s] by simp

lemma Split_Join_plain:
  "list_all plain_elem es \<Longrightarrow> es \<noteq> [] \<Longrightarrow> Split (Join es ''/'') (CHR ''/'') = es"
  by (rule Split_Join) (auto simp: list_all_iff plain_elem_def)

lemma Clean_rooted: "\<exists>es. list_all plain_elem es \<and> Clean (CHR ''/'' # p) = abs_path es"
proof -
  let ?es = "clean_elems True [] (Split p (CHR ''/''))"
  have "Clean (CHR ''/'' # p) = abs_path ?es"
    by (simp add: Clean_def IsAbs_def HasPrefix_def abs_path_def Split_slash_Cons)
  moreover have "list_all plain_elem ?es"
    by (rule clean_elems_rooted_plain) (auto dest: Split_parts_no_sep)
  ultimately show ?thesis by blast
qed

lemma Join_plain_nonempty: "list_all plain_elem es \<Longrightarrow> es \<noteq> [] \<Longrightarrow> Join es sep \<noteq> []"
  by (cases "(es, sep)" rule: Join.cases) (simp_all add: plain_elem_def)

lemma path_join_plain:
  assumes "list_all plain_elem ds" and "list_all plain_elem es" and "es \<noteq> []"
  shows "path_join (abs_path ds) (Join es ''/'') = abs_path (ds @ es)"
proof (cases "ds = []")
  case True
  have body: "Join es ''/'' \<noteq> []"
    by (rule Join_plain_nonempty) (use assms in simp_all)
  have "path_join (abs_path ds) (Join es ''/'') = Clean (CHR ''/'' # CHR ''/'' # Join es ''/'')"
    using True body by (simp add: path_join_def abs_path_def)
  also have "\<dots> = abs_path es"
    using assms(2,3)
    by (simp add: Clean_def IsAbs_def HasPrefix_def Split_slash_Cons Split_Join_plain clean_elems_plain
        abs_path_def)
  finally show ?thesis using True by simp
next
  case False
  have body: "Join es ''/'' \<noteq> []"
    by (rule Join_plain_nonempty) (use assms in simp_all)
  have "path_join (abs_path ds) (Join es ''/'') = Clean (CHR ''/'' # Join (ds @ es) ''/'')"
    using False assms(3) body by (simp add: path_join_def abs_path_def Join_append)
  also have "\<dots> = abs_path (ds @ es)"
    using assms False
    by (simp add: Clean_def IsAbs_def HasPrefix_def Split_slash_Cons Split_Join_plain clean_elems_plain
        abs_path_def)
  finally show ?thesis .
qed

subsection \<open>Lines\<close>

datatype scan_error = ErrTooLong | ReadError os_error

definition maxScanTokenSize :: int where
  "maxScanTokenSize = 65536"

definition raw_lines :: "string \<Rightarrow> string list" where
  "raw_lines s = (let ls = Split s (CHR 0x0A) in if last ls = [] then butlast ls else ls)"

definition dropCR :: "string \<Rightarrow> string" where
  "dropCR l = (if l \<noteq> [] \<and> last l = CHR 0x0D then butlast l else l)"

definition line_fits :: "string \<Rightarrow> bool" where
  "line_fits l = (int (length l) < maxScanTokenSize)"

definition scan :: "string \<Rightarrow> os_error option \<Rightarrow> string list \<times> scan_error option" where
  "scan content rerr =
     (map dropCR (takeWhile line_fits (raw_lines content)),
      if list_all line_fits (raw_lines content) then map_option ReadError rerr else Some ErrTooLong)"

text \<open>A text of lines with their ends is scanned back as those lines.\<close>

definition unlines :: "string list \<Rightarrow> string" where
  "unlines ls = concat (map (\<lambda>l. l @ [CHR 0x0A]) ls)"

lemma Split_unlines: "\<forall>l \<in> set ls. CHR 0x0A \<notin> set l \<Longrightarrow> Split (unlines ls) (CHR 0x0A) = ls @ [[]]"
  by (induction ls) (simp_all add: unlines_def Split_part)

lemma raw_lines_unlines: "\<forall>l \<in> set ls. CHR 0x0A \<notin> set l \<Longrightarrow> raw_lines (unlines ls) = ls"
  by (simp add: raw_lines_def Split_unlines)

lemma dropCR_plain: "CHR 0x0D \<notin> set l \<Longrightarrow> dropCR l = l"
  by (metis dropCR_def last_in_set)

lemma scan_unlines:
  assumes "\<forall>l \<in> set ls. CHR 0x0A \<notin> set l \<and> CHR 0x0D \<notin> set l \<and> line_fits l"
  shows "scan (unlines ls) None = (ls, None)"
proof -
  have "raw_lines (unlines ls) = ls" by (rule raw_lines_unlines) (use assms in blast)
  moreover have "takeWhile line_fits ls = ls" by (rule takeWhile_all) (use assms in blast)
  moreover have "map dropCR ls = ls" using assms by (intro map_idI dropCR_plain) blast
  moreover have "list_all line_fits ls" using assms by (simp add: list_all_iff)
  ultimately show ?thesis unfolding scan_def by (simp only: if_True option.map simp_thms)
qed

end
