(* ===== verification/Go_Sha256.thy ===== *)
theory Go_Sha256
  imports Go_Strings "HOL-Library.Word"
begin

unbundle bit_operations_syntax

text \<open>
  What the machine's fingerprint uses of Go's \<^verbatim>\<open>crypto/sha256\<close> and \<^verbatim>\<open>encoding/hex\<close>: the digest of
  a byte string (FIPS 180-4), on 32-bit words, and its lower-case hexadecimal text. The digest
  of a byte string is 32 bytes long, so its text is 64 hexadecimal digits, and the text
  determines the digest.
\<close>

type_synonym w32 = "32 word"

text \<open>The round constants, in decimal: the first 32 bits of the fractional parts of the cube
  roots of the first 64 primes.\<close>

definition sha_k :: "w32 list" where
  "sha_k = [
    1116352408, 1899447441, 3049323471, 3921009573, 961987163, 1508970993,
    2453635748, 2870763221, 3624381080, 310598401, 607225278, 1426881987,
    1925078388, 2162078206, 2614888103, 3248222580, 3835390401, 4022224774,
    264347078, 604807628, 770255983, 1249150122, 1555081692, 1996064986,
    2554220882, 2821834349, 2952996808, 3210313671, 3336571891, 3584528711,
    113926993, 338241895, 666307205, 773529912, 1294757372, 1396182291,
    1695183700, 1986661051, 2177026350, 2456956037, 2730485921, 2820302411,
    3259730800, 3345764771, 3516065817, 3600352804, 4094571909, 275423344,
    430227734, 506948616, 659060556, 883997877, 958139571, 1322822218,
    1537002063, 1747873779, 1955562222, 2024104815, 2227730452, 2361852424,
    2428436474, 2756734187, 3204031479, 3329325298]"

definition rotr :: "nat \<Rightarrow> w32 \<Rightarrow> w32" where
  "rotr n x = drop_bit n x OR push_bit (32 - n) x"

definition small_sigma0 :: "w32 \<Rightarrow> w32" where
  "small_sigma0 x = rotr 7 x XOR rotr 18 x XOR drop_bit 3 x"

definition small_sigma1 :: "w32 \<Rightarrow> w32" where
  "small_sigma1 x = rotr 17 x XOR rotr 19 x XOR drop_bit 10 x"

definition big_sigma0 :: "w32 \<Rightarrow> w32" where
  "big_sigma0 x = rotr 2 x XOR rotr 13 x XOR rotr 22 x"

definition big_sigma1 :: "w32 \<Rightarrow> w32" where
  "big_sigma1 x = rotr 6 x XOR rotr 11 x XOR rotr 25 x"

definition sha_ch :: "w32 \<Rightarrow> w32 \<Rightarrow> w32 \<Rightarrow> w32" where
  "sha_ch x y z = (x AND y) XOR (NOT x AND z)"

definition sha_maj :: "w32 \<Rightarrow> w32 \<Rightarrow> w32 \<Rightarrow> w32" where
  "sha_maj x y z = (x AND y) XOR (x AND z) XOR (y AND z)"

text \<open>The message schedule, newest word first.\<close>

primrec schedule :: "nat \<Rightarrow> w32 list \<Rightarrow> w32 list" where
  "schedule 0 ws = ws"
| "schedule (Suc n) ws =
     schedule n ((small_sigma1 (ws ! 1) + ws ! 6 + small_sigma0 (ws ! 14) + ws ! 15) # ws)"

record sha_state =
  ha :: w32
  hb :: w32
  hc :: w32
  hd' :: w32
  he :: w32
  hf :: w32
  hg :: w32
  hh :: w32

definition sha_init :: sha_state where
  "sha_init = \<lparr>ha = 0x6a09e667, hb = 0xbb67ae85, hc = 0x3c6ef372, hd' = 0xa54ff53a,
     he = 0x510e527f, hf = 0x9b05688c, hg = 0x1f83d9ab, hh = 0x5be0cd19\<rparr>"

definition sha_round :: "sha_state \<Rightarrow> w32 \<times> w32 \<Rightarrow> sha_state" where
  "sha_round v kw =
     (let t1 = hh v + big_sigma1 (he v) + sha_ch (he v) (hf v) (hg v) + fst kw + snd kw;
          t2 = big_sigma0 (ha v) + sha_maj (ha v) (hb v) (hc v)
      in \<lparr>ha = t1 + t2, hb = ha v, hc = hb v, hd' = hc v,
          he = hd' v + t1, hf = he v, hg = hf v, hh = hg v\<rparr>)"

definition sha_block :: "sha_state \<Rightarrow> w32 list \<Rightarrow> sha_state" where
  "sha_block h block =
     (let v = foldl sha_round h (zip sha_k (rev (schedule 48 (rev block))))
      in \<lparr>ha = ha h + ha v, hb = hb h + hb v, hc = hc h + hc v, hd' = hd' h + hd' v,
          he = he h + he v, hf = hf h + hf v, hg = hg h + hg v, hh = hh h + hh v\<rparr>)"

text \<open>Bytes are numbers from 0 to 255. The padding is a one bit, zeros, and the length in bits.\<close>

definition be_bytes :: "nat \<Rightarrow> int \<Rightarrow> int list" where
  "be_bytes k n = map (\<lambda>i. n div 256 ^ (k - 1 - i) mod 256) [0..<k]"

definition sha_pad :: "int list \<Rightarrow> int list" where
  "sha_pad bs = bs @ [0x80] @ replicate ((119 - length bs mod 64) mod 64) 0 @ be_bytes 8 (8 * int (length bs))"

fun be_words :: "int list \<Rightarrow> w32 list" where
  "be_words (a # b # c # d # bs) = of_int (((a * 256 + b) * 256 + c) * 256 + d) # be_words bs"
| "be_words _ = []"

function blocks :: "w32 list \<Rightarrow> w32 list list" where
  "blocks ws = (if ws = [] then [] else take 16 ws # blocks (drop 16 ws))"
  by pat_completeness auto
termination by (relation "measure length") auto

declare blocks.simps [simp del]

definition state_bytes :: "sha_state \<Rightarrow> int list" where
  "state_bytes h = concat (map (\<lambda>w. be_bytes 4 (uint w)) [ha h, hb h, hc h, hd' h, he h, hf h, hg h, hh h])"

definition sha256 :: "int list \<Rightarrow> int list" where
  "sha256 bs = state_bytes (foldl sha_block sha_init (blocks (be_words (sha_pad bs))))"

definition string_bytes :: "string \<Rightarrow> int list" where
  "string_bytes s = map of_char s"

definition EncodeToString :: "int list \<Rightarrow> string" where
  "EncodeToString bs = concat (map (\<lambda>b. [digit (nat (b div 16)), digit (nat (b mod 16))]) bs)"

lemma be_bytes_length [simp]: "length (be_bytes k n) = k"
  by (simp add: be_bytes_def)

lemma be_bytes_byte: "b \<in> set (be_bytes k n) \<Longrightarrow> 0 \<le> b \<and> b < 256"
  by (auto simp: be_bytes_def)

lemma sha_pad_length: "64 dvd length (sha_pad bs)"
proof -
  obtain q r where n: "length bs = 64 * q + r" and r: "r < 64"
    by (metis div_mult_mod_eq mod_less_divisor mult.commute zero_less_numeral)
  have "length (sha_pad bs) = 64 * q + r + 9 + (119 - r) mod 64"
    using r by (simp add: sha_pad_def n)
  also have "\<dots> = 64 * (if r \<le> 55 then q + 1 else q + 2)"
    using r by (cases "r \<le> 55") (simp_all add: le_mod_geq)
  finally show ?thesis by simp
qed

lemma sha256_length [simp]: "length (sha256 bs) = 32"
  by (simp add: sha256_def state_bytes_def)

lemma sha256_byte: "b \<in> set (sha256 bs) \<Longrightarrow> 0 \<le> b \<and> b < 256"
  by (auto simp: sha256_def state_bytes_def dest: be_bytes_byte)

lemma EncodeToString_length [simp]: "length (EncodeToString bs) = 2 * length bs"
  by (induction bs) (simp_all add: EncodeToString_def)

lemma digit_inj: "d < 36 \<Longrightarrow> e < 36 \<Longrightarrow> digit d = digit e \<Longrightarrow> d = e"
  by (metis digit_val_digit)

lemma hex_byte_inj:
  assumes "0 \<le> x \<and> x < 256" and "0 \<le> y \<and> y < 256"
    and "digit (nat (x div 16)) = digit (nat (y div 16))" and "digit (nat (x mod 16)) = digit (nat (y mod 16))"
  shows "x = y"
proof -
  have "nat (x div 16) = nat (y div 16)" by (rule digit_inj [OF _ _ assms(3)]) (use assms(1,2) in auto)
  moreover have "nat (x mod 16) = nat (y mod 16)"
    by (rule digit_inj [OF _ _ assms(4)]) (use assms(1,2) in auto)
  ultimately have "x div 16 = y div 16" "x mod 16 = y mod 16"
    using assms(1,2) by (simp_all add: eq_nat_nat_iff pos_imp_zdiv_nonneg_iff)
  then have "x div 16 * 16 + x mod 16 = y div 16 * 16 + y mod 16" by (simp only:)
  then show ?thesis by (simp only: div_mult_mod_eq)
qed

lemma EncodeToString_Nil_iff: "EncodeToString bs = [] \<longleftrightarrow> bs = []"
  by (metis EncodeToString_length length_0_conv mult_eq_0_iff zero_neq_numeral)

lemma EncodeToString_Cons:
  "EncodeToString (b # bs) = digit (nat (b div 16)) # digit (nat (b mod 16)) # EncodeToString bs"
  by (simp add: EncodeToString_def)

lemma EncodeToString_inj:
  assumes "\<forall>b \<in> set xs. 0 \<le> b \<and> b < 256" and "\<forall>b \<in> set ys. 0 \<le> b \<and> b < 256"
    and "EncodeToString xs = EncodeToString ys"
  shows "xs = ys"
  using assms
proof (induction xs arbitrary: ys)
  case Nil
  have "ys = []" using Nil(3) EncodeToString_Nil_iff by metis
  then show ?case by (simp only:)
next
  case (Cons x xs)
  have "ys \<noteq> []" using Cons.prems(3) EncodeToString_Nil_iff [of "x # xs"] EncodeToString_Nil_iff [of ys]
    by (metis list.distinct(2))
  then obtain y zs where ys: "ys = y # zs" by (metis list.exhaust)
  from Cons.prems(3) have d: "digit (nat (x div 16)) = digit (nat (y div 16))" "digit (nat (x mod 16)) = digit (nat (y mod 16))"
    and rest: "EncodeToString xs = EncodeToString zs"
    unfolding ys EncodeToString_Cons by (simp_all only: list.inject)
  have "x = y" by (rule hex_byte_inj [OF _ _ d]) (use Cons.prems(1,2) ys in simp_all)
  moreover have "xs = zs"
    by (rule Cons.IH [OF _ _ rest]) (use Cons.prems(1,2) ys in simp_all)
  ultimately show ?case by (simp only: ys)
qed

lemma string_bytes_inj: "string_bytes s = string_bytes t \<longleftrightarrow> s = t"
  by (simp add: string_bytes_def inj_map_eq_map inj_def)

end
