(* ===== verification/Machine_Fingerprint.thy ===== *)
theory Machine_Fingerprint
  imports Machine_Slots Go_Files Go_Sha256
begin

text \<open>
  The machine's identity: \<^verbatim>\<open>Contract\<close>, \<^verbatim>\<open>Fingerprint\<close> and what they call, the end of
  \<^verbatim>\<open>machine/machine.go\<close>.

  The digest is SHA-256 of a stream of frames \<^verbatim>\<open>key=length:value\<close>; \<open>framing\<close> is interpreted on
  that frame, so a stream determines the keys and values written to it. The contract is brought
  to an explicit list (\<open>Contract_eq\<close>), and from that the stream is shown to determine, and be
  determined by, the record \<open>hardware\<close>: what a guest sees of its machine and nothing of the VM.
\<close>

subsection \<open>The contract\<close>

definition vmProperties :: "string list" where
  "vmProperties = [''id'', ''netdev'', ''memdev'', ''mac'', ''guest-cid'', ''vhostfd'']"

definition withoutTheVMs :: "string \<Rightarrow> string" where
  "withoutTheVMs dev =
     (let parts = Split dev (CHR '','') in
      Join (hd parts # filter (\<lambda>p. fst (Cut p (CHR ''='')) \<notin> set vmProperties) (tl parts)) '','')"

text \<open>The loop over the arguments: a flag it takes consumes the value after it, anything else is
  stepped over one by one, and the last argument alone is never looked at.\<close>

fun contract_scan :: "argv \<Rightarrow> string list" where
  "contract_scan (a # b # rest) =
     (if a = ''-global'' then (''global '' @ b) # contract_scan rest
      else if a = ''-device'' then (''device '' @ withoutTheVMs b) # contract_scan rest
      else contract_scan (b # rest))"
| "contract_scan _ = []"

definition Contract :: "spec \<Rightarrow> string list" where
  "Contract s =
     (let args = appendNICs s (appendDevices s (appendChipset [])) in
      contract_scan args @ (if s_Serial s \<noteq> [] \<or> s_SerialFDSet s \<noteq> 0 then [''serial isa-serial''] else []))"

definition BIOSBlock :: string where
  "BIOSBlock = ''pc.bios''"

definition MachineBlocks :: "string list" where
  "MachineBlocks = [''pc.rom'', ''/rom@etc/acpi/tables'', ''/rom@etc/table-loader'', ''/rom@etc/acpi/rsdp'']"

subsection \<open>The fingerprint\<close>

datatype cpu_error = CPUOpen os_error | CPURead scan_error | NoModelName

fun model_name :: "string list \<Rightarrow> string option" where
  "model_name [] = None"
| "model_name (l # ls) =
     (let (name, ok) = CutPrefix l ''model name'' in
      if \<not> ok then model_name ls
      else (let (_, value, found) = Cut name (CHR '':'') in
            if found then Some (TrimSpace value) else model_name ls))"

definition hostCPUModel :: "os_env \<Rightarrow> (cpu_error, string) result" where
  "hostCPUModel env =
     (case os_open env ''/proc/cpuinfo'' of
        Inl e \<Rightarrow> Inl (CPUOpen e)
      | Inr (content, rerr) \<Rightarrow>
          (let (ls, err) = scan content rerr in
           case model_name ls of
             Some m \<Rightarrow> Inr m
           | None \<Rightarrow> (case err of Some e \<Rightarrow> Inl (CPURead e) | None \<Rightarrow> Inl NoModelName)))"

definition fileSize :: "os_env \<Rightarrow> string \<Rightarrow> (os_error, int) result" where
  "fileSize env path = os_stat env path"

datatype fingerprint_error = BIOSError os_error | HostCPUError string cpu_error

definition write_frame :: "string \<times> string \<Rightarrow> string" where
  "write_frame kv = fst kv @ ''='' @ dec (length (snd kv)) @ '':'' @ snd kv @ [CHR 0x0A]"

definition shape_writes :: "spec \<Rightarrow> (string \<times> string) list" where
  "shape_writes s = (let shape = Shape s in
     [(''machine'', sh_Machine shape), (''accel'', sh_Accel shape), (''cpu'', sh_CPU shape),
      (''smp'', sh_SMP shape), (''memory'', sh_Memory shape)])"

definition machine_writes :: "int \<Rightarrow> spec \<Rightarrow> (string \<times> string) list" where
  "machine_writes sz s =
     [(''bios-size'', decz sz)] @ shape_writes s @ map (\<lambda>c. (''contract'', c)) (Contract s)"

definition digest :: "(string \<times> string) list \<Rightarrow> string" where
  "digest kvs = EncodeToString (sha256 (string_bytes (concat (map write_frame kvs))))"

definition fingerprint_writes ::
  "os_env \<Rightarrow> (cpu_error, string) result \<Rightarrow> spec \<Rightarrow> (fingerprint_error, (string \<times> string) list) result" where
  "fingerprint_writes env hostCPU s =
     (case fileSize env (path_join (s_Firmware s) (spec_bios s)) of
        Inl e \<Rightarrow> Inl (BIOSError e)
      | Inr sz \<Rightarrow>
          (let model = fst (Cut (sh_CPU (Shape s)) (CHR '','')) in
           if derivedFromHost model then
             (case hostCPU of
                Inl e \<Rightarrow> Inl (HostCPUError model e)
              | Inr cpu \<Rightarrow> Inr (machine_writes sz s @ [(''host-cpu'', cpu)]))
           else Inr (machine_writes sz s)))"

definition fingerprint ::
  "os_env \<Rightarrow> (cpu_error, string) result \<Rightarrow> spec \<Rightarrow> (fingerprint_error, string) result" where
  "fingerprint env hostCPU s =
     (case fingerprint_writes env hostCPU s of Inl e \<Rightarrow> Inl e | Inr kvs \<Rightarrow> Inr (digest kvs))"

definition Fingerprint :: "os_env \<Rightarrow> spec \<Rightarrow> (fingerprint_error, string) result" where
  "Fingerprint env s = fingerprint env (hostCPUModel env) s"

subsection \<open>The stream determines what was written\<close>

definition read_frame :: "string \<Rightarrow> ((string \<times> string) \<times> string) option" where
  "read_frame s =
     (let (key, r, f1) = Cut s (CHR ''=''); (len, r', f2) = Cut r (CHR '':''); n = undigits 10 len in
      if f1 \<and> f2 \<and> n < length r' then Some ((key, take n r'), drop (Suc n) r') else None)"

definition key_ok :: "string \<times> string \<Rightarrow> bool" where
  "key_ok kv = (CHR ''='' \<notin> set (fst kv))"

lemma undigits_dec [simp]: "undigits 10 (dec n) = n"
  by (simp add: dec_def undigits_base)

lemma no_colon_dec: "CHR '':'' \<notin> set (dec n)"
  using dec_digits [of "CHR '':''" n] by (auto simp: is_digit_def)

interpretation frame: framing write_frame read_frame key_ok
proof
  fix kv :: "string \<times> string" and rest
  assume "key_ok kv"
  then have "Cut (write_frame kv @ rest) (CHR ''='')
      = (fst kv, dec (length (snd kv)) @ CHR '':'' # snd kv @ CHR 0x0A # rest, True)"
    using Cut_found [of "CHR ''=''" "fst kv"] by (simp add: write_frame_def key_ok_def)
  moreover have "Cut (dec (length (snd kv)) @ CHR '':'' # snd kv @ CHR 0x0A # rest) (CHR '':'')
      = (dec (length (snd kv)), snd kv @ CHR 0x0A # rest, True)"
    by (rule Cut_found) (rule no_colon_dec)
  ultimately show "read_frame (write_frame kv @ rest) = Some (kv, rest)"
    by (simp add: read_frame_def Let_def)
next
  show "write_frame kv \<noteq> []" for kv by (simp add: write_frame_def)
qed

lemma machine_writes_keys: "list_all key_ok (machine_writes sz s)"
  by (simp add: machine_writes_def shape_writes_def Let_def key_ok_def list_all_iff)

lemma fingerprint_writes_keys: "fingerprint_writes env cpu s = Inr kvs \<Longrightarrow> list_all key_ok kvs"
  using machine_writes_keys
  by (auto simp: fingerprint_writes_def key_ok_def Let_def split: sum.splits if_splits)

lemma digest_eq:
  "digest kvs = digest kvs' \<longleftrightarrow>
     sha256 (string_bytes (concat (map write_frame kvs))) = sha256 (string_bytes (concat (map write_frame kvs')))"
proof
  assume "digest kvs = digest kvs'"
  then show "sha256 (string_bytes (concat (map write_frame kvs))) = sha256 (string_bytes (concat (map write_frame kvs')))"
    unfolding digest_def by (rule EncodeToString_inj [rotated 2]) (auto dest: sha256_byte)
qed (simp only: digest_def)

subsection \<open>The contract as a list\<close>

definition contract_flags :: "string list" where
  "contract_flags = [''-global'', ''-device'']"

definition contract_opt :: "string \<times> string option \<Rightarrow> string list" where
  "contract_opt o' = (case snd o' of None \<Rightarrow> [] | Some v \<Rightarrow>
     if fst o' = ''-global'' then [''global '' @ v]
     else if fst o' = ''-device'' then [''device '' @ withoutTheVMs v] else [])"

text \<open>An option the loop cannot mistake: a flag it takes has a value, and the value of another
  flag is not itself such a flag.\<close>

definition clear_opt :: "string \<times> string option \<Rightarrow> bool" where
  "clear_opt o' = (case snd o' of None \<Rightarrow> fst o' \<notin> set contract_flags
     | Some v \<Rightarrow> fst o' \<in> set contract_flags \<or> v \<notin> set contract_flags)"

lemma contract_scan_skip: "a \<notin> set contract_flags \<Longrightarrow> contract_scan (a # rest) = contract_scan rest"
  by (cases rest) (simp_all add: contract_flags_def)

lemma contract_scan_opts:
  "list_all clear_opt os \<Longrightarrow> contract_scan (opts_argv os) = concat (map contract_opt os)"
proof (induction os rule: opts_argv.induct)
  case 1
  then show ?case by simp
next
  case (2 f os)
  then show ?case by (simp add: clear_opt_def contract_opt_def contract_scan_skip)
next
  case (3 f v os)
  then show ?case
    by (cases "f \<in> set contract_flags")
      (auto simp: clear_opt_def contract_opt_def contract_flags_def contract_scan_skip)
qed

lemma clear_devices: "list_all clear_opt (device_opts s)"
  by (simp add: device_opts_def clear_opt_def contract_flags_def growthObject_def)

lemma clear_nics: "list_all clear_opt (nics_opts s)"
  by (auto simp: nics_opts_def nic_opts_def nicNetdev_def clear_opt_def contract_flags_def whole_simps)

lemma withoutTheVMs_Join:
  assumes "ps \<noteq> []" and "\<forall>p \<in> set ps. CHR '','' \<notin> set p"
  shows "withoutTheVMs (Join ps '','') =
     Join (hd ps # filter (\<lambda>p. fst (Cut p (CHR ''='')) \<notin> set vmProperties) (tl ps)) '',''"
  by (simp add: withoutTheVMs_def Split_Join [OF assms])

definition vsock_line :: string where
  "vsock_line = ''device vhost-vsock-pci,disable-legacy=on,addr=0x2''"

definition mem_line :: string where
  "mem_line = ''device virtio-mem-pci,requested-size=0,disable-legacy=on,addr=0x1e''"

definition scsi_line :: string where
  "scsi_line = ''device virtio-scsi-pci,disable-legacy=on,addr=0x1a''"

definition nic_line :: "nat \<Rightarrow> int \<Rightarrow> string" where
  "nic_line i mtu = ''device virtio-net-pci,romfile=,disable-legacy=on,addr=0x'' @ hex (slotNICBase + i)
     @ (if mtu > 0 then '',host_mtu='' @ decz mtu else [])"

definition fixed_lines :: "string list" where
  "fixed_lines =
     [''global ICH9-LPC.disable_s3=1'', ''global ICH9-LPC.disable_s4=1'',
      ''global ICH9-LPC.acpi-pci-hotplug-with-bridge-support=off'', ''device vmgenid,guid=auto'',
      ''device virtio-rng-pci,disable-legacy=on,addr=0x3'',
      ''device virtio-balloon-pci,free-page-reporting=on,deflate-on-oom=on,disable-legacy=on,addr=0x4'']"

lemma vsock_withoutTheVMs: "''device '' @ withoutTheVMs (vsockDevice s) = vsock_line"
proof -
  have "withoutTheVMs (vsockDevice s) = Join (hd (vsock_parts s) #
      filter (\<lambda>p. fst (Cut p (CHR ''='')) \<notin> set vmProperties) (tl (vsock_parts s))) '',''"
    unfolding vsockDevice_parts
    by (rule withoutTheVMs_Join) (use vsock_parts_nonempty vsock_parts_ok in auto)
  moreover have "hex slotVsock = ''2''" by code_simp
  ultimately show ?thesis by (simp add: vsock_parts_def Cut_fst vmProperties_def vsock_line_def)
qed

lemma fixed_withoutTheVMs:
  "map (\<lambda>d. ''device '' @ withoutTheVMs d) [''vmgenid,guid=auto'', rngDevice, balloonDevice, memDevice, scsiDevice]
     = drop 3 fixed_lines @ [mem_line, scsi_line]"
  by code_simp

lemma nic_withoutTheVMs:
  assumes "CHR '','' \<notin> set (n_MAC n)"
  shows "''device '' @ withoutTheVMs (nicDevice i n) = nic_line i (n_MTU n)"
proof -
  have "withoutTheVMs (nicDevice i n) = Join (hd (nic_parts i n) #
      filter (\<lambda>p. fst (Cut p (CHR ''='')) \<notin> set vmProperties) (tl (nic_parts i n))) '',''"
    unfolding nicDevice_parts
    by (rule withoutTheVMs_Join) (use nic_parts_nonempty nic_parts_ok [OF assms] in auto)
  then show ?thesis by (simp add: nic_parts_def Cut_fst vmProperties_def nic_line_def)
qed

lemma contract_nic_opts:
  "concat (map contract_opt (concat (map nic_opts ps))) = map (\<lambda>(i, n). ''device '' @ withoutTheVMs (nicDevice i n)) ps"
  by (induction ps) (auto simp: nic_opts_def contract_opt_def)

lemma Contract_eq:
  assumes "\<forall>n \<in> set (s_NICs s). CHR '','' \<notin> set (n_MAC n)"
  shows "Contract s = fixed_lines
     @ (if s_VsockCID s \<noteq> 0 then [vsock_line] else [])
     @ (if m_MaxMB (s_Memory s) > m_SizeMB (s_Memory s) then [mem_line] else [])
     @ (if s_HotplugDisks s > 0 then [scsi_line] else [])
     @ map (\<lambda>(i, n). nic_line i (n_MTU n)) (enumerate 0 (s_NICs s))
     @ (if s_Serial s \<noteq> [] \<or> s_SerialFDSet s \<noteq> 0 then [''serial isa-serial''] else [])"
proof -
  have clear: "list_all clear_opt (chipset_opts s @ device_opts s @ nics_opts s)"
    using clear_devices clear_nics by (simp add: chipset_opts_def clear_opt_def contract_flags_def)
  have args: "appendNICs s (appendDevices s (appendChipset [])) = opts_argv (chipset_opts s @ device_opts s @ nics_opts s)"
    by (simp add: nics.app_opts devices.app_opts chipset.app_opts [of _ s])
  have chipset: "concat (map contract_opt (chipset_opts s)) = take 3 fixed_lines"
    by (simp add: chipset_opts_def contract_opt_def fixed_lines_def)
  have devices: "concat (map contract_opt (device_opts s)) = drop 3 fixed_lines
     @ (if s_VsockCID s \<noteq> 0 then [vsock_line] else [])
     @ (if m_MaxMB (s_Memory s) > m_SizeMB (s_Memory s) then [mem_line] else [])
     @ (if s_HotplugDisks s > 0 then [scsi_line] else [])"
    using fixed_withoutTheVMs vsock_withoutTheVMs [of s]
    by (simp add: device_opts_def contract_opt_def fixed_lines_def)
  have nics: "concat (map contract_opt (nics_opts s)) = map (\<lambda>(i, n). nic_line i (n_MTU n)) (enumerate 0 (s_NICs s))"
  proof -
    have "concat (map contract_opt (nics_opts s)) = map (\<lambda>(i, n). ''device '' @ withoutTheVMs (nicDevice i n)) (enumerate 0 (s_NICs s))"
      unfolding nics_opts_def contract_nic_opts ..
    also have "\<dots> = map (\<lambda>(i, n). nic_line i (n_MTU n)) (enumerate 0 (s_NICs s))"
      using assms nic_withoutTheVMs by (auto simp: in_set_enumerate_eq)
    finally show ?thesis .
  qed
  have "take 3 fixed_lines @ drop 3 fixed_lines = fixed_lines" by (rule append_take_drop_id)
  then show ?thesis
    unfolding Contract_def Let_def args contract_scan_opts [OF clear] map_append concat_append chipset devices nics
    by (simp only: append_assoc [symmetric])
qed

subsection \<open>The hardware a fingerprint names\<close>

text \<open>What a guest sees of its machine: the accelerator and CPU, how many CPUs and how much
  memory it starts with and may grow to, which devices are there, each NIC's announced MTU, the
  size of the BIOS, and, when the guest is shown it, the host's CPU.\<close>

record hardware =
  hw_bios :: "(os_error, int) result"
  hw_accel :: string
  hw_cpu :: string
  hw_hostcpu :: "(cpu_error, string) result option"
  hw_bootcpus :: int
  hw_maxcpus :: int
  hw_memMB :: int
  hw_maxmemMB :: int
  hw_vsock :: bool
  hw_hotplug :: bool
  hw_serial :: bool
  hw_mtus :: "int list"

definition hardware_of :: "os_env \<Rightarrow> (cpu_error, string) result \<Rightarrow> spec \<Rightarrow> hardware" where
  "hardware_of env hostCPU s =
     \<lparr>hw_bios = fileSize env (path_join (s_Firmware s) (spec_bios s)),
      hw_accel = spec_accel s, hw_cpu = cpuModel s,
      hw_hostcpu = (if derivedFromHost (cpuModel s) then Some hostCPU else None),
      hw_bootcpus = s_BootCPUs s,
      hw_maxcpus = (if s_MaxCPUs s > 0 then s_MaxCPUs s else s_BootCPUs s),
      hw_memMB = m_SizeMB (s_Memory s),
      hw_maxmemMB = max (m_SizeMB (s_Memory s)) (m_MaxMB (s_Memory s)),
      hw_vsock = (s_VsockCID s \<noteq> 0), hw_hotplug = (s_HotplugDisks s > 0),
      hw_serial = (s_Serial s \<noteq> [] \<or> s_SerialFDSet s \<noteq> 0),
      hw_mtus = map (\<lambda>n. max 0 (n_MTU n)) (s_NICs s)\<rparr>"

lemma comma_split_inj:
  assumes "CHR '','' \<notin> set x" and "CHR '','' \<notin> set y"
    and "u = [] \<or> hd u = CHR '',''" and "v = [] \<or> hd v = CHR '',''"
  shows "x @ u = y @ v \<longleftrightarrow> x = y \<and> u = v"
proof -
  have stop: "takeWhile (\<lambda>c. c \<noteq> CHR '','') (w @ z) = w"
    if "CHR '','' \<notin> set w" and "z = [] \<or> hd z = CHR '',''" for w z
    using that by (induction w) (cases z, auto)+
  show ?thesis using stop [OF assms(1,3)] stop [OF assms(2,4)] by auto
qed

lemma decz_comma_inj:
  assumes "u = [] \<or> hd u = CHR '',''" and "v = [] \<or> hd v = CHR '',''"
  shows "decz i @ u = decz j @ v \<longleftrightarrow> i = j \<and> u = v"
  using comma_split_inj [OF _ _ assms, of "decz i" "decz j"] by simp

lemma smpArg_inj:
  assumes "b = 0 \<or> b \<ge> a" and "a \<ge> 1" and "b' = 0 \<or> b' \<ge> a'" and "a' \<ge> 1"
  shows "smpArg a b = smpArg a' b' \<longleftrightarrow>
     a = a' \<and> (if b > 0 then b else a) = (if b' > 0 then b' else a')"
proof -
  define tl' where "tl' a b = (if b > 0 \<and> b \<noteq> a then '',maxcpus='' @ decz b else [])" for a b
  have arg: "smpArg a b = decz a @ tl' a b" for a b by (simp add: smpArg_def tl'_def)
  have "tl' a b = [] \<or> hd (tl' a b) = CHR '',''" for a b by (simp add: tl'_def)
  then have "smpArg a b = smpArg a' b' \<longleftrightarrow> a = a' \<and> tl' a b = tl' a' b'"
    unfolding arg by (intro decz_comma_inj)
  then show ?thesis using assms by (auto simp: tl'_def)
qed

lemma memoryArg_inj:
  "memoryArg a b = memoryArg a' b' \<longleftrightarrow> a = a' \<and> max a b = max a' b'"
proof -
  define tl' where "tl' a b = (if b > a then '',maxmem='' @ decz b @ ''M'' else [])" for a b
  have arg: "memoryArg a b = decz a @ tl' a b" for a b by (simp add: memoryArg_def tl'_def)
  have "tl' a b = [] \<or> hd (tl' a b) = CHR '',''" for a b by (simp add: tl'_def)
  then have "memoryArg a b = memoryArg a' b' \<longleftrightarrow> a = a' \<and> tl' a b = tl' a' b'"
    unfolding arg by (intro decz_comma_inj)
  then show ?thesis by (auto simp: tl'_def max_def)
qed

lemma cpuModel_no_comma: "spec_ok s \<Longrightarrow> CHR '','' \<notin> set (cpuModel s)"
  by (auto simp: cpuModel_def spec_ok_def fields_ok_def cpu_name_ok_def)

lemma Shape_cpu_model: "spec_ok s \<Longrightarrow> fst (Cut (sh_CPU (Shape s)) (CHR '','')) = cpuModel s"
  using Cut_found [OF cpuModel_no_comma, of s] by (simp add: Shape_def Let_def)

lemma Shape_inj:
  assumes "spec_ok s" and "spec_ok t"
  shows "Shape s = Shape t \<longleftrightarrow> spec_accel s = spec_accel t \<and> cpuModel s = cpuModel t
     \<and> smpArg (s_BootCPUs s) (s_MaxCPUs s) = smpArg (s_BootCPUs t) (s_MaxCPUs t)
     \<and> memoryArg (m_SizeMB (s_Memory s)) (m_MaxMB (s_Memory s)) = memoryArg (m_SizeMB (s_Memory t)) (m_MaxMB (s_Memory t))"
    (is "_ \<longleftrightarrow> ?rhs")
proof
  assume eq: "Shape s = Shape t"
  then have "cpuModel s = cpuModel t"
    using Shape_cpu_model [OF assms(1)] Shape_cpu_model [OF assms(2)] by simp
  then show ?rhs using eq by (simp add: Shape_def Let_def)
qed (simp add: Shape_def)

lemma pair_lists_inj:
  assumes "a \<noteq> b"
  shows "map (Pair a) xs @ map (Pair b) ys = map (Pair a) xs' @ map (Pair b) ys' \<longleftrightarrow> xs = xs' \<and> ys = ys'"
proof
  assume eq: "map (Pair a) xs @ map (Pair b) ys = map (Pair a) xs' @ map (Pair b) ys'"
  have "map snd (filter (\<lambda>p. fst p = k) (map (Pair a) us @ map (Pair b) vs)) = (if k = a then us else if k = b then vs else [])"
    for k us vs using assms by (auto simp: filter_map comp_def)
  from this [of a xs ys] this [of b xs ys] this [of a xs' ys'] this [of b xs' ys']
  show "xs = xs' \<and> ys = ys'" using assms unfolding eq by simp
qed simp

lemma writes_inj:
  "machine_writes sz s @ map (Pair ''host-cpu'') hs = machine_writes sz' t @ map (Pair ''host-cpu'') hs' \<longleftrightarrow>
     sz = sz' \<and> Shape s = Shape t \<and> Contract s = Contract t \<and> hs = hs'"
  using pair_lists_inj [of "''contract''" "''host-cpu''" "Contract s" hs "Contract t" hs']
  by (auto simp: machine_writes_def shape_writes_def Let_def intro: shape.equality)

subsection \<open>The contract determines the devices\<close>

definition is_nic_line :: "string \<Rightarrow> bool" where
  "is_nic_line l = HasPrefix l ''device virtio-net-pci''"

definition nic_lines :: "nic list \<Rightarrow> string list" where
  "nic_lines ns = map (\<lambda>(i, n). nic_line i (n_MTU n)) (enumerate 0 ns)"

lemma nic_line_is: "is_nic_line (nic_line i m)"
  by (simp add: is_nic_line_def nic_line_def HasPrefix_def)

lemma other_lines_not_nic:
  "\<not> is_nic_line vsock_line" "\<not> is_nic_line mem_line" "\<not> is_nic_line scsi_line" "\<not> is_nic_line ''serial isa-serial''"
  by (simp_all add: is_nic_line_def HasPrefix_def vsock_line_def mem_line_def scsi_line_def)

lemma lines_differ:
  "vsock_line \<noteq> mem_line" "vsock_line \<noteq> scsi_line" "mem_line \<noteq> scsi_line"
  "vsock_line \<noteq> ''serial isa-serial''" "mem_line \<noteq> ''serial isa-serial''" "scsi_line \<noteq> ''serial isa-serial''"
  by (simp_all add: vsock_line_def mem_line_def scsi_line_def)

lemma nic_line_mtu: "nic_line i m = nic_line i m' \<longleftrightarrow> max 0 m = max 0 m'"
  by (auto simp: nic_line_def max_def)

lemma nic_lines_inj: "nic_lines ns = nic_lines ns' \<longleftrightarrow> map (\<lambda>n. max 0 (n_MTU n)) ns = map (\<lambda>n. max 0 (n_MTU n)) ns'"
  unfolding list_eq_iff_nth_eq [of "nic_lines ns"] list_eq_iff_nth_eq [of "map _ ns"]
  by (auto simp: nic_lines_def nth_enumerate_eq nic_line_mtu)

definition device_lines :: "bool \<Rightarrow> bool \<Rightarrow> bool \<Rightarrow> string list \<Rightarrow> bool \<Rightarrow> string list" where
  "device_lines v m h ns c = (if v then [vsock_line] else []) @ (if m then [mem_line] else [])
     @ (if h then [scsi_line] else []) @ ns @ (if c then [''serial isa-serial''] else [])"

lemma device_lines_inj:
  assumes "list_all is_nic_line ns" and "list_all is_nic_line ns'"
  shows "device_lines v m h ns c = device_lines v' m' h' ns' c' \<longleftrightarrow>
     v = v' \<and> m = m' \<and> h = h' \<and> ns = ns' \<and> c = c'"
proof
  assume eq: "device_lines v m h ns c = device_lines v' m' h' ns' c'"
  have nics: "filter is_nic_line (device_lines v m h ns c) = ns" if "list_all is_nic_line ns" for v m h ns c
    using that by (simp add: device_lines_def other_lines_not_nic list_all_iff)
  have mem: "vsock_line \<in> set (device_lines v m h ns c) \<longleftrightarrow> v"
    "mem_line \<in> set (device_lines v m h ns c) \<longleftrightarrow> m"
    "scsi_line \<in> set (device_lines v m h ns c) \<longleftrightarrow> h"
    "''serial isa-serial'' \<in> set (device_lines v m h ns c) \<longleftrightarrow> c"
    if "list_all is_nic_line ns" for v m h ns c
    using that other_lines_not_nic lines_differ by (auto simp: device_lines_def list_all_iff)
  show "v = v' \<and> m = m' \<and> h = h' \<and> ns = ns' \<and> c = c'"
    using nics [OF assms(1), of v m h c] nics [OF assms(2), of v' m' h' c']
      mem [OF assms(1), of v m h c] mem [OF assms(2), of v' m' h' c'] unfolding eq by metis
qed simp

lemma Contract_device_lines:
  assumes "spec_ok s"
  shows "Contract s = fixed_lines @ device_lines (s_VsockCID s \<noteq> 0) (m_MaxMB (s_Memory s) > m_SizeMB (s_Memory s))
     (s_HotplugDisks s > 0) (nic_lines (s_NICs s)) (s_Serial s \<noteq> [] \<or> s_SerialFDSet s \<noteq> 0)"
proof -
  have "\<forall>n \<in> set (s_NICs s). CHR '','' \<notin> set (n_MAC n)"
    using assms nic_ok_no_comma unfolding spec_ok_def by blast
  from Contract_eq [OF this] show ?thesis by (simp only: device_lines_def nic_lines_def)
qed

lemma Contract_inj:
  assumes "spec_ok s" and "spec_ok t"
  shows "Contract s = Contract t \<longleftrightarrow> (s_VsockCID s \<noteq> 0) = (s_VsockCID t \<noteq> 0)
     \<and> (m_MaxMB (s_Memory s) > m_SizeMB (s_Memory s)) = (m_MaxMB (s_Memory t) > m_SizeMB (s_Memory t))
     \<and> (s_HotplugDisks s > 0) = (s_HotplugDisks t > 0)
     \<and> map (\<lambda>n. max 0 (n_MTU n)) (s_NICs s) = map (\<lambda>n. max 0 (n_MTU n)) (s_NICs t)
     \<and> (s_Serial s \<noteq> [] \<or> s_SerialFDSet s \<noteq> 0) = (s_Serial t \<noteq> [] \<or> s_SerialFDSet t \<noteq> 0)"
proof -
  have "list_all is_nic_line (nic_lines ns)" for ns by (auto simp: nic_lines_def list_all_iff nic_line_is)
  then show ?thesis
    unfolding Contract_device_lines [OF assms(1)] Contract_device_lines [OF assms(2)] same_append_eq
    by (simp only: device_lines_inj nic_lines_inj)
qed

lemma fingerprint_writes_Inr:
  assumes "spec_ok s"
  shows "fingerprint_writes env cpu s = Inr kvs \<longleftrightarrow> (\<exists>sz hs. hw_bios (hardware_of env cpu s) = Inr sz
     \<and> map_option Inr (if derivedFromHost (cpuModel s) then Some hs else None) = hw_hostcpu (hardware_of env cpu s)
     \<and> kvs = machine_writes sz s @ map (Pair ''host-cpu'') (if derivedFromHost (cpuModel s) then [hs] else []))"
  by (auto simp: fingerprint_writes_def hardware_of_def Shape_cpu_model [OF assms] Let_def split: sum.splits)

lemma hardware_eq_iff:
  assumes "spec_ok s" and "spec_ok t"
  shows "hardware_of env cpu s = hardware_of env' cpu' t \<longleftrightarrow>
     hw_bios (hardware_of env cpu s) = hw_bios (hardware_of env' cpu' t)
     \<and> hw_hostcpu (hardware_of env cpu s) = hw_hostcpu (hardware_of env' cpu' t)
     \<and> Shape s = Shape t \<and> Contract s = Contract t"
proof -
  have cpus: "(s_MaxCPUs x = 0 \<or> s_MaxCPUs x \<ge> s_BootCPUs x) \<and> s_BootCPUs x \<ge> 1" if "spec_ok x" for x
    using that by (simp add: spec_ok_def fields_ok_def)
  have smp: "smpArg (s_BootCPUs s) (s_MaxCPUs s) = smpArg (s_BootCPUs t) (s_MaxCPUs t) \<longleftrightarrow>
     s_BootCPUs s = s_BootCPUs t
     \<and> (if s_MaxCPUs s > 0 then s_MaxCPUs s else s_BootCPUs s) = (if s_MaxCPUs t > 0 then s_MaxCPUs t else s_BootCPUs t)"
    by (rule smpArg_inj) (use cpus assms in auto)
  have flag: "(m_MaxMB m > m_SizeMB m) = (m_MaxMB m' > m_SizeMB m')"
    if "m_SizeMB m = m_SizeMB m'" and "max (m_SizeMB m) (m_MaxMB m) = max (m_SizeMB m') (m_MaxMB m')" for m m'
    using that by (auto simp: max_def split: if_splits)
  show ?thesis
    unfolding Shape_inj [OF assms] Contract_inj [OF assms] smp memoryArg_inj
    unfolding hardware_of_def hardware.select_convs hardware.ext_inject
    using flag [of "s_Memory s" "s_Memory t"] by argo
qed

lemma writes_hardware:
  assumes "spec_ok s" and "spec_ok t"
    and "fingerprint_writes env cpu s = Inr kvs" and "fingerprint_writes env' cpu' t = Inr kvs'"
  shows "kvs = kvs' \<longleftrightarrow> hardware_of env cpu s = hardware_of env' cpu' t"
proof -
  from assms(3) obtain sz hs where s: "hw_bios (hardware_of env cpu s) = Inr sz"
    "hw_hostcpu (hardware_of env cpu s) = map_option Inr (if derivedFromHost (cpuModel s) then Some hs else None)"
    "kvs = machine_writes sz s @ map (Pair ''host-cpu'') (if derivedFromHost (cpuModel s) then [hs] else [])"
    unfolding fingerprint_writes_Inr [OF assms(1)] by metis
  from assms(4) obtain sz' hs' where t: "hw_bios (hardware_of env' cpu' t) = Inr sz'"
    "hw_hostcpu (hardware_of env' cpu' t) = map_option Inr (if derivedFromHost (cpuModel t) then Some hs' else None)"
    "kvs' = machine_writes sz' t @ map (Pair ''host-cpu'') (if derivedFromHost (cpuModel t) then [hs'] else [])"
    unfolding fingerprint_writes_Inr [OF assms(2)] by metis
  show ?thesis
    unfolding s(3) t(3) writes_inj hardware_eq_iff [OF assms(1,2)] s(1,2) t(1,2) by auto
qed

definition fingerprint_stream :: "os_env \<Rightarrow> (cpu_error, string) result \<Rightarrow> spec \<Rightarrow> string" where
  "fingerprint_stream env cpu s =
     (case fingerprint_writes env cpu s of Inl _ \<Rightarrow> [] | Inr kvs \<Rightarrow> concat (map write_frame kvs))"

lemma stream_hardware:
  assumes "spec_ok s" and "spec_ok t"
    and "fingerprint_writes env cpu s = Inr kvs" and "fingerprint_writes env' cpu' t = Inr kvs'"
  shows "fingerprint_stream env cpu s = fingerprint_stream env' cpu' t \<longleftrightarrow>
     hardware_of env cpu s = hardware_of env' cpu' t"
  using writes_hardware [OF assms] frame.stream_inj [of kvs kvs']
    fingerprint_writes_keys [OF assms(3)] fingerprint_writes_keys [OF assms(4)]
  by (auto simp: fingerprint_stream_def assms(3,4))

text \<open>The \<^verbatim>\<open>-global\<close> values of a command line, and its devices that are not disks.\<close>

definition global_values :: "qopts \<Rightarrow> string list" where
  "global_values os = concat (map (\<lambda>(f, v).
     if f = ''-global'' then (case v of None \<Rightarrow> [] | Some d \<Rightarrow> [d]) else []) os)"

definition is_disk :: "string \<Rightarrow> bool" where
  "is_disk dev = (hd (opt_parts dev) = ''virtio-blk-pci'')"

lemma global_values_append: "global_values (a @ b) = global_values a @ global_values b"
  by (simp add: global_values_def)

lemma global_values_rest:
  "global_values (shape_opts s) = []" "global_values (boot_opts s) = []" "global_values (device_opts s) = []"
  "global_values (disks_opts s) = []" "global_values (nics_opts s) = []" "global_values (console_opts s) = []"
  "global_values (monitors_opts s) = []" "global_values (fdsets_opts s) = []" "global_values (incoming_opts s) = []"
proof -
  have "global_values (chain_opts d i) = []" for d i by (auto simp: chain_opts_def global_values_def)
  then have "global_values (disk_opts p) = []" for p
    by (simp add: disk_opts_def global_values_append split: prod.splits) (simp add: global_values_def)
  then show "global_values (disks_opts s) = []" by (force simp: disks_opts_def global_values_def)
  show "global_values (nics_opts s) = []" by (auto simp: nics_opts_def nic_opts_def global_values_def)
  show "global_values (monitors_opts s) = []"
    by (auto simp: monitors_opts_def monitor_opts_def global_values_def Let_def)
  show "global_values (fdsets_opts s) = []" by (auto simp: fdsets_opts_def fdset_opts_def global_values_def)
  show "global_values (shape_opts s) = []" "global_values (boot_opts s) = []" "global_values (device_opts s) = []"
    "global_values (console_opts s) = []" "global_values (incoming_opts s) = []"
    by (simp_all add: global_values_def shape_opts_def boot_opts_def device_opts_def console_opts_def incoming_opts_def)
qed

lemma device_values_devices:
  "device_values (device_opts s) = [''vmgenid,guid=auto'', rngDevice, balloonDevice]
     @ (if s_VsockCID s \<noteq> 0 then [vsockDevice s] else [])
     @ (if m_MaxMB (s_Memory s) > m_SizeMB (s_Memory s) then [memDevice] else [])
     @ (if s_HotplugDisks s > 0 then [scsiDevice] else [])"
  by (simp add: device_opts_def device_values_def)

lemma device_not_disk:
  "filter (\<lambda>d. \<not> is_disk d) (device_values (device_opts s)) = device_values (device_opts s)"
proof -
  have fixed: "\<not> is_disk ''vmgenid,guid=auto''" "\<not> is_disk rngDevice" "\<not> is_disk balloonDevice"
    "\<not> is_disk memDevice" "\<not> is_disk scsiDevice" by code_simp+
  have vsock: "\<not> is_disk (vsockDevice s)"
    unfolding is_disk_def vsockDevice_parts opt_parts_Join [OF vsock_parts_nonempty vsock_parts_ok]
    by (simp add: vsock_parts_def)
  show ?thesis
    by (simp only: device_values_devices filter_append filter.simps if_distrib [of "filter _"]
        fixed vsock not_False_eq_True if_True append_Cons append_Nil)
qed

lemma nic_not_disk:
  assumes "CHR '','' \<notin> set (n_MAC n)"
  shows "\<not> is_disk (nicDevice i n)"
  unfolding is_disk_def nicDevice_parts opt_parts_Join [OF nic_parts_nonempty nic_parts_ok [OF assms]]
  by (simp add: nic_parts_def)

lemma nics_not_disks:
  assumes "spec_ok s"
  shows "filter (\<lambda>d. \<not> is_disk d) (device_values (nics_opts s)) = device_values (nics_opts s)"
proof (rule filter_True, rule ballI)
  fix d assume "d \<in> set (device_values (nics_opts s))"
  then obtain i where "i < length (s_NICs s)" and d: "d = nicDevice i (s_NICs s ! i)"
    unfolding device_values_nics by (auto simp: in_set_enumerate_eq)
  then have "nic_ok (s_NICs s ! i)" using assms by (simp add: spec_ok_def)
  then show "\<not> is_disk d" unfolding d by (intro nic_not_disk nic_ok_no_comma)
qed

lemma disk_is_disk: "is_disk (diskDevice i d)"
  by (simp add: is_disk_def opt_parts_diskDevice disk_parts_def)

lemma contract_opts_split:
  "list_all (\<lambda>o'. fst o' \<noteq> ''-global'') os \<Longrightarrow>
     concat (map contract_opt os) = map (\<lambda>d. ''device '' @ withoutTheVMs d) (device_values os)"
  by (induction os) (auto simp: contract_opt_def device_values_def split: option.splits)

lemma Contract_split:
  "Contract s = map (\<lambda>v. ''global '' @ v) (global_values (chipset_opts s))
     @ map (\<lambda>d. ''device '' @ withoutTheVMs d) (device_values (device_opts s) @ device_values (nics_opts s))
     @ (if s_Serial s \<noteq> [] \<or> s_SerialFDSet s \<noteq> 0 then [''serial isa-serial''] else [])"
proof -
  have clear: "list_all clear_opt (chipset_opts s @ device_opts s @ nics_opts s)"
    using clear_devices clear_nics by (simp add: chipset_opts_def clear_opt_def contract_flags_def)
  have args: "appendNICs s (appendDevices s (appendChipset [])) = opts_argv (chipset_opts s @ device_opts s @ nics_opts s)"
    by (simp add: nics.app_opts devices.app_opts chipset.app_opts [of _ s])
  have chipset: "concat (map contract_opt (chipset_opts s)) = map (\<lambda>v. ''global '' @ v) (global_values (chipset_opts s))"
    by (simp add: chipset_opts_def contract_opt_def global_values_def)
  have dev: "list_all (\<lambda>o'. fst o' \<noteq> ''-global'') (device_opts s)" by (simp add: device_opts_def)
  have nic: "list_all (\<lambda>o'. fst o' \<noteq> ''-global'') (nics_opts s)"
    by (auto simp: nics_opts_def nic_opts_def list_all_concat_map)
  show ?thesis
    unfolding Contract_def Let_def args contract_scan_opts [OF clear] map_append concat_append chipset
      contract_opts_split [OF dev] contract_opts_split [OF nic] by (simp only: append_assoc)
qed

lemma fingerprint_computed:
  assumes "fileSize env (path_join (s_Firmware s) (spec_bios s)) = Inr sz"
  shows "\<exists>f. fingerprint env (Inr c) s = Inr f"
  by (simp add: fingerprint_def fingerprint_writes_def assms Let_def)

lemma model_name_first:
  "model_name ls = (case filter (\<lambda>l. HasPrefix l ''model name'' \<and> CHR '':'' \<in> set (drop 10 l)) ls of
     l # _ \<Rightarrow> Some (TrimSpace (tl (dropWhile (\<lambda>c. c \<noteq> CHR '':'') (drop 10 l)))) | [] \<Rightarrow> None)"
proof (induction ls)
  case Nil
  then show ?case by simp
next
  case (Cons l ls)
  show ?case
  proof (cases "HasPrefix l ''model name''")
    case False
    then show ?thesis using Cons by (simp add: CutPrefix_def)
  next
    case True
    then have cp: "CutPrefix l ''model name'' = (drop 10 l, True)"
      by (simp add: CutPrefix_def eval_nat_numeral)
    show ?thesis
    proof (cases "CHR '':'' \<in> set (drop 10 l)")
      case False
      then show ?thesis using Cons cp by (simp add: Cut_not_found)
    next
      case colon: True
      then obtain a b where ab: "drop 10 l = a @ CHR '':'' # b" and "CHR '':'' \<notin> set a" by (metis split_list_first)
      moreover from this have "dropWhile (\<lambda>c. c \<noteq> CHR '':'') (drop 10 l) = CHR '':'' # b"
        unfolding ab by (intro takeWhile_append_stop) auto
      ultimately show ?thesis using True colon cp Cut_found [of "CHR '':''" a b] by simp
    qed
  qed
qed

text \<open>A file system for the witnesses: a BIOS of 64 KiB and a host CPU.\<close>

definition sample_env :: os_env where
  "sample_env = \<lparr>os_stat = (\<lambda>_. Inr 65536),
     os_open = (\<lambda>_. Inr (''processor : 0'' @ [CHR 0x0A] @ ''model name : EPYC'' @ [CHR 0x0A], None)),
     os_getwd = Inr ''/''\<rparr>"

definition other_spec :: spec where
  "other_spec = sample_spec\<lparr>s_QEMU := ''/new/qemu'', s_Kernel := ''/new/vmlinux'', s_Disks := [],
     s_Monitors := [], s_VsockCID := 9, s_HotplugDisks := 200, s_Accel := ''kvm'',
     s_NICs := [\<lparr>n_TapFD = 8, n_VhostFD = 9, n_MAC = ''52:54:00:00:00:01'', n_MTU = 1400\<rparr>]\<rparr>"

lemma other_ok: "spec_ok other_spec"
proof -
  have "validate other_spec = None" by code_simp
  then show ?thesis by (simp add: validate_None)
qed

subsection \<open>Properties\<close>

text \<open>C2: A fingerprint names the hardware. For two machines \<^verbatim>\<open>validate\<close> accepts whose
  fingerprints were computed, on whatever hosts, the bytes hashed are the same exactly when the
  machines present the same hardware to a guest; so machines with the same hardware have the
  same fingerprint, whatever their QEMU, kernel, disks, descriptors, MACs and context ids, and
  two machines with one fingerprint either present the same hardware or their two streams are a
  collision of SHA-256.\<close>

theorem fingerprint_names_the_hardware:
  assumes "validate s = None" and "validate t = None"
    and "fingerprint env cpu s = Inr f" and "fingerprint env' cpu' t = Inr g"
  shows "(fingerprint_stream env cpu s = fingerprint_stream env' cpu' t \<longleftrightarrow>
        hardware_of env cpu s = hardware_of env' cpu' t)
    \<and> (hardware_of env cpu s = hardware_of env' cpu' t \<longrightarrow> f = g)
    \<and> (f = g \<longrightarrow> hardware_of env cpu s = hardware_of env' cpu' t
        \<or> fingerprint_stream env cpu s \<noteq> fingerprint_stream env' cpu' t
          \<and> sha256 (string_bytes (fingerprint_stream env cpu s)) = sha256 (string_bytes (fingerprint_stream env' cpu' t)))"
proof -
  have ok: "spec_ok s" "spec_ok t" using assms(1,2) by (simp_all add: validate_None)
  from assms(3) obtain kvs where s: "fingerprint_writes env cpu s = Inr kvs" and f: "f = digest kvs"
    by (auto simp: fingerprint_def split: sum.splits)
  from assms(4) obtain kvs' where t: "fingerprint_writes env' cpu' t = Inr kvs'" and g: "g = digest kvs'"
    by (auto simp: fingerprint_def split: sum.splits)
  have "f = g \<longleftrightarrow> sha256 (string_bytes (fingerprint_stream env cpu s)) = sha256 (string_bytes (fingerprint_stream env' cpu' t))"
    unfolding f g digest_eq fingerprint_stream_def s t by simp
  then show ?thesis using stream_hardware [OF ok s t] by auto
qed

theorem fingerprint_names_the_hardware_witness:
  "\<exists>f. fingerprint sample_env (Inr ''EPYC'') sample_spec = Inr f
     \<and> fingerprint sample_env (Inr ''EPYC'') other_spec = Inr f"
proof -
  have same: "hardware_of sample_env (Inr ''EPYC'') sample_spec = hardware_of sample_env (Inr ''EPYC'') other_spec"
    by code_simp
  have "fileSize sample_env p = Inr 65536" for p by (simp add: fileSize_def sample_env_def)
  then obtain f g where fg: "fingerprint sample_env (Inr ''EPYC'') sample_spec = Inr f"
    "fingerprint sample_env (Inr ''EPYC'') other_spec = Inr g"
    using fingerprint_computed by metis
  have "validate other_spec = None" using other_ok by (simp add: validate_None)
  from fingerprint_names_the_hardware [OF sample_valid this fg] same fg show ?thesis by auto
qed

text \<open>C7: The contract is the command line's. Of a command line \<^verbatim>\<open>Args\<close> returns, the contract is
  the value of every \<^verbatim>\<open>-global\<close>, then every \<^verbatim>\<open>-device\<close> that is not a disk, in the order QEMU is
  given them and with only what is one VM's taken out, then whether there is a serial port: no
  device can be added to the machine that the fingerprint does not see.\<close>

theorem contract_is_the_command_lines:
  assumes "Args s = Inr args"
  shows "Contract s =
     map (\<lambda>v. ''global '' @ v) (global_values (argv_opts args))
     @ map (\<lambda>d. ''device '' @ withoutTheVMs d) (filter (\<lambda>d. \<not> is_disk d) (device_values (argv_opts args)))
     @ (if s_Serial s \<noteq> [] \<or> s_SerialFDSet s \<noteq> 0 then [''serial isa-serial''] else [])"
proof -
  have ok: "spec_ok s" and opts: "argv_opts args = args_opts s"
    using assms by (simp_all add: Args_Inr argv_opts_argv args_whole)
  have disks: "filter (\<lambda>d. \<not> is_disk d) (device_values (disks_opts s)) = []"
    by (auto simp: device_values_disks disk_is_disk filter_empty_conv)
  show ?thesis
    unfolding Contract_split opts
    by (simp add: args_opts_def device_values_rest global_values_append global_values_rest disks
        nics_not_disks [OF ok] device_not_disk)
qed

theorem contract_is_the_command_lines_witness:
  "length (Contract sample_spec) = 3 + length (filter (\<lambda>d. \<not> is_disk d) (device_values (args_opts sample_spec))) + 1"
proof -
  have "argv_opts (opts_argv (args_opts sample_spec)) = args_opts sample_spec"
    by (simp add: argv_opts_argv args_whole)
  moreover have "length (global_values (args_opts sample_spec)) = 3"
    by (simp add: args_opts_def global_values_append global_values_rest)
      (simp add: chipset_opts_def global_values_def)
  moreover have "s_Serial sample_spec \<noteq> []" by (simp add: sample_spec_def)
  ultimately show ?thesis using contract_is_the_command_lines [OF sample_args] by simp
qed

text \<open>Under a model derived from the host, the host's CPU is the trimmed text after the first
  colon of the first line of \<^verbatim>\<open>/proc/cpuinfo\<close> that starts with \<^verbatim>\<open>model name\<close> and holds a colon; a
  host whose file opens and holds no such line is refused with the read error, or with the
  error that there is none.\<close>

theorem host_cpu_is_the_first_model_name:
  assumes "os_open env ''/proc/cpuinfo'' = Inr (content, rerr)"
  shows "hostCPUModel env =
     (case filter (\<lambda>l. HasPrefix l ''model name'' \<and> CHR '':'' \<in> set (drop 10 l)) (fst (scan content rerr)) of
        l # _ \<Rightarrow> Inr (TrimSpace (tl (dropWhile (\<lambda>c. c \<noteq> CHR '':'') (drop 10 l))))
      | [] \<Rightarrow> (case snd (scan content rerr) of Some e \<Rightarrow> Inl (CPURead e) | None \<Rightarrow> Inl NoModelName))"
proof -
  have "hostCPUModel env = (case model_name (fst (scan content rerr)) of Some m \<Rightarrow> Inr m
      | None \<Rightarrow> (case snd (scan content rerr) of Some e \<Rightarrow> Inl (CPURead e) | None \<Rightarrow> Inl NoModelName))"
    by (cases "scan content rerr") (simp add: hostCPUModel_def assms split: option.split)
  then show ?thesis unfolding model_name_first by (simp split: list.splits)
qed

theorem host_cpu_is_the_first_model_name_witness: "hostCPUModel sample_env = Inr ''EPYC''"
proof -
  have "os_open sample_env ''/proc/cpuinfo'' =
     Inr (''processor : 0'' @ [CHR 0x0A] @ ''model name : EPYC'' @ [CHR 0x0A], None)"
    by (simp add: sample_env_def)
  moreover have "fst (scan (''processor : 0'' @ [CHR 0x0A] @ ''model name : EPYC'' @ [CHR 0x0A]) None)
     = [''processor : 0'', ''model name : EPYC'']" by code_simp
  moreover have "TrimSpace '' EPYC'' = ''EPYC''" by code_simp
  ultimately show ?thesis using host_cpu_is_the_first_model_name [of sample_env] by (simp add: HasPrefix_def)
qed

text \<open>The memory a virtio-mem device can plug is exactly what is between the boot memory and
  the ceiling: for a spec \<^verbatim>\<open>validate\<close> accepts whose ceiling fits a Go \<^verbatim>\<open>int\<close>, the subtraction does
  not wrap, and the backend's size and the boot memory add up to the ceiling.\<close>

theorem growth_reaches_the_ceiling:
  assumes "validate s = None" and "m_MaxMB (s_Memory s) > m_SizeMB (s_Memory s)"
    and "m_MaxMB (s_Memory s) < 2 ^ 63"
  shows "0 < growthMB s \<and> m_SizeMB (s_Memory s) + growthMB s = m_MaxMB (s_Memory s)"
proof -
  have "m_SizeMB (s_Memory s) \<ge> 1" using assms(1) by (simp add: validate_None spec_ok_def fields_ok_def)
  then have "growthMB s = m_MaxMB (s_Memory s) - m_SizeMB (s_Memory s)"
    using assms(2,3) by (simp add: growthMB_def wrap64_def)
  then show ?thesis using assms(2) by simp
qed

theorem growth_reaches_the_ceiling_witness: "growthMB sample_spec = 3072"
  using growth_reaches_the_ceiling [OF sample_valid] by (simp add: sample_spec_def)

end
