(* ===== verification/Release.thy ===== *)
theory Release
  imports Machine_Args Go_Files
begin

text \<open>
  An unpacked release: \<^verbatim>\<open>machine/release.go\<close>.

  \<open>OpenRelease\<close> resolves the directory, checks the five files a machine cannot do without and
  reads the manifest with \<open>readEnv\<close>; the accessors name paths under it. The file system is the
  record \<open>os_env\<close> of \<open>Go_Files\<close>.

  The lemmas bring \<open>readEnv\<close>'s loop to two facts, which line it refuses and which map it
  makes, and show what an opened release guarantees of the spec it hands out.
\<close>

subsection \<open>The layout\<close>

definition qemuName :: string where [machine_defs]: "qemuName = ''bin/qemu-system-x86_64''"
definition qemuTCGName :: string where [machine_defs]: "qemuTCGName = ''bin/qemu-system-x86_64-tcg''"
definition qemuImgName :: string where [machine_defs]: "qemuImgName = ''bin/qemu-img''"
definition firmwareDir :: string where [machine_defs]: "firmwareDir = ''qemu''"
definition kernelName :: string where [machine_defs]: "kernelName = ''kernel/vmlinux''"
definition rootfsName :: string where [machine_defs]: "rootfsName = ''image/rootfs.qcow2''"
definition manifest :: string where [machine_defs]: "manifest = ''machine.env''"

record release =
  r_dir :: string
  r_env :: "string \<rightharpoonup> string"

datatype release_error =
    ResolvingDir string os_error
  | NotWhole string os_error
  | ReadingManifest os_error
  | NotKeyValue string nat string
  | ReadingLines string scan_error
  | NotInRelease string os_error

subsection \<open>The manifest\<close>

text \<open>The loop over the lines of \<^verbatim>\<open>machine.env\<close>: \<open>n\<close> is the number of the next line.\<close>

fun env_from :: "nat \<Rightarrow> (string \<rightharpoonup> string) \<Rightarrow> string list \<Rightarrow> (nat \<times> string, string \<rightharpoonup> string) result" where
  "env_from n env [] = Inr env"
| "env_from n env (text # ls) =
     (let line = TrimSpace text in
      if line = [] \<or> HasPrefix line ''#'' then env_from (Suc n) env ls
      else (let (k, v, ok) = Cut line (CHR ''='') in
            if \<not> ok \<or> TrimSpace k = [] then Inl (n, line)
            else env_from (Suc n) (env(TrimSpace k \<mapsto> TrimSpace v)) ls))"

definition readEnv :: "os_env \<Rightarrow> string \<Rightarrow> (release_error, string \<rightharpoonup> string) result" where
  "readEnv os path =
     (case os_open os path of
        Inl ErrNotExist \<Rightarrow> Inr Map.empty
      | Inl e \<Rightarrow> Inl (ReadingManifest e)
      | Inr (content, rerr) \<Rightarrow>
          (let (ls, err) = scan content rerr in
           case env_from 1 Map.empty ls of
             Inl (n, line) \<Rightarrow> Inl (NotKeyValue path n line)
           | Inr env \<Rightarrow> (case err of Some e \<Rightarrow> Inl (ReadingLines path e) | None \<Rightarrow> Inr env)))"

subsection \<open>Opening a release\<close>

definition wanted :: "string list" where
  "wanted = [qemuName, qemuImgName, kernelName, path_join firmwareDir ''pvh.bin'', path_join firmwareDir DefaultBIOS]"

fun stat_all :: "os_env \<Rightarrow> string \<Rightarrow> string list \<Rightarrow> os_error option" where
  "stat_all os root [] = None"
| "stat_all os root (want # wants) =
     (case os_stat os (path_join root want) of Inl e \<Rightarrow> Some e | Inr _ \<Rightarrow> stat_all os root wants)"

definition OpenRelease :: "os_env \<Rightarrow> string \<Rightarrow> (release_error, release) result" where
  "OpenRelease os dir =
     (case Abs os dir of
        Inl e \<Rightarrow> Inl (ResolvingDir dir e)
      | Inr root \<Rightarrow>
          (case stat_all os root wanted of
             Some e \<Rightarrow> Inl (NotWhole root e)
           | None \<Rightarrow>
               (case readEnv os (path_join root manifest) of
                  Inl e \<Rightarrow> Inl e
                | Inr env \<Rightarrow> Inr \<lparr>r_dir = root, r_env = env\<rparr>)))"

definition release_QEMU :: "release \<Rightarrow> string" where
  "release_QEMU r = path_join (r_dir r) qemuName"

definition release_QEMUImg :: "release \<Rightarrow> string" where
  "release_QEMUImg r = path_join (r_dir r) qemuImgName"

definition release_Firmware :: "release \<Rightarrow> string" where
  "release_Firmware r = path_join (r_dir r) firmwareDir"

definition release_Kernel :: "release \<Rightarrow> string" where
  "release_Kernel r = path_join (r_dir r) kernelName"

definition optional :: "os_env \<Rightarrow> release \<Rightarrow> string \<Rightarrow> string \<Rightarrow> (release_error, string) result" where
  "optional os r name what =
     (let p = path_join (r_dir r) name in
      case os_stat os p of Inl e \<Rightarrow> Inl (NotInRelease what e) | Inr _ \<Rightarrow> Inr p)"

definition QEMUTCG :: "os_env \<Rightarrow> release \<Rightarrow> (release_error, string) result" where
  "QEMUTCG os r = optional os r qemuTCGName ''the TCG build of QEMU''"

definition Rootfs :: "os_env \<Rightarrow> release \<Rightarrow> (release_error, string) result" where
  "Rootfs os r = optional os r rootfsName ''the base image''"

text \<open>A missing key of a Go map reads as the empty string.\<close>

definition Version :: "release \<Rightarrow> string" where
  "Version r = (case r_env r ''version'' of None \<Rightarrow> [] | Some v \<Rightarrow> v)"

text \<open>The zero value of the structs, and the parts of a spec a release supplies.\<close>

definition zero_cmdline :: cmdline where
  "zero_cmdline = \<lparr>c_Console = [], c_Quiet = False, c_LogLevel = 0, c_Init = [], c_Root = [],
     c_RootReadonly = False, c_Extra = []\<rparr>"

definition zero_spec :: spec where
  "zero_spec = \<lparr>s_QEMU = [], s_Kernel = [], s_Initrd = [], s_Firmware = [], s_BIOS = [],
     s_BootCPUs = 0, s_MaxCPUs = 0, s_Memory = \<lparr>m_SizeMB = 0, m_MaxMB = 0\<rparr>, s_CPU = [], s_Accel = [],
     s_Disks = [], s_NICs = [], s_HotplugDisks = 0, s_VsockCID = 0, s_VsockFD = 0, s_KVMFDSet = 0,
     s_Monitors = [], s_FDSets = [], s_SerialFDSet = 0, s_Serial = [], s_Cmdline = zero_cmdline,
     s_Incoming = []\<rparr>"

definition release_Spec :: "release \<Rightarrow> spec" where
  "release_Spec r = zero_spec\<lparr>s_QEMU := release_QEMU r, s_Kernel := release_Kernel r,
     s_Firmware := release_Firmware r\<rparr>"

subsection \<open>Which line the manifest is refused at, and what it holds\<close>

definition skip_line :: "string \<Rightarrow> bool" where
  "skip_line l = (TrimSpace l = [] \<or> HasPrefix (TrimSpace l) ''#'')"

definition bad_line :: "string \<Rightarrow> bool" where
  "bad_line l = (\<not> skip_line l \<and>
     (CHR ''='' \<notin> set (TrimSpace l) \<or> TrimSpace (fst (Cut (TrimSpace l) (CHR ''=''))) = []))"

definition line_pair :: "string \<Rightarrow> string \<times> string" where
  "line_pair l = (let (k, v, _) = Cut (TrimSpace l) (CHR ''='') in (TrimSpace k, TrimSpace v))"

definition env_pairs :: "string list \<Rightarrow> (string \<times> string) list" where
  "env_pairs ls = map line_pair (filter (\<lambda>l. \<not> skip_line l) ls)"

lemma Cut_ok: "snd (snd (Cut s c)) \<longleftrightarrow> c \<in> set s"
proof (cases "c \<in> set s")
  case True
  then obtain a b where "s = a @ c # b" and "c \<notin> set a" by (metis split_list_first)
  then show ?thesis using True Cut_found [of c a b] by simp
qed (simp add: Cut_not_found)

lemma env_from_step:
  "env_from n env (l # ls) =
     (if skip_line l then env_from (Suc n) env ls
      else if bad_line l then Inl (n, TrimSpace l)
      else env_from (Suc n) (env(fst (line_pair l) \<mapsto> snd (line_pair l))) ls)"
proof -
  obtain k v ok where cut: "Cut (TrimSpace l) (CHR ''='') = (k, v, ok)" by (metis prod_cases3)
  then have "ok \<longleftrightarrow> CHR ''='' \<in> set (TrimSpace l)" using Cut_ok [of "TrimSpace l" "CHR ''=''"] by simp
  with cut show ?thesis by (simp add: skip_line_def bad_line_def line_pair_def Let_def)
qed

lemma env_from_ok:
  "\<forall>l \<in> set ls. \<not> bad_line l \<Longrightarrow> env_from n env ls = Inr (env ++ map_of (rev (env_pairs ls)))"
proof (induction ls arbitrary: n env)
  case Nil
  then show ?case by (simp add: env_pairs_def)
next
  case (Cons l ls)
  then show ?case
    by (simp add: env_from_step env_pairs_def map_add_upd_left [symmetric] del: env_from.simps)
qed

lemma env_from_bad:
  "\<exists>l \<in> set ls. bad_line l \<Longrightarrow> env_from n env ls =
     Inl (n + length (takeWhile (\<lambda>l. \<not> bad_line l) ls), TrimSpace (hd (dropWhile (\<lambda>l. \<not> bad_line l) ls)))"
proof (induction ls arbitrary: n env)
  case Nil
  then show ?case by simp
next
  case (Cons l ls)
  show ?case
  proof (cases "bad_line l")
    case True
    then have "\<not> skip_line l" by (simp add: bad_line_def)
    with True show ?thesis by (simp add: env_from_step del: env_from.simps)
  next
    case False
    with Cons show ?thesis by (simp add: env_from_step del: env_from.simps)
  qed
qed

lemma readEnv_lines:
  assumes "os_open os path = Inr (content, rerr)"
  shows "readEnv os path = (case env_from 1 Map.empty (fst (scan content rerr)) of
       Inl (n, line) \<Rightarrow> Inl (NotKeyValue path n line)
     | Inr env \<Rightarrow> (case snd (scan content rerr) of Some e \<Rightarrow> Inl (ReadingLines path e) | None \<Rightarrow> Inr env))"
  by (cases "scan content rerr") (simp add: readEnv_def assms split: sum.split)

text \<open>Text a manifest may hold: visible ASCII.\<close>

definition graphic :: "string \<Rightarrow> bool" where
  "graphic s = (\<forall>c \<in> set s. 33 \<le> (of_char c :: nat) \<and> (of_char c :: nat) < 127)"

lemma graphic_append [simp]: "graphic (a @ b) \<longleftrightarrow> graphic a \<and> graphic b"
  by (auto simp: graphic_def)

lemma graphic_TrimSpace: "graphic s \<Longrightarrow> TrimSpace s = s"
proof -
  assume g: "graphic s"
  have width: "space_width u = 0" "space_width_last u = 0" if "u \<noteq> []" and "graphic u" for u
    using that by (auto simp: space_width_def space_width_last_def graphic_def ascii_space_def neq_Nil_conv)
  show ?thesis
  proof (cases "s = []")
    case False
    then show ?thesis using g width [of s] width [of "rev s"]
      by (intro TrimSpace_fixed) (simp_all add: graphic_def)
  qed simp
qed

lemma graphic_one_line: "graphic s \<Longrightarrow> CHR 0x0A \<notin> set s \<and> CHR 0x0D \<notin> set s"
  by (auto simp: graphic_def)

definition env_line :: "string \<times> string \<Rightarrow> string" where
  "env_line kv = fst kv @ ''='' @ snd kv"

definition env_ok :: "string \<times> string \<Rightarrow> bool" where
  "env_ok kv = (graphic (fst kv) \<and> graphic (snd kv) \<and> fst kv \<noteq> [] \<and> CHR ''='' \<notin> set (fst kv)
     \<and> hd (fst kv) \<noteq> CHR ''#'' \<and> line_fits (env_line kv))"

lemma env_line_read:
  assumes "env_ok kv"
  shows "\<not> skip_line (env_line kv)" and "\<not> bad_line (env_line kv)" and "line_pair (env_line kv) = kv"
proof -
  obtain c k where k: "fst kv = c # k" using assms by (cases "fst kv") (auto simp: env_ok_def)
  have trim: "TrimSpace (env_line kv) = env_line kv"
    by (rule graphic_TrimSpace) (use assms in \<open>auto simp: env_ok_def env_line_def graphic_def\<close>)
  have cut: "Cut (env_line kv) (CHR ''='') = (fst kv, snd kv, True)"
    using assms Cut_found [of "CHR ''=''" "fst kv" "snd kv"] by (simp add: env_ok_def env_line_def)
  show skip: "\<not> skip_line (env_line kv)"
    using assms k by (simp add: skip_line_def trim) (simp add: env_line_def HasPrefix_def env_ok_def)
  have key: "TrimSpace (fst kv) = fst kv" "TrimSpace (snd kv) = snd kv"
    using assms by (simp_all add: env_ok_def graphic_TrimSpace)
  show "\<not> bad_line (env_line kv)"
    using skip cut key Cut_ok [of "env_line kv" "CHR ''=''"] k by (simp add: bad_line_def trim)
  show "line_pair (env_line kv) = kv" by (simp add: line_pair_def trim cut key)
qed

lemma Abs_rooted:
  assumes "\<And>wd. os_getwd os = Inr wd \<Longrightarrow> IsAbs wd" and "Abs os dir = Inr root"
  shows "\<exists>es. list_all plain_elem es \<and> root = abs_path es"
proof -
  have rooted: "\<exists>es. list_all plain_elem es \<and> Clean p = abs_path es" if "IsAbs p" for p
    using that Clean_rooted [of "tl p"] by (cases p) (auto simp: IsAbs_def HasPrefix_def)
  show ?thesis
  proof (cases "IsAbs dir")
    case True
    then have "root = Clean dir" using assms(2) by (simp add: Abs_def)
    then show ?thesis using rooted [OF True] by simp
  next
    case False
    then obtain wd where "os_getwd os = Inr wd" and root: "root = path_join wd dir"
      using assms(2) by (auto simp: Abs_def split: sum.splits)
    then have wd: "IsAbs wd" using assms(1) by blast
    then have "wd \<noteq> []" and "IsAbs (wd @ x)" for x by (cases wd; simp add: IsAbs_def HasPrefix_def)+
    then show ?thesis using rooted [OF wd] rooted [of "wd @ ''/'' @ dir"]
      by (auto simp: root path_join_def)
  qed
qed

lemma stat_all_None: "stat_all os root wants = None \<longleftrightarrow> (\<forall>w \<in> set wants. \<exists>n. os_stat os (path_join root w) = Inr n)"
  by (induction wants) (auto split: sum.splits)

lemma OpenRelease_Inr:
  "OpenRelease os dir = Inr r \<longleftrightarrow> Abs os dir = Inr (r_dir r) \<and> stat_all os (r_dir r) wanted = None
     \<and> readEnv os (path_join (r_dir r) manifest) = Inr (r_env r)"
  by (cases r) (auto simp: OpenRelease_def split: sum.splits option.splits)

lemma release_paths:
  assumes "list_all plain_elem es" and "r_dir r = abs_path es"
  shows "release_QEMU r = abs_path (es @ [''bin'', ''qemu-system-x86_64''])"
    and "release_QEMUImg r = abs_path (es @ [''bin'', ''qemu-img''])"
    and "release_Kernel r = abs_path (es @ [''kernel'', ''vmlinux''])"
    and "release_Firmware r = abs_path (es @ [''qemu''])"
  using path_join_plain [OF assms(1), of "[''bin'', ''qemu-system-x86_64'']"]
    path_join_plain [OF assms(1), of "[''bin'', ''qemu-img'']"]
    path_join_plain [OF assms(1), of "[''kernel'', ''vmlinux'']"] path_join_plain [OF assms(1), of "[''qemu'']"]
  by (simp_all add: release_QEMU_def release_QEMUImg_def release_Kernel_def release_Firmware_def assms(2)
      machine_defs plain_elem_def)

lemma firmware_file:
  assumes "list_all plain_elem es" and "r_dir r = abs_path es" and "plain_elem b"
  shows "path_join (release_Firmware r) b = path_join (r_dir r) (firmwareDir @ ''/'' @ b)"
proof -
  have "path_join (release_Firmware r) b = abs_path ((es @ [''qemu'']) @ [b])"
    unfolding release_paths(4) [OF assms(1,2)]
    using path_join_plain [of "es @ [''qemu'']" "[b]"] assms by (simp add: plain_elem_def)
  moreover have "path_join (r_dir r) (firmwareDir @ ''/'' @ b) = abs_path (es @ [''qemu'', b])"
    using path_join_plain [OF assms(1), of "[''qemu'', b]"] assms(2,3) by (simp add: machine_defs plain_elem_def)
  ultimately show ?thesis by simp
qed

lemma wanted_eq: "wanted = [qemuName, qemuImgName, kernelName, firmwareDir @ ''/'' @ ''pvh.bin'', firmwareDir @ ''/'' @ DefaultBIOS]"
  by code_simp

lemma abs_path_nonempty: "abs_path es \<noteq> []"
  by (simp add: abs_path_def)

subsection \<open>Properties\<close>

definition sample_tree :: os_env where
  "sample_tree = \<lparr>os_stat = (\<lambda>p. Inr 1),
     os_open = (\<lambda>p. Inr (unlines [''# release'', ''version=v1.2'', '' qemu = 11.1 ''], None)),
     os_getwd = Inr ''/home/u''\<rparr>"

lemma sample_tree_open: "\<exists>r. OpenRelease sample_tree ''_output'' = Inr r \<and> r_dir r = ''/home/u/_output''"
proof -
  have "Abs sample_tree ''_output'' = Inr ''/home/u/_output''" by code_simp
  moreover have "stat_all sample_tree root wants = None" for root wants
    by (simp add: stat_all_None sample_tree_def)
  moreover have "\<exists>env. readEnv sample_tree p = Inr env" for p
  proof -
    have "fst (scan (unlines [''# release'', ''version=v1.2'', '' qemu = 11.1 '']) None)
        = [''# release'', ''version=v1.2'', '' qemu = 11.1 '']"
      "snd (scan (unlines [''# release'', ''version=v1.2'', '' qemu = 11.1 '']) None) = None"
      "\<forall>l \<in> set [''# release'', ''version=v1.2'', '' qemu = 11.1 '']. \<not> bad_line l" by code_simp+
    then show ?thesis
      using readEnv_lines [of sample_tree p "unlines [''# release'', ''version=v1.2'', '' qemu = 11.1 '']" None]
      by (simp only: env_from_ok sum.case option.case) (simp add: sample_tree_def)
  qed
  then obtain env where "readEnv sample_tree (path_join ''/home/u/_output'' manifest) = Inr env" by blast
  ultimately have "OpenRelease sample_tree ''_output'' = Inr \<lparr>r_dir = ''/home/u/_output'', r_env = env\<rparr>"
    by (simp add: OpenRelease_Inr)
  then show ?thesis by auto
qed

text \<open>C21: A release that opens is whole: on a host whose working directory is absolute, the
  emulator, \<^verbatim>\<open>qemu-img\<close>, the kernel, the PVH option ROM and the default BIOS are where the
  release's own accessors and QEMU's firmware search will look for them, the spec it hands out
  names them by absolute paths, and the BIOS the fingerprint sizes is one of the files checked.\<close>

theorem opened_release_is_whole:
  assumes "OpenRelease os dir = Inr r" and "\<And>wd. os_getwd os = Inr wd \<Longrightarrow> IsAbs wd"
  shows "(\<forall>p \<in> {release_QEMU r, release_QEMUImg r, release_Kernel r,
            path_join (s_Firmware (release_Spec r)) ''pvh.bin'',
            path_join (s_Firmware (release_Spec r)) (spec_bios (release_Spec r))}.
          IsAbs p \<and> (\<exists>n. os_stat os p = Inr n))
    \<and> s_QEMU (release_Spec r) = release_QEMU r \<and> s_Kernel (release_Spec r) = release_Kernel r
    \<and> IsAbs (s_Firmware (release_Spec r))"
proof -
  have abs: "Abs os dir = Inr (r_dir r)" and stat: "stat_all os (r_dir r) wanted = None"
    using assms(1) by (simp_all add: OpenRelease_Inr)
  obtain es where es: "list_all plain_elem es" "r_dir r = abs_path es"
    using Abs_rooted [OF assms(2) abs] by blast
  have rooted: "IsAbs (abs_path xs)" for xs by (simp add: IsAbs_def HasPrefix_def abs_path_def)
  have spec: "s_Firmware (release_Spec r) = release_Firmware r" "spec_bios (release_Spec r) = ''qboot.bin''"
    by (simp_all add: release_Spec_def zero_spec_def spec_bios_def DefaultBIOS_def)
  have plain: "plain_elem ''pvh.bin''" "plain_elem ''qboot.bin''" by (simp_all add: plain_elem_def)
  have there: "\<exists>n. os_stat os (path_join (r_dir r) w) = Inr n" if "w \<in> set wanted" for w
    using stat that by (simp add: stat_all_None)
  have blobs: "path_join (release_Firmware r) ''pvh.bin'' = path_join (r_dir r) (firmwareDir @ ''/'' @ ''pvh.bin'')"
    "path_join (release_Firmware r) ''qboot.bin'' = path_join (r_dir r) (firmwareDir @ ''/'' @ DefaultBIOS)"
    using firmware_file [OF es plain(1)] firmware_file [OF es plain(2)] by (simp_all add: DefaultBIOS_def)
  have absolute: "IsAbs (path_join (release_Firmware r) b)" if "plain_elem b" for b
    unfolding release_paths(4) [OF es]
    using path_join_plain [of "es @ [''qemu'']" "[b]"] es(1) that rooted by (simp add: plain_elem_def)
  show ?thesis
    using there [of qemuName] there [of qemuImgName] there [of kernelName]
      there [of "firmwareDir @ ''/'' @ ''pvh.bin''"] there [of "firmwareDir @ ''/'' @ DefaultBIOS"]
      absolute [OF plain(1)] absolute [OF plain(2)] rooted release_paths [OF es]
    unfolding spec wanted_eq release_QEMU_def [symmetric] release_QEMUImg_def [symmetric]
      release_Kernel_def [symmetric] blobs [symmetric]
    by (simp add: release_Spec_def zero_spec_def)
qed

theorem opened_release_is_whole_witness:
  "\<exists>r. OpenRelease sample_tree ''_output'' = Inr r \<and> IsAbs (release_Kernel r)"
proof -
  obtain r where r: "OpenRelease sample_tree ''_output'' = Inr r" using sample_tree_open by blast
  have "IsAbs wd" if "os_getwd sample_tree = Inr wd" for wd
    using that by (auto simp: sample_tree_def IsAbs_def HasPrefix_def)
  with opened_release_is_whole [OF r] r show ?thesis by blast
qed

text \<open>What \<^verbatim>\<open>hack/release\<close> writes is what \<^verbatim>\<open>readEnv\<close> reads: a manifest of \<^verbatim>\<open>key=value\<close> lines of
  visible characters, each shorter than the scanner's buffer, reads back as those values, the
  last one of a repeated key.\<close>

theorem manifest_reads_back:
  assumes "os_open os path = Inr (unlines (map env_line kvs), None)" and "list_all env_ok kvs"
  shows "readEnv os path = Inr (map_of (rev kvs))"
proof -
  have ok: "\<And>kv. kv \<in> set kvs \<Longrightarrow> env_ok kv" using assms(2) by (simp add: list_all_iff)
  have "scan (unlines (map env_line kvs)) None = (map env_line kvs, None)"
    by (rule scan_unlines) (use ok graphic_one_line in \<open>auto simp: env_ok_def env_line_def\<close>)
  moreover have "env_from 1 Map.empty (map env_line kvs) = Inr (Map.empty ++ map_of (rev (env_pairs (map env_line kvs))))"
    by (rule env_from_ok) (use ok env_line_read in auto)
  moreover have "env_pairs (map env_line kvs) = kvs"
    using ok env_line_read by (simp add: env_pairs_def filter_map comp_def map_idI)
  ultimately show ?thesis using readEnv_lines [OF assms(1)] by simp
qed

theorem manifest_reads_back_witness:
  "readEnv (sample_tree\<lparr>os_open := (\<lambda>p. Inr (unlines (map env_line [(''version'', ''v1.2''), (''kernel'', ''6.19'')]), None))\<rparr>) ''m''
     = Inr (map_of [(''kernel'', ''6.19''), (''version'', ''v1.2'')])"
proof -
  have "list_all env_ok [(''version'', ''v1.2''), (''kernel'', ''6.19'')]" by code_simp
  from manifest_reads_back [OF _ this] show ?thesis by simp
qed

text \<open>C38: A damaged manifest is refused where the damage is. Of a manifest that opens, \<^verbatim>\<open>readEnv\<close>
  reports the first line that is neither blank, a comment nor \<^verbatim>\<open>key=value\<close> with a key, by its
  number counted from one; with no such line it reports a read error if there was one; and only
  otherwise does it answer, with the trimmed keys and values, the last one of a repeated key.\<close>

theorem manifest_refused_at_the_first_bad_line:
  assumes "os_open os path = Inr (content, rerr)" and "ls = fst (scan content rerr)"
  shows "readEnv os path =
     (if \<exists>l \<in> set ls. bad_line l
      then Inl (NotKeyValue path (Suc (length (takeWhile (\<lambda>l. \<not> bad_line l) ls)))
                  (TrimSpace (hd (dropWhile (\<lambda>l. \<not> bad_line l) ls))))
      else case snd (scan content rerr) of
             Some e \<Rightarrow> Inl (ReadingLines path e)
           | None \<Rightarrow> Inr (map_of (rev (env_pairs ls))))"
proof (cases "\<exists>l \<in> set ls. bad_line l")
  case True
  from env_from_bad [OF this, of 1] True show ?thesis
    unfolding readEnv_lines [OF assms(1)] assms(2) [symmetric] by simp
next
  case False
  then have "env_from 1 Map.empty ls = Inr (Map.empty ++ map_of (rev (env_pairs ls)))"
    by (intro env_from_ok) blast
  with False show ?thesis unfolding readEnv_lines [OF assms(1)] assms(2) [symmetric] by simp
qed

theorem manifest_refused_at_the_first_bad_line_witness:
  "readEnv (sample_tree\<lparr>os_open := (\<lambda>p. Inr (unlines [''a=1'', ''damaged''], None))\<rparr>) ''m'' = Inl (NotKeyValue ''m'' 2 ''damaged'')"
proof -
  have "fst (scan (unlines [''a=1'', ''damaged'']) None) = [''a=1'', ''damaged'']" by code_simp
  moreover have "bad_line ''damaged''" "\<not> bad_line ''a=1''" "TrimSpace ''damaged'' = ''damaged''" by code_simp+
  ultimately show ?thesis
    using manifest_refused_at_the_first_bad_line [of "sample_tree\<lparr>os_open := (\<lambda>p. Inr (unlines [''a=1'', ''damaged''], None))\<rparr>" "''m''"]
    by simp
qed

end
