(* ===== verification/Cli.thy ===== *)
theory Cli
  imports Release Machine_Opts
begin

text \<open>
  The commands of \<^verbatim>\<open>cmd/spin-machine\<close> that describe and start a machine: the flags of \<^verbatim>\<open>boot\<close>,
  \<^verbatim>\<open>args\<close> and \<^verbatim>\<open>fingerprint\<close> with their defaults, \<^verbatim>\<open>machineFlags.spec\<close>, \<^verbatim>\<open>qemuArgs\<close>, what
  \<^verbatim>\<open>boot\<close> executes, and the ids of a hotplugged disk.

  A command returns what it would do: \<open>boot\<close> the binary and arguments it executes. The search
  for the binary (\<^verbatim>\<open>exec.LookPath\<close>) and \<^verbatim>\<open>syscall.Exec\<close> are arguments.
\<close>

record machineFlags =
  mf_release :: string
  mf_qemu :: string
  mf_kernel :: string
  mf_initrd :: string
  mf_firmware :: string
  mf_bios :: string
  mf_disk :: string
  mf_diskFormat :: string
  mf_readonly :: bool
  mf_serial :: string
  mf_directOverBacking :: bool
  mf_memoryMB :: int
  mf_maxMemMB :: int
  mf_cpuModel :: string
  mf_accel :: string
  mf_cpus :: int
  mf_maxCPUs :: int
  mf_hotplugDisks :: int
  mf_vsockCID :: int
  mf_qmp :: string
  mf_console :: string
  mf_incoming :: string
  mf_init :: string
  mf_root :: string
  mf_profile :: bool
  mf_extra :: string

text \<open>The values the flags have when none is given.\<close>

definition machineFlags_register :: machineFlags where
  "machineFlags_register =
     \<lparr>mf_release = ''_output'', mf_qemu = [], mf_kernel = [], mf_initrd = [], mf_firmware = [], mf_bios = [],
      mf_disk = [], mf_diskFormat = ''qcow2'', mf_readonly = False, mf_serial = [],
      mf_directOverBacking = False,
      mf_memoryMB = 2048, mf_maxMemMB = 0, mf_cpuModel = [], mf_accel = [], mf_cpus = 2, mf_maxCPUs = 0,
      mf_hotplugDisks = 0, mf_vsockCID = 0, mf_qmp = [], mf_console = ''mon:stdio'', mf_incoming = [],
      mf_init = [], mf_root = ''/dev/vda'', mf_profile = False, mf_extra = []\<rparr>"

definition scratch :: "machineFlags \<Rightarrow> bool" where
  "scratch o' = (mf_disk o' = [])"

definition or_else :: "string \<Rightarrow> string \<Rightarrow> string" where
  "or_else v fallback = (if v \<noteq> [] then v else fallback)"

text \<open>The kernel command line \<^verbatim>\<open>spec\<close> builds, given whether there is a disk.\<close>

definition flags_cmdline :: "machineFlags \<Rightarrow> bool \<Rightarrow> cmdline" where
  "flags_cmdline o' disk =
     (let c = DefaultCmdline\<lparr>c_Init := mf_init o'\<rparr>;
          c = (if disk then c\<lparr>c_Root := mf_root o', c_RootReadonly := mf_readonly o'\<rparr> else c);
          c = (if mf_profile o' then Profiling c else c);
          c = (if mf_extra o' \<noteq> [] then c\<lparr>c_Extra := c_Extra c @ Fields (mf_extra o')\<rparr> else c)
      in if mf_console o' = [] then c\<lparr>c_Console := []\<rparr> else c)"

definition flags_disk :: "machineFlags \<Rightarrow> string \<Rightarrow> disk" where
  "flags_disk o' path = \<lparr>d_Path = path, d_Chain = [], d_Format = mf_diskFormat o',
     d_Readonly = mf_readonly o', d_Serial = mf_serial o', d_Locking = False,
     d_DirectOverBacking = mf_directOverBacking o'\<rparr>"

text \<open>The spec once the release is open and the emulator and the disk are named.\<close>

definition flags_machine :: "machineFlags \<Rightarrow> spec \<Rightarrow> string \<Rightarrow> spec" where
  "flags_machine o' s disk = s
     \<lparr>s_Accel := mf_accel o', s_QEMU := or_else (mf_qemu o') (s_QEMU s),
      s_Kernel := or_else (mf_kernel o') (s_Kernel s),
      s_Firmware := or_else (mf_firmware o') (s_Firmware s),
      s_BIOS := mf_bios o', s_Initrd := mf_initrd o', s_CPU := mf_cpuModel o',
      s_BootCPUs := mf_cpus o', s_MaxCPUs := mf_maxCPUs o',
      s_Memory := \<lparr>m_SizeMB = mf_memoryMB o', m_MaxMB = mf_maxMemMB o'\<rparr>,
      s_HotplugDisks := mf_hotplugDisks o', s_VsockCID := mf_vsockCID o',
      s_Monitors := (if mf_qmp o' \<noteq> [] then [\<lparr>mon_Socket = mf_qmp o', mon_FD = 0\<rparr>] else s_Monitors s),
      s_Incoming := mf_incoming o', s_Serial := mf_console o',
      s_Disks := (if disk \<noteq> ''-'' then [flags_disk o' disk] else s_Disks s),
      s_Cmdline := flags_cmdline o' (disk \<noteq> ''-'')\<rparr>"

definition flags_spec :: "os_env \<Rightarrow> machineFlags \<Rightarrow> (release_error, spec) result" where
  "flags_spec os o' =
     (case OpenRelease os (mf_release o') of Inl e \<Rightarrow> Inl e | Inr rel \<Rightarrow>
      case (if mf_accel o' = ''tcg'' \<and> mf_qemu o' = [] then QEMUTCG os rel
            else Inr (s_QEMU (release_Spec rel))) of Inl e \<Rightarrow> Inl e | Inr qemu \<Rightarrow>
      case (if scratch o' then Rootfs os rel else Inr (mf_disk o')) of Inl e \<Rightarrow> Inl e | Inr disk \<Rightarrow>
      Inr (flags_machine o' ((release_Spec rel)\<lparr>s_QEMU := qemu\<rparr>) disk))"

definition qemuArgs :: "spec \<Rightarrow> bool \<Rightarrow> (spec_error, argv) result" where
  "qemuArgs s scr =
     (case Args s of Inl e \<Rightarrow> Inl e
      | Inr args \<Rightarrow> Inr (if scr \<and> length (s_Disks s) > 0 then args @ [''-snapshot''] else args))"

datatype boot_error = BootArgs spec_error | FindingQEMU os_error | ExecutingQEMU string os_error

text \<open>\<open>exec\<close> is \<^verbatim>\<open>syscall.Exec\<close>: it answers only when it failed, and otherwise the process is QEMU.\<close>

definition boot ::
  "(string \<Rightarrow> (os_error, string) result) \<Rightarrow> (string \<Rightarrow> argv \<Rightarrow> os_error option) \<Rightarrow> spec \<Rightarrow> bool
    \<Rightarrow> (boot_error, string \<times> argv) result" where
  "boot lookPath exec s scr =
     (case qemuArgs s scr of Inl e \<Rightarrow> Inl (BootArgs e) | Inr args \<Rightarrow>
      case lookPath (s_QEMU s) of Inl e \<Rightarrow> Inl (FindingQEMU e) | Inr qemu \<Rightarrow>
      case exec qemu (qemu # args) of Some e \<Rightarrow> Inl (ExecutingQEMU qemu e) | None \<Rightarrow>
      Inr (qemu, qemu # args))"

subsection \<open>Hotplug targets\<close>

definition hotplugDiskID :: "int \<Rightarrow> string" where
  "hotplugDiskID target = ''hd'' @ decz target"

definition hotplugDriveID :: "int \<Rightarrow> string" where
  "hotplugDriveID target = ''hd'' @ decz target @ ''-drive''"

datatype target_error = BadTarget int int

definition checkTarget :: "int \<Rightarrow> target_error option" where
  "checkTarget target =
     (if target < 0 \<or> target \<ge> MaxHotplugDisks then Some (BadTarget target (MaxHotplugDisks - 1)) else None)"

subsection \<open>What the flags make\<close>

lemma flags_spec_Inr:
  "flags_spec os o' = Inr s \<longleftrightarrow> (\<exists>rel qemu disk. OpenRelease os (mf_release o') = Inr rel
     \<and> (if mf_accel o' = ''tcg'' \<and> mf_qemu o' = [] then QEMUTCG os rel else Inr (release_QEMU rel)) = Inr qemu
     \<and> (if scratch o' then Rootfs os rel else Inr (mf_disk o')) = Inr disk
     \<and> s = flags_machine o' ((release_Spec rel)\<lparr>s_QEMU := qemu\<rparr>) disk)"
  by (auto simp: flags_spec_def release_Spec_def split: sum.splits)

lemma optional_Inr: "optional os r name what = Inr p \<longleftrightarrow> p = path_join (r_dir r) name \<and> (\<exists>n. os_stat os p = Inr n)"
  by (auto simp: optional_def Let_def split: sum.splits)

lemma flags_cmdline_fields:
  "c_Root (flags_cmdline o' d) = (if d then mf_root o' else [])"
  "c_RootReadonly (flags_cmdline o' d) = (d \<and> mf_readonly o')"
  "c_Console (flags_cmdline o' d) = (if mf_console o' = [] then [] else ''ttyS0'')"
  "c_Init (flags_cmdline o' d) = mf_init o'"
  "c_Extra (flags_cmdline o' d) = (if mf_profile o' then c_Extra (Profiling DefaultCmdline) else [])
     @ (if mf_extra o' \<noteq> [] then Fields (mf_extra o') else [])"
  by (simp_all add: flags_cmdline_def Let_def Profiling_def DefaultCmdline_def)

lemma snapshot_opts:
  "qemuArgs s scr = Inr args \<Longrightarrow>
     argv_opts args = args_opts s @ (if scr \<and> s_Disks s \<noteq> [] then [(''-snapshot'', None)] else [])"
proof -
  assume "qemuArgs s scr = Inr args"
  then have "args = opts_argv (args_opts s @ (if scr \<and> s_Disks s \<noteq> [] then [(''-snapshot'', None)] else []))"
    by (auto simp: qemuArgs_def Args_Inr split: sum.splits)
  moreover have "list_all whole_opt (args_opts s @ (if scr \<and> s_Disks s \<noteq> [] then [(''-snapshot'', None)] else []))"
    using args_whole by (simp add: whole_opt_def bare_flags_def)
  ultimately show ?thesis by (simp only: argv_opts_argv)
qed

lemma no_snapshot_opt: "(''-snapshot'', None) \<notin> set (args_opts s)"
  by (auto simp: args_opts_def shape_opts_def chipset_opts_def boot_opts_def device_opts_def disks_opts_def
      disk_opts_def chain_opts_def nics_opts_def nic_opts_def console_opts_def monitors_opts_def
      monitor_opts_def fdsets_opts_def fdset_opts_def incoming_opts_def Let_def split: if_splits)

lemma rootfs_not_dash:
  assumes "OpenRelease os dir = Inr rel" and "\<And>wd. os_getwd os = Inr wd \<Longrightarrow> IsAbs wd" and "Rootfs os rel = Inr p"
  shows "p = path_join (r_dir rel) rootfsName" and "p \<noteq> ''-''" and "p \<noteq> []"
proof -
  have "Abs os dir = Inr (r_dir rel)" using assms(1) by (simp add: OpenRelease_Inr)
  then obtain es where es: "list_all plain_elem es" "r_dir rel = abs_path es"
    using Abs_rooted [OF assms(2)] by blast
  show p: "p = path_join (r_dir rel) rootfsName" using assms(3) by (simp add: Rootfs_def optional_Inr)
  have "p = abs_path (es @ [''image'', ''rootfs.qcow2''])"
    using path_join_plain [OF es(1), of "[''image'', ''rootfs.qcow2'']"] p es(2)
    by (simp add: machine_defs plain_elem_def)
  then show "p \<noteq> ''-''" "p \<noteq> []" by (simp_all add: abs_path_def)
qed

lemma default_cmdline_ok: "cmdline_ok (flags_cmdline machineFlags_register True)"
proof -
  have "Cmdline_validate (flags_cmdline machineFlags_register True) = None" by code_simp
  then show ?thesis by (simp add: Cmdline_validate_None)
qed

lemma default_spec_ok:
  assumes "q \<noteq> []" and "k \<noteq> []" and "f \<noteq> []" and "p \<noteq> []" and "p \<noteq> ''-''"
    and "s_QEMU s = q" "s_Kernel s = k" "s_Firmware s = f" "s_NICs s = []" "s_FDSets s = []" "s_Monitors s = []"
    and "s_SerialFDSet s = 0" "s_KVMFDSet s = 0" "s_VsockFD s = 0"
  shows "spec_ok (flags_machine machineFlags_register s p)"
  using assms default_cmdline_ok
  by (simp add: spec_ok_def fields_ok_def flags_machine_def machineFlags_register_def or_else_def
      cpu_name_ok_def machine_defs fdsets_ok_def descriptors_ok_def disk_ok_def flags_disk_def)

lemma release_default_ok:
  assumes "OpenRelease os dir = Inr rel" and "\<And>wd. os_getwd os = Inr wd \<Longrightarrow> IsAbs wd" and "Rootfs os rel = Inr p"
  shows "spec_ok (flags_machine machineFlags_register ((release_Spec rel)\<lparr>s_QEMU := release_QEMU rel\<rparr>) p)"
proof -
  have "Abs os dir = Inr (r_dir rel)" using assms(1) by (simp add: OpenRelease_Inr)
  then obtain es where es: "list_all plain_elem es" "r_dir rel = abs_path es"
    using Abs_rooted [OF assms(2)] by blast
  have "release_QEMU rel \<noteq> []" "release_Kernel rel \<noteq> []" "release_Firmware rel \<noteq> []"
    using release_paths [OF es] abs_path_nonempty by simp_all
  then show ?thesis
    using rootfs_not_dash [OF assms] by (intro default_spec_ok) (simp_all add: release_Spec_def zero_spec_def)
qed

subsection \<open>Properties\<close>

text \<open>C20: The base image is never written. When no disk is named, the machine's one disk is the
  release's base image and the command line ends in \<^verbatim>\<open>-snapshot\<close>, which puts it under a
  throw-away overlay; when a disk is named, it is opened as given and nothing is thrown away.\<close>

theorem base_image_is_never_written:
  assumes "flags_spec os o' = Inr s" and "qemuArgs s (scratch o') = Inr args"
    and "\<And>wd. os_getwd os = Inr wd \<Longrightarrow> IsAbs wd"
  shows "((''-snapshot'', None) \<in> set (argv_opts args) \<longleftrightarrow> mf_disk o' = [])
    \<and> (if mf_disk o' = [] then \<exists>rel. OpenRelease os (mf_release o') = Inr rel
          \<and> map d_Path (s_Disks s) = [path_join (r_dir rel) rootfsName]
       else map d_Path (s_Disks s) = (if mf_disk o' = ''-'' then [] else [mf_disk o']))"
proof -
  from assms(1) obtain rel qemu disk where rel: "OpenRelease os (mf_release o') = Inr rel"
    and disk: "(if scratch o' then Rootfs os rel else Inr (mf_disk o')) = Inr disk"
    and s: "s = flags_machine o' ((release_Spec rel)\<lparr>s_QEMU := qemu\<rparr>) disk"
    unfolding flags_spec_Inr by blast
  have paths: "map d_Path (s_Disks s) = (if disk = ''-'' then [] else [disk])"
    by (simp add: s flags_machine_def flags_disk_def release_Spec_def zero_spec_def)
  have snap: "(''-snapshot'', None) \<in> set (argv_opts args) \<longleftrightarrow> scratch o' \<and> s_Disks s \<noteq> []"
    unfolding snapshot_opts [OF assms(2)] using no_snapshot_opt [of s] by auto
  show ?thesis
  proof (cases "mf_disk o' = []")
    case True
    then have "Rootfs os rel = Inr disk" using disk by (simp add: scratch_def)
    from rootfs_not_dash [OF rel assms(3) this] paths
    have "map d_Path (s_Disks s) = [path_join (r_dir rel) rootfsName]" by simp
    then show ?thesis using True snap rel by (auto simp: scratch_def)
  next
    case False
    then show ?thesis using disk paths snap by (simp add: scratch_def)
  qed
qed

theorem base_image_is_never_written_witness:
  "\<exists>s args. flags_spec sample_tree machineFlags_register = Inr s
     \<and> qemuArgs s True = Inr args \<and> (''-snapshot'', None) \<in> set (argv_opts args)"
proof -
  obtain rel where rel: "OpenRelease sample_tree ''_output'' = Inr rel" using sample_tree_open by blast
  have wd: "IsAbs wd" if "os_getwd sample_tree = Inr wd" for wd
    using that by (auto simp: sample_tree_def IsAbs_def HasPrefix_def)
  obtain p where p: "Rootfs sample_tree rel = Inr p"
    by (auto simp: Rootfs_def optional_def Let_def sample_tree_def)
  let ?s = "flags_machine machineFlags_register ((release_Spec rel)\<lparr>s_QEMU := release_QEMU rel\<rparr>) p"
  have spec: "flags_spec sample_tree machineFlags_register = Inr ?s"
    using rel p by (simp add: flags_spec_def machineFlags_register_def scratch_def release_Spec_def)
  have ok: "spec_ok ?s" by (rule release_default_ok [OF rel wd p])
  have "qemuArgs ?s True = Inr (opts_argv (args_opts ?s) @ [''-snapshot''])"
    using Args_ok [OF ok] rootfs_not_dash(2) [OF rel wd p] by (simp add: qemuArgs_def flags_machine_def)
  moreover from this have "scratch machineFlags_register" by (simp add: scratch_def machineFlags_register_def)
  ultimately show ?thesis
    using base_image_is_never_written [OF spec _ wd] spec by (auto simp: machineFlags_register_def)
qed

text \<open>C22: No flags at all boot the release: on a host whose working directory is absolute, the
  defaults of the flags make, of any release that opens and has its base image, a machine
  \<^verbatim>\<open>validate\<close> accepts, with the release's own emulator, kernel and firmware.\<close>

theorem default_flags_make_a_machine:
  assumes "OpenRelease os (mf_release machineFlags_register) = Inr rel" and "Rootfs os rel = Inr p"
    and "\<And>wd. os_getwd os = Inr wd \<Longrightarrow> IsAbs wd"
  shows "\<exists>s args. flags_spec os machineFlags_register = Inr s \<and> validate s = None
     \<and> qemuArgs s (scratch machineFlags_register) = Inr args
     \<and> s_QEMU s = release_QEMU rel \<and> s_Kernel s = release_Kernel rel \<and> s_Firmware s = release_Firmware rel"
proof -
  let ?s = "flags_machine machineFlags_register ((release_Spec rel)\<lparr>s_QEMU := release_QEMU rel\<rparr>) p"
  have spec: "flags_spec os machineFlags_register = Inr ?s"
    using assms(1,2) by (simp add: flags_spec_def machineFlags_register_def scratch_def release_Spec_def)
  have ok: "spec_ok ?s" by (rule release_default_ok [OF assms(1,3,2)])
  then have "\<exists>args. qemuArgs ?s (scratch machineFlags_register) = Inr args" by (simp add: qemuArgs_def Args_ok)
  moreover have "s_QEMU ?s = release_QEMU rel" "s_Kernel ?s = release_Kernel rel" "s_Firmware ?s = release_Firmware rel"
    by (simp_all add: flags_machine_def machineFlags_register_def or_else_def release_Spec_def)
  ultimately show ?thesis using spec ok by (auto simp: validate_None)
qed

theorem default_flags_make_a_machine_witness:
  "\<exists>s. flags_spec sample_tree machineFlags_register = Inr s \<and> validate s = None"
proof -
  obtain rel where rel: "OpenRelease sample_tree (mf_release machineFlags_register) = Inr rel"
    using sample_tree_open by (auto simp: machineFlags_register_def)
  obtain p where p: "Rootfs sample_tree rel = Inr p"
    by (auto simp: Rootfs_def optional_def Let_def sample_tree_def)
  have "IsAbs wd" if "os_getwd sample_tree = Inr wd" for wd
    using that by (auto simp: sample_tree_def IsAbs_def HasPrefix_def)
  from default_flags_make_a_machine [OF rel p this] show ?thesis by blast
qed

text \<open>C23: The kernel is told of the machine it gets. Whatever the flags, the spec they make names a
  root device only if there is a disk to mount, mounts it read-only exactly when that disk is
  opened read-only, and names a console exactly when there is a serial port; and emulation is a
  different binary: with no emulator named, the TCG build runs exactly when \<^verbatim>\<open>tcg\<close> is asked for.\<close>

theorem kernel_is_told_of_the_machine_it_gets:
  assumes "flags_spec os o' = Inr s"
  shows "(c_Root (s_Cmdline s) \<noteq> [] \<longrightarrow> s_Disks s \<noteq> [])
    \<and> (\<forall>d \<in> set (s_Disks s). c_RootReadonly (s_Cmdline s) = d_Readonly d)
    \<and> (c_Console (s_Cmdline s) \<noteq> [] \<longleftrightarrow> s_Serial s \<noteq> [])
    \<and> (mf_qemu o' = [] \<longrightarrow> (\<exists>rel. OpenRelease os (mf_release o') = Inr rel \<and> s_QEMU s =
         path_join (r_dir rel) (if mf_accel o' = ''tcg'' then qemuTCGName else qemuName)))"
proof -
  from assms obtain rel qemu disk where rel: "OpenRelease os (mf_release o') = Inr rel"
    and qemu: "(if mf_accel o' = ''tcg'' \<and> mf_qemu o' = [] then QEMUTCG os rel else Inr (release_QEMU rel)) = Inr qemu"
    and s: "s = flags_machine o' ((release_Spec rel)\<lparr>s_QEMU := qemu\<rparr>) disk"
    unfolding flags_spec_Inr by blast
  have "s_QEMU s = path_join (r_dir rel) (if mf_accel o' = ''tcg'' then qemuTCGName else qemuName)" if "mf_qemu o' = []"
    using qemu that
    by (auto simp: s flags_machine_def or_else_def QEMUTCG_def optional_Inr release_QEMU_def split: if_splits)
  moreover have "s_Disks s = (if disk \<noteq> ''-'' then [flags_disk o' disk] else [])"
    by (simp add: s flags_machine_def release_Spec_def zero_spec_def)
  moreover have "s_Cmdline s = flags_cmdline o' (disk \<noteq> ''-'')" "s_Serial s = mf_console o'"
    by (simp_all add: s flags_machine_def)
  ultimately show ?thesis using rel by (simp add: flags_cmdline_fields flags_disk_def)
qed

theorem kernel_is_told_of_the_machine_it_gets_witness:
  "\<exists>s. flags_spec sample_tree (machineFlags_register\<lparr>mf_disk := ''-''\<rparr>) = Inr s \<and> s_Disks s = [] \<and> c_Root (s_Cmdline s) = []"
proof -
  obtain rel where rel: "OpenRelease sample_tree ''_output'' = Inr rel" using sample_tree_open by blast
  let ?o = "machineFlags_register\<lparr>mf_disk := ''-''\<rparr>"
  have spec: "flags_spec sample_tree ?o = Inr (flags_machine ?o ((release_Spec rel)\<lparr>s_QEMU := release_QEMU rel\<rparr>) ''-'')"
    using rel by (simp add: flags_spec_def machineFlags_register_def scratch_def release_Spec_def)
  moreover have "s_Disks (flags_machine ?o ((release_Spec rel)\<lparr>s_QEMU := release_QEMU rel\<rparr>) ''-'') = []"
    by (simp add: flags_machine_def release_Spec_def zero_spec_def)
  ultimately show ?thesis using kernel_is_told_of_the_machine_it_gets [OF spec] by blast
qed

end
