(* ===== verification/Go_Float.thy ===== *)
theory Go_Float
  imports Go_Strings "HOL-Library.Log_Nat"
begin

text \<open>
  What the boot reports use of Go's \<^verbatim>\<open>float64\<close> and \<^verbatim>\<open>math\<close>.

  A finite \<^verbatim>\<open>float64\<close> is the rational number it stands for, beside the two infinities and NaN; an operation
  is the exact one followed by \<open>fl\<close>, which rounds to the nearest number of 53 significant bits,
  ties to the even one, with the grid of the subnormal numbers below and an infinity above.
  The sign of a zero is not kept. No operation here makes a NaN of numbers that are none: the programs
  divide by finite positive numbers only. One can be given as a flag.

  \<open>round53_mono\<close> and \<open>round53_fixed\<close> are what the proofs rest on: rounding keeps the order, and
  does not move a number of 53 bits.
\<close>

subsection \<open>Rounding to an integer\<close>

definition rne :: "rat \<Rightarrow> int" where
  "rne x = (let f = \<lfloor>x\<rfloor>; d = x - of_int f in
     if d < 1 / 2 then f else if d > 1 / 2 then f + 1 else if even f then f else f + 1)"

lemma rne_of_int [simp]: "rne (of_int k) = k"
  by (simp add: rne_def Let_def)

lemma rne_floor: "\<lfloor>x\<rfloor> \<le> rne x \<and> rne x \<le> \<lfloor>x\<rfloor> + 1"
  by (simp add: rne_def Let_def)

lemma rne_mono: "x \<le> y \<Longrightarrow> rne x \<le> rne y"
proof -
  assume xy: "x \<le> y"
  then have f: "\<lfloor>x\<rfloor> \<le> \<lfloor>y\<rfloor>" by (rule floor_mono)
  show ?thesis
  proof (cases "\<lfloor>x\<rfloor> = \<lfloor>y\<rfloor>")
    case True
    then show ?thesis using xy by (auto simp: rne_def Let_def)
  next
    case False
    then show ?thesis using f rne_floor [of x] rne_floor [of y] by linarith
  qed
qed

lemma rne_ge: "of_int k \<le> x \<Longrightarrow> k \<le> rne x" and rne_le: "x \<le> of_int k \<Longrightarrow> rne x \<le> k"
  using rne_mono [of "of_int k" x] rne_mono [of x "of_int k"] by simp_all

subsection \<open>Binades\<close>

text \<open>The exponent of the power of two at or below a positive number.\<close>

definition binade :: "rat \<Rightarrow> int" where
  "binade x = (if x \<ge> 1 then int (floorlog 2 (nat \<lfloor>x\<rfloor>)) - 1 else - int (floorlog 2 (nat (\<lceil>1 / x\<rceil> - 1))))"

lemma floorlog_range:
  assumes "n > 0"
  shows "(2 ^ (floorlog 2 n - 1) :: rat) \<le> of_nat n" and "of_nat n + 1 \<le> (2 ^ floorlog 2 n :: rat)"
proof -
  have "2 ^ (floorlog 2 n - 1) \<le> n" "n + 1 \<le> 2 ^ floorlog 2 n"
    using floorlog_bounds [of n 2] assms by simp_all
  then have "(of_nat (2 ^ (floorlog 2 n - 1)) :: rat) \<le> of_nat n" "(of_nat (n + 1) :: rat) \<le> of_nat (2 ^ floorlog 2 n)"
    by (simp_all only: of_nat_le_iff)
  then show "(2 ^ (floorlog 2 n - 1) :: rat) \<le> of_nat n" "of_nat n + 1 \<le> (2 ^ floorlog 2 n :: rat)" by simp_all
qed

lemma binade_bounds:
  assumes "x > 0"
  shows "2 powi binade x \<le> x" and "x < 2 powi (binade x + 1)"
proof -
  have "2 powi binade x \<le> x \<and> x < 2 powi (binade x + 1)"
  proof (cases "x \<ge> 1")
    case True
    let ?n = "nat \<lfloor>x\<rfloor>"
    have n: "?n > 0" using True by linarith
    then have pos: "floorlog 2 ?n > 0" by (simp add: floorlog_def)
    have nx: "(of_nat ?n :: rat) = of_int \<lfloor>x\<rfloor>" using True by (simp add: of_nat_nat)
    have "of_nat ?n \<le> x" "x < of_nat ?n + 1" unfolding nx by linarith+
    moreover have "binade x = int (floorlog 2 ?n - 1)" "binade x + 1 = int (floorlog 2 ?n)"
      using True pos by (simp_all add: binade_def)
    ultimately show ?thesis using floorlog_range [OF n] by (simp only: power_int_of_nat) linarith
  next
    case False
    let ?y = "1 / x" and ?m = "nat (\<lceil>1 / x\<rceil> - 1)"
    have "?y > 1" using assms False by simp
    then have two: "\<lceil>?y\<rceil> \<ge> 2" by linarith
    then have m: "?m > 0" by linarith
    have pos: "floorlog 2 ?m > 0" using m by (simp add: floorlog_def)
    have "int ?m = \<lceil>?y\<rceil> - 1" using two by linarith
    then have mr: "of_nat ?m = of_int \<lceil>?y\<rceil> - (1 :: rat)" by (metis of_int_1 of_int_diff of_int_of_nat_eq)
    have "of_nat ?m < ?y" "?y \<le> of_nat ?m + 1" unfolding mr by linarith+
    then have b: "(2 ^ (floorlog 2 ?m - 1) :: rat) < ?y" "?y \<le> (2 ^ floorlog 2 ?m :: rat)"
      using floorlog_range [OF m] by linarith+
    have e: "binade x = - int (floorlog 2 ?m)" "binade x + 1 = - int (floorlog 2 ?m - 1)"
      using False pos by (simp_all add: binade_def)
    have "1 / 2 ^ floorlog 2 ?m \<le> x" using b(2) assms by (simp add: field_simps)
    moreover have "x < 1 / 2 ^ (floorlog 2 ?m - 1)" using b(1) assms by (simp add: field_simps)
    moreover have "2 powi binade x = 1 / (2 :: rat) ^ floorlog 2 ?m"
      by (simp only: e(1) power_int_minus power_int_of_nat inverse_eq_divide)
    moreover have "2 powi (binade x + 1) = 1 / (2 :: rat) ^ (floorlog 2 ?m - 1)"
      by (simp only: e(2) power_int_minus power_int_of_nat inverse_eq_divide)
    ultimately show ?thesis by simp
  qed
  then show "2 powi binade x \<le> x" and "x < 2 powi (binade x + 1)" by simp_all
qed

lemma binade_less: "x > 0 \<Longrightarrow> x < 2 powi k \<Longrightarrow> binade x < k"
proof -
  assume "x > 0" "x < 2 powi k"
  then have "(2 :: rat) powi binade x < 2 powi k" using binade_bounds(1) by (meson le_less_trans)
  then show "binade x < k" using power_int_increasing [of k "binade x" "2 :: rat"] by (meson not_le one_le_numeral order_less_irrefl le_less_trans)
qed

lemma binade_mono: "0 < x \<Longrightarrow> x \<le> y \<Longrightarrow> binade x \<le> binade y"
  using binade_less [of x "binade y + 1"] binade_bounds(2) [of y] by simp

subsection \<open>Rounding to 53 bits\<close>

definition grid :: "rat \<Rightarrow> int" where
  "grid x = max (- 1074) (binade x - 52)"

definition round53 :: "rat \<Rightarrow> rat" where
  "round53 x = (if x = 0 then 0 else of_int (rne (x / 2 powi grid x)) * 2 powi grid x)"

lemma powi_pos [simp]: "(2 :: rat) powi k > 0"
  by simp

lemma powi_split: "i \<le> j \<Longrightarrow> (2 :: rat) powi j = of_int (2 ^ nat (j - i)) * 2 powi i"
  using power_int_add [of "2 :: rat" "j - i" i] by (simp add: power_int_def)

lemma round53_le:
  assumes "x > 0" "x \<le> of_int k * 2 powi grid x"
  shows "round53 x \<le> of_int k * 2 powi grid x"
proof -
  have "x / 2 powi grid x \<le> of_int k" using assms by (simp add: divide_le_eq)
  then have "(of_int (rne (x / 2 powi grid x)) :: rat) \<le> of_int k" using rne_le of_int_le_iff by blast
  then show ?thesis using assms(1) by (simp add: round53_def mult_right_mono)
qed

lemma round53_ge:
  assumes "x > 0" "of_int k * 2 powi grid x \<le> x"
  shows "of_int k * 2 powi grid x \<le> round53 x"
proof -
  have "of_int k \<le> x / 2 powi grid x" using assms by (simp add: le_divide_eq)
  then have "(of_int k :: rat) \<le> of_int (rne (x / 2 powi grid x))" using rne_ge of_int_le_iff by blast
  then show ?thesis using assms(1) by (simp add: round53_def mult_right_mono)
qed

lemma round53_nonneg: "x \<ge> 0 \<Longrightarrow> round53 x \<ge> 0"
  using round53_ge [of x 0] by (cases "x = 0") (simp_all add: round53_def)

lemma round53_mono:
  assumes "0 \<le> x" "x \<le> y"
  shows "round53 x \<le> round53 y"
proof (cases "x = 0")
  case True
  then show ?thesis using round53_nonneg [of y] assms by (simp add: round53_def)
next
  case False
  then have pos: "x > 0" "y > 0" using assms by simp_all
  have bin: "binade x \<le> binade y" using binade_mono pos(1) assms(2) .
  show ?thesis
  proof (cases "grid x = grid y")
    case True
    have "rne (x / 2 powi grid x) \<le> rne (y / 2 powi grid x)" using assms by (intro rne_mono divide_right_mono) auto
    then show ?thesis using pos True by (simp add: round53_def)
  next
    case False
    then have g: "grid y = binade y - 52" "grid x < grid y" "binade x + 1 \<le> binade y" using bin by (auto simp: grid_def)
    have "x < 2 powi (binade x + 1)" using binade_bounds(2) pos(1) .
    also have "\<dots> \<le> 2 powi binade y" using g(3) by (simp add: power_int_increasing)
    finally have "round53 x \<le> 2 powi binade y"
      using round53_le [OF pos(1), of "2 ^ nat (binade y - grid x)"] powi_split [of "grid x" "binade y"] g by simp
    also have "\<dots> \<le> round53 y"
      using round53_ge [OF pos(2), of "2 ^ nat (binade y - grid y)"] powi_split [of "grid y" "binade y"] g binade_bounds(1) [OF pos(2)] by simp
    finally show ?thesis .
  qed
qed

lemma round53_fixed:
  assumes "m < 2 ^ 53" "e \<ge> - 1074"
  shows "round53 (of_nat m * 2 powi e) = of_nat m * 2 powi e"
proof (cases "m = 0")
  case True
  then show ?thesis by (simp add: round53_def)
next
  case False
  let ?x = "of_nat m * 2 powi e :: rat"
  have pos: "?x > 0" using False by simp
  have "(of_nat m :: rat) < 2 ^ 53" using assms(1) by (metis of_nat_less_iff of_nat_numeral of_nat_power)
  then have "?x < 2 ^ 53 * 2 powi e" by (simp add: mult_strict_right_mono)
  also have "\<dots> = 2 powi (53 + e)" by (simp add: power_int_add)
  finally have "binade ?x < 53 + e" using binade_less pos by blast
  then have "grid ?x \<le> e" using assms(2) by (simp add: grid_def)
  then have "?x = of_int (int m * 2 ^ nat (e - grid ?x)) * 2 powi grid ?x" using powi_split [of "grid ?x" e] by simp
  then show ?thesis using round53_le [OF pos] round53_ge [OF pos] by (metis order_antisym order_refl)
qed

subsection \<open>Numbers and operations\<close>

datatype float64 = Fin rat | PosInf | NegInf | NaN

definition fl :: "rat \<Rightarrow> float64" where
  "fl x = (let r = (if x < 0 then - round53 (- x) else round53 x) in
     if r \<ge> 2 ^ 1024 then PosInf else if r \<le> - (2 ^ 1024) then NegInf else Fin r)"

text \<open>Multiplication and division by a finite positive number, subtraction of finite numbers, the
  absolute value, and comparison.\<close>

fun fmul :: "rat \<Rightarrow> float64 \<Rightarrow> float64" where
  "fmul c (Fin x) = fl (c * x)"
| "fmul c PosInf = PosInf"
| "fmul c NegInf = NegInf"
| "fmul c NaN = NaN"

fun fdiv :: "float64 \<Rightarrow> rat \<Rightarrow> float64" where
  "fdiv (Fin x) c = fl (x / c)"
| "fdiv PosInf c = PosInf"
| "fdiv NegInf c = NegInf"
| "fdiv NaN c = NaN"

definition fsub :: "rat \<Rightarrow> rat \<Rightarrow> float64" where
  "fsub x y = fl (x - y)"

fun fabs :: "float64 \<Rightarrow> float64" where
  "fabs (Fin x) = Fin \<bar>x\<bar>"
| "fabs PosInf = PosInf"
| "fabs NegInf = PosInf"
| "fabs NaN = NaN"

fun fgt :: "float64 \<Rightarrow> float64 \<Rightarrow> bool" where
  "fgt NaN y = False"
| "fgt x NaN = False"
| "fgt (Fin x) (Fin y) = (x > y)"
| "fgt NegInf y = False"
| "fgt x PosInf = False"
| "fgt x y = True"

text \<open>\<^verbatim>\<open>math.Round\<close>: halves go away from zero.\<close>

definition Round :: "rat \<Rightarrow> int" where
  "Round x = (if x < 0 then - \<lfloor>- x + 1 / 2\<rfloor> else \<lfloor>x + 1 / 2\<rfloor>)"

text \<open>\<^verbatim>\<open>int(math.Ceil(x))\<close> on amd64: what does not fit an \<^verbatim>\<open>int\<close> is the smallest one.\<close>

fun int_Ceil :: "float64 \<Rightarrow> int" where
  "int_Ceil (Fin x) = (if \<lceil>x\<rceil> < - (2 ^ 63) \<or> \<lceil>x\<rceil> \<ge> 2 ^ 63 then - (2 ^ 63) else \<lceil>x\<rceil>)"
| "int_Ceil PosInf = - (2 ^ 63)"
| "int_Ceil NegInf = - (2 ^ 63)"
| "int_Ceil NaN = - (2 ^ 63)"

text \<open>\<^verbatim>\<open>%.*f\<close>: the exact value to a number of decimals, ties to even, and the sign when asked for.\<close>

definition decimals :: "nat \<Rightarrow> rat \<Rightarrow> string" where
  "decimals k x = (let u = nat (rne (\<bar>x\<bar> * 10 ^ k)); frac = dec (u mod 10 ^ k) in
     (if x < 0 then ''-'' else []) @ dec (u div 10 ^ k)
     @ (if k = 0 then [] else CHR ''.'' # replicate (k - length frac) CHR ''0'' @ frac))"

fun format_f :: "nat \<Rightarrow> float64 \<Rightarrow> string" where
  "format_f k (Fin x) = decimals k x"
| "format_f k PosInf = ''+Inf''"
| "format_f k NegInf = ''-Inf''"
| "format_f k NaN = ''NaN''"

definition format_plus :: "nat \<Rightarrow> float64 \<Rightarrow> string" where
  "format_plus k x = (case x of Fin r \<Rightarrow> (if r < 0 then [] else ''+'') @ decimals k r | NaN \<Rightarrow> ''+NaN'' | _ \<Rightarrow> format_f k x)"

lemma fl_small:
  assumes "0 \<le> x" "x \<le> 2 ^ 1023"
  shows "fl x = Fin (round53 x)"
proof -
  have "round53 x \<le> round53 (of_nat 1 * 2 powi 1023)" using assms by (intro round53_mono) simp_all
  also have "\<dots> = 2 ^ 1023" by (subst round53_fixed) simp_all
  also have "\<dots> < 2 ^ 1024" by simp
  finally have "round53 x < 2 ^ 1024" .
  moreover have "- (2 ^ 1024) < round53 x"
    by (rule less_le_trans [OF _ round53_nonneg [OF assms(1)]]) simp
  ultimately show ?thesis using assms(1) by (simp only: fl_def Let_def not_le [symmetric] not_True_eq_False if_False)
qed

end
