(* ===== verification/Go_Decode.thy ===== *)
theory Go_Decode
  imports Go_Json Go_Float "HOL-Library.AList"
begin

text \<open>
  How \<^verbatim>\<open>encoding/json\<close> fills what it decodes into, for the types the program has. A field goes by its
  name, whatever the case; of the members of that name the last counts, and for an object whose
  names are in lower case and each there once that is the member of the name.

  \<open>str_field\<close> and \<open>int_field\<close> are one field of a struct. The decoders \<open>'a into\<close> are whole values: given what
  is there and a value of JSON, what is there after. The interface \<open>json_codec\<close> says that a decoder reads
  back what an encoder wrote, and lifts that to slices and maps; strings and integers interpret it
  here, and the structs that are written and read back do in their theories.
\<close>

subsection \<open>Fields\<close>

text \<open>A string field of a struct as \<^verbatim>\<open>encoding/json\<close> fills it: keys are matched without regard to
  case, which Unicode gives the long s and the Kelvin sign too; the last match counts, null leaves
  the field as it is, and another type is an error.\<close>

definition fold_rune :: "string \<Rightarrow> string" where
  "fold_rune r = (if r = [CHR 0xC5, CHR 0xBF] then ''s'' else if r = [CHR 0xE2, CHR 0x84, CHR 0xAA] then ''k'' else map lower_char r)"

definition fold_name :: "string \<Rightarrow> string" where
  "fold_name s = concat (map fold_rune (runes s))"

fun str_field :: "string \<Rightarrow> string \<Rightarrow> (string \<times> json) list \<Rightarrow> string option" where
  "str_field name v [] = Some v"
| "str_field name v ((k, j) # kvs) =
     (if fold_name k = name then
        (case j of JStr s \<Rightarrow> str_field name s kvs | JNull \<Rightarrow> str_field name v kvs | _ \<Rightarrow> None)
      else str_field name v kvs)"

text \<open>An \<^verbatim>\<open>int\<close>: a number with a fraction or an exponent, or one of more than 64 bits, is an error; minus zero is zero.\<close>

definition go_int :: "int \<Rightarrow> bool" where
  "go_int i = (- (2 ^ 63) \<le> i \<and> i < 2 ^ 63)"

definition int_value :: "json \<Rightarrow> int option" where
  "int_value j = (case j of
      JInt i \<Rightarrow> if go_int i then Some i else None
    | JOther t \<Rightarrow> if t = ''-0'' then Some 0 else None
    | _ \<Rightarrow> None)"

fun int_field :: "string \<Rightarrow> int \<Rightarrow> (string \<times> json) list \<Rightarrow> int option" where
  "int_field name v [] = Some v"
| "int_field name v ((k, j) # kvs) =
     (if fold_name k = name then
        (if j = JNull then int_field name v kvs
         else (case int_value j of None \<Rightarrow> None | Some i \<Rightarrow> int_field name i kvs))
      else int_field name v kvs)"

subsection \<open>Fields and members\<close>

definition plain_keys :: "(string \<times> json) list \<Rightarrow> bool" where
  "plain_keys kvs = (distinct (map fst kvs) \<and> list_all (\<lambda>(k, j). fold_name k = k) kvs)"

definition text_member :: "(string \<times> json) list \<Rightarrow> string \<Rightarrow> string option" where
  "text_member kvs k = (case map_of kvs k of Some (JStr s) \<Rightarrow> Some s | _ \<Rightarrow> None)"

lemma plain_keys_Cons: "plain_keys ((k, j) # kvs) \<longleftrightarrow> fold_name k = k \<and> map_of kvs k = None \<and> plain_keys kvs"
  by (auto simp: plain_keys_def map_of_eq_None_iff)

lemma str_field_member:
  "plain_keys kvs \<Longrightarrow> str_field n v kvs =
     (case map_of kvs n of None \<Rightarrow> Some v | Some (JStr s) \<Rightarrow> Some s | Some JNull \<Rightarrow> Some v | _ \<Rightarrow> None)"
  by (induction kvs arbitrary: v) (auto simp: plain_keys_Cons split: json.split)

lemma int_field_member:
  "plain_keys kvs \<Longrightarrow> int_field n v kvs =
     (case map_of kvs n of None \<Rightarrow> Some v | Some j \<Rightarrow> if j = JNull then Some v else int_value j)"
  by (induction kvs arbitrary: v) (auto simp: plain_keys_Cons split: option.split)

subsection \<open>Decoders\<close>

text \<open>An element of a slice is decoded into the one that is there, if any, and a value of a map into a
  new one; null empties a slice or a map and leaves the rest as it is. (What a slice once held beyond
  its length is not kept.)\<close>

type_synonym 'a into = "'a \<Rightarrow> json \<Rightarrow> 'a option"

definition string_into :: "string into" where
  "string_into v j = (case j of JStr s \<Rightarrow> Some s | JNull \<Rightarrow> Some v | _ \<Rightarrow> None)"

definition int_into :: "int into" where
  "int_into v j = (if j = JNull then Some v else int_value j)"

text \<open>The number a text stands for, and the \<^verbatim>\<open>float64\<close> nearest to it unless that is infinite.\<close>

definition exponent_value :: "string \<Rightarrow> int" where
  "exponent_value ex = (let s = tl ex in
     if s = [] then 0 else if hd s = CHR ''-'' then - int (undigits 10 (tl s))
     else if hd s = CHR ''+'' then int (undigits 10 (tl s)) else int (undigits 10 s))"

definition number_value :: "string \<Rightarrow> rat" where
  "number_value t = (let neg = starts (CHR ''-'') t in
     case whole_part (if neg then tl t else t) of None \<Rightarrow> 0 | Some (ds, r) \<Rightarrow>
     (case fraction r of None \<Rightarrow> 0 | Some (fr, r') \<Rightarrow>
     (case exponent r' of None \<Rightarrow> 0 | Some (ex, _) \<Rightarrow>
        (if neg then - 1 else 1) * (of_nat (undigits 10 ds) + of_nat (undigits 10 (tl fr)) / 10 ^ length (tl fr))
          * 10 powi exponent_value ex)))"

definition float_value :: "json \<Rightarrow> float64 option" where
  "float_value j = (case j of JInt i \<Rightarrow> Some (fl (of_int i)) | JOther t \<Rightarrow> Some (fl (number_value t)) | _ \<Rightarrow> None)"

definition float_into :: "rat into" where
  "float_into v j = (case j of JNull \<Rightarrow> Some v | _ \<Rightarrow> (case float_value j of Some (Fin x) \<Rightarrow> Some x | _ \<Rightarrow> None))"

text \<open>A value of any type, which nothing looks at: only a number beyond every \<^verbatim>\<open>float64\<close> is refused.\<close>

fun any_ok :: "json \<Rightarrow> bool" where
  "any_ok (JArr vs) = list_all any_ok vs"
| "any_ok (JObj kvs) = list_all (\<lambda>(k, v). any_ok v) kvs"
| "any_ok j = (case float_value j of Some PosInf \<Rightarrow> False | Some NegInf \<Rightarrow> False | _ \<Rightarrow> True)"

definition any_into :: "'r into" where
  "any_into v j = (if any_ok j then Some v else None)"

fun elems_into :: "'a into \<Rightarrow> 'a \<Rightarrow> 'a list \<Rightarrow> json list \<Rightarrow> 'a list option" where
  "elems_into d z xs [] = Some []"
| "elems_into d z xs (j # js) = (case d (case xs of [] \<Rightarrow> z | x # _ \<Rightarrow> x) j of
     None \<Rightarrow> None | Some y \<Rightarrow> map_option ((#) y) (elems_into d z (tl xs) js))"

definition slice_into :: "'a into \<Rightarrow> 'a \<Rightarrow> 'a list into" where
  "slice_into d z xs j = (case j of JArr js \<Rightarrow> elems_into d z xs js | JNull \<Rightarrow> Some [] | _ \<Rightarrow> None)"

fun entries_into :: "'a into \<Rightarrow> 'a \<Rightarrow> (string \<times> 'a) list \<Rightarrow> (string \<times> json) list \<Rightarrow> (string \<times> 'a) list option" where
  "entries_into d z m [] = Some m"
| "entries_into d z m ((k, j) # kvs) = (case d z j of None \<Rightarrow> None | Some v \<Rightarrow> entries_into d z (AList.update k v m) kvs)"

definition map_into :: "'a into \<Rightarrow> 'a \<Rightarrow> (string \<times> 'a) list into" where
  "map_into d z m j = (case j of JObj kvs \<Rightarrow> entries_into d z m kvs | JNull \<Rightarrow> Some [] | _ \<Rightarrow> None)"

fun members_into :: "(string \<times> 'r into) list \<Rightarrow> 'r \<Rightarrow> (string \<times> json) list \<Rightarrow> 'r option" where
  "members_into fs r [] = Some r"
| "members_into fs r ((k, j) # kvs) = (case map_of fs (fold_name k) of
     None \<Rightarrow> members_into fs r kvs
   | Some f \<Rightarrow> (case f r j of None \<Rightarrow> None | Some r' \<Rightarrow> members_into fs r' kvs))"

definition struct_into :: "(string \<times> 'r into) list \<Rightarrow> 'r into" where
  "struct_into fs r j = (case j of JObj kvs \<Rightarrow> members_into fs r kvs | JNull \<Rightarrow> Some r | _ \<Rightarrow> None)"

definition field :: "('r \<Rightarrow> 'a) \<Rightarrow> ('a \<Rightarrow> 'r \<Rightarrow> 'r) \<Rightarrow> 'a into \<Rightarrow> 'r into" where
  "field get put d r j = map_option (\<lambda>v. put v r) (d (get r) j)"

definition unmarshal :: "'a into \<Rightarrow> 'a \<Rightarrow> string \<Rightarrow> 'a option" where
  "unmarshal d z s = (case json_parse s of None \<Rightarrow> None | Some j \<Rightarrow> d z j)"

subsection \<open>Written and read back\<close>

definition arr_json :: "('a \<Rightarrow> json) \<Rightarrow> 'a list \<Rightarrow> json" where
  "arr_json enc xs = (if xs = [] then JNull else JArr (map enc xs))"

definition map_json :: "('a \<Rightarrow> json) \<Rightarrow> (string \<times> 'a) list \<Rightarrow> json" where
  "map_json enc kvs = (if kvs = [] then JNull else JObj (map (\<lambda>(k, v). (k, enc v)) kvs))"

text \<open>A member left out when its value is empty.\<close>

definition omitempty :: "bool \<Rightarrow> string \<Rightarrow> json \<Rightarrow> (string \<times> json) list" where
  "omitempty none k j = (if none then [] else [(k, j)])"

lemma update_new: "k \<notin> fst ` set m \<Longrightarrow> AList.update k v m = m @ [(k, v)]"
  by (induction m) auto

locale json_codec =
  fixes enc :: "'a \<Rightarrow> json" and dec :: "'a into" and zero :: 'a and good :: "'a \<Rightarrow> bool"
  assumes dec_enc: "good v \<Longrightarrow> dec zero (enc v) = Some v"
begin

lemma elems_back: "list_all good xs \<Longrightarrow> elems_into dec zero [] (map enc xs) = Some xs"
  by (induction xs) (simp_all add: dec_enc)

lemma slice_back: "list_all good xs \<Longrightarrow> slice_into dec zero [] (arr_json enc xs) = Some xs"
  by (simp add: slice_into_def arr_json_def elems_back)

lemma entries_back:
  "list_all (\<lambda>(k, v). good v) kvs \<Longrightarrow> distinct (map fst (m @ kvs)) \<Longrightarrow>
     entries_into dec zero m (map (\<lambda>(k, v). (k, enc v)) kvs) = Some (m @ kvs)"
  by (induction kvs arbitrary: m) (auto simp: dec_enc update_new)

lemma map_back:
  "list_all (\<lambda>(k, v). good v) kvs \<Longrightarrow> distinct (map fst kvs) \<Longrightarrow> map_into dec zero [] (map_json enc kvs) = Some kvs"
  using entries_back [of kvs "[]"] by (simp add: map_into_def map_json_def)

end

interpretation string_codec: json_codec JStr string_into "[]" "\<lambda>_. True"
  by unfold_locales (simp add: string_into_def)

interpretation int_codec: json_codec JInt int_into 0 go_int
  by unfold_locales (simp add: int_into_def int_value_def)

end
