(* ===== verification/Qmp.thy ===== *)
theory Qmp
  imports Cli Go_Decode "HOL-Library.Word"
begin

text \<open>
  The QMP client of \<^verbatim>\<open>cmd/spin-machine\<close>: \<^verbatim>\<open>qmpConn\<close> with \<^verbatim>\<open>run\<close>, \<^verbatim>\<open>waitDeleted\<close>,
  \<^verbatim>\<open>waitMigration\<close> and the handshake.

  A connection is a record: what each \<^verbatim>\<open>Decode\<close> on it will yield, in order (a message or an
  error; the end of the list is the end of the stream), how many more writes it takes and how many more
  deadlines can be set on it (\<^verbatim>\<open>None\<close> is any number), the readings the clock would give had the client
  not slept, how long it has slept, the ids of the devices reported deleted, and the trace of what was
  sent, received and closed. Everything the other side can
  do is a choice of these fields, so a statement for all connections is one for all of QEMU's
  behaviours. The functions are total because each turn of a loop consumes a message: a run that does
  not end is one whose messages do not, and every finished run is one of these.

  The locale \<open>conversation\<close> is the contract every operation of the client keeps: it only adds to
  the trace, and what it received is exactly what it took from the stream.
\<close>

subsection \<open>Connections\<close>

datatype recv_error = RecvTimeout | RecvOther string

record qmpMessage =
  qm_Event :: string
  qm_Device :: string
  qm_Return :: "json option"
  qm_Error :: "(string \<times> string) option"

datatype inbound = Recv qmpMessage | RecvFail recv_error

type_synonym qargs = "(string \<times> json) list option"

datatype qevent = Sent string qargs | Got inbound | Closed

record qmpConn =
  q_in :: "inbound list"
  q_writes :: "nat option"
  q_deadlines :: "nat option"
  q_clock :: "int list"
  q_slept :: int
  q_deleted :: "string list"
  q_trace :: "qevent list"

datatype qmp_error =
    Sending string
  | ReadingReply string recv_error
  | Refused string string string
  | DecodingReply string
  | SettingDeadline
  | ClearingDeadline
  | NoGreeting
  | ReadingGreeting recv_error
  | NotDeleted string
  | WaitingDeleted recv_error
  | MigrationEnded string string
  | NotFinished
  | NotReached int int

definition eof :: recv_error where
  "eof = RecvOther ''EOF''"

text \<open>One \<^verbatim>\<open>Decode\<close>, one write, one deadline set or cleared, one reading of the clock, one sleep. A
  clock that has no more readings stands still at the last it would give, but for the sleeps.\<close>

definition recv :: "qmpConn \<Rightarrow> qmpConn \<times> (recv_error, qmpMessage) result" where
  "recv q = (case q_in q of
      [] \<Rightarrow> (q, Inl eof)
    | Recv m # ins \<Rightarrow> (q\<lparr>q_in := ins, q_trace := q_trace q @ [Got (Recv m)]\<rparr>, Inr m)
    | RecvFail e # ins \<Rightarrow> (q\<lparr>q_in := ins, q_trace := q_trace q @ [Got (RecvFail e)]\<rparr>, Inl e))"

definition send :: "string \<Rightarrow> qargs \<Rightarrow> qmpConn \<Rightarrow> qmpConn option" where
  "send cmd args q = (case q_writes q of
      Some 0 \<Rightarrow> None
    | Some (Suc n) \<Rightarrow> Some (q\<lparr>q_writes := Some n, q_trace := q_trace q @ [Sent cmd args]\<rparr>)
    | None \<Rightarrow> Some (q\<lparr>q_trace := q_trace q @ [Sent cmd args]\<rparr>))"

definition set_deadline :: "qmpConn \<Rightarrow> qmpConn option" where
  "set_deadline q = (case q_deadlines q of
      Some 0 \<Rightarrow> None
    | Some (Suc n) \<Rightarrow> Some (q\<lparr>q_deadlines := Some n\<rparr>)
    | None \<Rightarrow> Some q)"

definition now :: "qmpConn \<Rightarrow> qmpConn \<times> int" where
  "now q = (case q_clock q of
      [] \<Rightarrow> (q, q_slept q)
    | [t] \<Rightarrow> (q, t + q_slept q)
    | t # ts \<Rightarrow> (q\<lparr>q_clock := ts\<rparr>, t + q_slept q))"

definition sleep :: "int \<Rightarrow> qmpConn \<Rightarrow> qmpConn" where
  "sleep d q = q\<lparr>q_slept := q_slept q + d\<rparr>"

definition close :: "qmpConn \<Rightarrow> qmpConn" where
  "close q = q\<lparr>q_trace := q_trace q @ [Closed]\<rparr>"

lemma recv_consumes: "recv q = (q', Inr m) \<Longrightarrow> length (q_in q') < length (q_in q)"
  by (auto simp: recv_def split: list.splits inbound.splits)

subsection \<open>run\<close>

text \<open>The loop of \<^verbatim>\<open>run\<close>: events are passed over, and the id of a deleted device is kept.\<close>

function reply :: "qmpConn \<Rightarrow> qmpConn \<times> (recv_error, qmpMessage) result" where
  "reply q = (case recv q of
      (q', Inl e) \<Rightarrow> (q', Inl e)
    | (q', Inr m) \<Rightarrow>
        if qm_Event m = ''DEVICE_DELETED'' then reply (q'\<lparr>q_deleted := q_deleted q' @ [qm_Device m]\<rparr>)
        else if qm_Event m \<noteq> [] then reply q'
        else (q', Inr m))"
  by pat_completeness auto
termination
  by (relation "measure (\<lambda>q. length (q_in q))") (auto dest: recv_consumes sym)

declare reply.simps [simp del]

definition qmp_run :: "string \<Rightarrow> qargs \<Rightarrow> qmpConn \<Rightarrow> qmpConn \<times> (qmp_error, json option) result" where
  "qmp_run cmd args q =
     (case send cmd args q of
        None \<Rightarrow> (q, Inl (Sending cmd))
      | Some q1 \<Rightarrow>
          (case reply q1 of
             (q2, Inl e) \<Rightarrow> (q2, Inl (ReadingReply cmd e))
           | (q2, Inr m) \<Rightarrow>
               (case qm_Error m of
                  Some (cls, desc) \<Rightarrow> (q2, Inl (Refused cmd cls desc))
                | None \<Rightarrow> (q2, Inr (qm_Return m)))))"

text \<open>\<^verbatim>\<open>run\<close> with somewhere to put the return value: decoding it can fail.\<close>

definition run_into ::
  "(json option \<Rightarrow> 'a option) \<Rightarrow> string \<Rightarrow> qargs \<Rightarrow> qmpConn \<Rightarrow> qmpConn \<times> (qmp_error, 'a) result" where
  "run_into decode cmd args q =
     (case qmp_run cmd args q of
        (q', Inl e) \<Rightarrow> (q', Inl e)
      | (q', Inr ret) \<Rightarrow> (case decode ret of None \<Rightarrow> (q', Inl (DecodingReply cmd)) | Some v \<Rightarrow> (q', Inr v)))"

subsection \<open>Decoding\<close>

text \<open>The structs the replies are decoded into, with \<open>str_field\<close> for each field.\<close>

definition decode_fields :: "string list \<Rightarrow> json option \<Rightarrow> string list option" where
  "decode_fields names ret = (case ret of
      Some (JObj kvs) \<Rightarrow> all_some (map (\<lambda>n. str_field n [] kvs) names)
    | Some JNull \<Rightarrow> Some (map (\<lambda>_. []) names)
    | _ \<Rightarrow> None)"

definition decode_status :: "json option \<Rightarrow> string option" where
  "decode_status ret = (case decode_fields [''status''] ret of Some [s] \<Rightarrow> Some s | _ \<Rightarrow> None)"

definition decode_migration :: "json option \<Rightarrow> (string \<times> string) option" where
  "decode_migration ret = (case decode_fields [''status'', ''error-desc''] ret of
     Some [s, d] \<Rightarrow> Some (s, d) | _ \<Rightarrow> None)"

definition decode_uint64 :: "json option \<Rightarrow> 64 word option" where
  "decode_uint64 ret = (case ret of
      Some (JInt i) \<Rightarrow> if 0 \<le> i \<and> i < 2 ^ 64 then Some (word_of_int i) else None
    | Some JNull \<Rightarrow> Some 0
    | _ \<Rightarrow> None)"

subsection \<open>Waiting\<close>

function wait_gone :: "string \<Rightarrow> qmpConn \<Rightarrow> qmpConn \<times> (qmp_error, unit) result" where
  "wait_gone devID q = (case recv q of
      (q', Inl e) \<Rightarrow> (q', Inl (if e = RecvTimeout then NotDeleted devID else WaitingDeleted e))
    | (q', Inr m) \<Rightarrow>
        if qm_Event m = ''DEVICE_DELETED'' \<and> qm_Device m = devID then (q', Inr ())
        else wait_gone devID q')"
  by pat_completeness auto
termination
  by (relation "measure (\<lambda>(i, q). length (q_in q))") (auto dest: recv_consumes sym)

declare wait_gone.simps [simp del]

text \<open>The deferred clearing of the deadline runs whatever the wait returned, and its error is dropped.\<close>

definition waitDeleted :: "string \<Rightarrow> qmpConn \<Rightarrow> qmpConn \<times> (qmp_error, unit) result" where
  "waitDeleted devID q =
     (if devID \<in> set (q_deleted q) then (q, Inr ())
      else case set_deadline q of
        None \<Rightarrow> (q, Inl SettingDeadline)
      | Some q1 \<Rightarrow>
          (case wait_gone devID q1 of (q2, r) \<Rightarrow>
             (case set_deadline q2 of None \<Rightarrow> (q2, r) | Some q3 \<Rightarrow> (q3, r))))"

lemma reply_consumes: "reply q = (q', Inr m) \<Longrightarrow> length (q_in q') < length (q_in q)"
proof (induction q arbitrary: q' m rule: reply.induct)
  case (1 q)
  from 1(3) show ?case
    using 1(1,2)
    by (subst (asm) reply.simps)
      (fastforce split: prod.splits sum.splits if_splits dest: recv_consumes intro: less_trans)
qed

lemma run_consumes:
  assumes "run_into decode cmd args q = (q', Inr v)"
  shows "length (q_in q') < length (q_in q)"
proof -
  from assms obtain ret where "qmp_run cmd args q = (q', Inr ret)"
    by (auto simp: run_into_def split: prod.splits sum.splits option.splits)
  then obtain q1 m where send: "send cmd args q = Some q1" and "reply q1 = (q', Inr m)"
    by (auto simp: qmp_run_def split: option.splits prod.splits sum.splits)
  then have "length (q_in q') < length (q_in q1)" by (intro reply_consumes)
  moreover have "q_in q1 = q_in q" using send by (auto simp: send_def split: option.splits nat.splits)
  ultimately show ?thesis by simp
qed

text \<open>The loop of \<^verbatim>\<open>waitMigration\<close>: the clock is read only after a status that is no end, and between two
  polls the client sleeps, for a time in nanoseconds.\<close>

definition migrationSleep :: int where
  "migrationSleep = 2 * 1000000"

function migration_loop :: "int \<Rightarrow> qmpConn \<Rightarrow> qmpConn \<times> (qmp_error, unit) result" where
  "migration_loop deadline q =
     (case run_into decode_migration ''query-migrate'' None q of
        (q1, Inl e) \<Rightarrow> (q1, Inl e)
      | (q1, Inr (status, desc)) \<Rightarrow>
          if status = ''completed'' then (q1, Inr ())
          else if status = ''failed'' \<or> status = ''cancelled'' then (q1, Inl (MigrationEnded status desc))
          else (case now q1 of (q2, t) \<Rightarrow>
            if t > deadline then (q2, Inl NotFinished) else migration_loop deadline (sleep migrationSleep q2)))"
  by pat_completeness auto
termination
proof (relation "measure (\<lambda>(d, q). length (q_in q))")
  fix d q q1 r p status desc q2 t
  assume "(q1, r) = run_into decode_migration ''query-migrate'' None q" and "r = Inr p" and "(q2, t) = now q1"
  then show "((d, sleep migrationSleep q2), (d, q)) \<in> measure (\<lambda>(d, q). length (q_in q))"
    using run_consumes [of decode_migration "''query-migrate''" None q q1 p]
    by (auto simp: now_def sleep_def split: list.splits)
qed simp

declare migration_loop.simps [simp del]

definition waitMigration :: "int \<Rightarrow> qmpConn \<Rightarrow> qmpConn \<times> (qmp_error, unit) result" where
  "waitMigration timeout q = (case now q of (q1, t) \<Rightarrow> migration_loop (t + timeout) q1)"

subsection \<open>The handshake\<close>

definition handshake :: "qmpConn \<Rightarrow> qmpConn \<times> (qmp_error, unit) result" where
  "handshake q =
     (case set_deadline q of
        None \<Rightarrow> (q, Inl SettingDeadline)
      | Some q0 \<Rightarrow>
          (case recv q0 of
             (q1, Inl e) \<Rightarrow> (q1, Inl (if e = RecvTimeout then NoGreeting else ReadingGreeting e))
           | (q1, Inr _) \<Rightarrow>
               (case qmp_run ''qmp_capabilities'' None q1 of
                  (q2, Inl e) \<Rightarrow> (q2, Inl e)
                | (q2, Inr _) \<Rightarrow>
                    (case set_deadline q2 of None \<Rightarrow> (q2, Inl ClearingDeadline) | Some q3 \<Rightarrow> (q3, Inr ())))))"

definition newQMP :: "qmpConn \<Rightarrow> qmpConn \<times> (qmp_error, unit) result" where
  "newQMP q = (case handshake q of (q1, Inl e) \<Rightarrow> (close q1, Inl e) | (q1, Inr u) \<Rightarrow> (q1, Inr u))"

subsection \<open>Conversations\<close>

fun received :: "qevent list \<Rightarrow> inbound list" where
  "received [] = []"
| "received (Got i # t) = i # received t"
| "received (_ # t) = received t"

fun sent :: "qevent list \<Rightarrow> (string \<times> qargs) list" where
  "sent [] = []"
| "sent (Sent c a # t) = (c, a) # sent t"
| "sent (_ # t) = sent t"

definition deletion :: "string \<Rightarrow> qevent \<Rightarrow> bool" where
  "deletion devID e = (case e of Got (Recv m) \<Rightarrow> qm_Event m = ''DEVICE_DELETED'' \<and> qm_Device m = devID | _ \<Rightarrow> False)"

text \<open>The second connection is the first after the events \<open>t\<close>: they were added to the trace, what
  they received was next on the stream, the connection was not closed, a
  connection that takes any number of deadlines or of writes still does, and a device is newly known deleted only if one of them said so.\<close>

definition extends :: "qmpConn \<Rightarrow> qmpConn \<Rightarrow> qevent list \<Rightarrow> bool" where
  "extends q q' t = (q_trace q' = q_trace q @ t \<and> q_in q = received t @ q_in q' \<and> Closed \<notin> set t
     \<and> (q_deadlines q = None \<longrightarrow> q_deadlines q' = None) \<and> (q_writes q = None \<longrightarrow> q_writes q' = None)
     \<and> (\<forall>d \<in> set (q_deleted q'). d \<in> set (q_deleted q) \<or> list_ex (deletion d) t))"

lemma received_append [simp]: "received (a @ b) = received a @ received b"
  by (induction a rule: received.induct) simp_all

lemma sent_append [simp]: "sent (a @ b) = sent a @ sent b"
  by (induction a rule: sent.induct) simp_all

lemma sent_Got [simp]: "sent (map Got is) = []"
  by (induction "is") simp_all

lemma extends_refl: "extends q q []"
  by (simp add: extends_def)

lemma extends_trans: "extends q q1 t \<Longrightarrow> extends q1 q2 u \<Longrightarrow> extends q q2 (t @ u)"
  by (auto simp: extends_def)

lemma extends_clock [simp]: "extends q (q'\<lparr>q_clock := c\<rparr>) t = extends q q' t" "extends (q\<lparr>q_clock := c\<rparr>) q' t = extends q q' t"
  by (simp_all add: extends_def)

lemma extends_now: "extends q q' t \<Longrightarrow> extends q (fst (now q')) t"
  by (simp add: now_def split: list.splits)

lemma extends_sleep [simp]: "extends q (sleep d q') t = extends q q' t" "extends (sleep d q) q' t = extends q q' t"
  by (simp_all add: extends_def sleep_def)

lemma extends_set_deadline: "set_deadline q = Some q' \<Longrightarrow> extends q q' []"
  by (auto simp: set_deadline_def extends_def split: option.splits nat.splits)

lemma extends_deadline: "extends q q1 t \<Longrightarrow> set_deadline q1 = Some q2 \<Longrightarrow> extends q q2 t"
  using extends_trans [OF _ extends_set_deadline] by fastforce

lemma deadlines_unlimited [simp]: "q_deadlines q = None \<Longrightarrow> set_deadline q = Some q"
  by (simp add: set_deadline_def)

lemma set_deadline_fields:
  assumes "set_deadline q = Some q'"
  shows "q_in q' = q_in q" "q_writes q' = q_writes q" "q_clock q' = q_clock q" "q_slept q' = q_slept q"
    "q_deleted q' = q_deleted q" "q_trace q' = q_trace q"
  using assms by (auto simp: set_deadline_def split: option.splits nat.splits)

lemma extends_recv: "\<exists>is. extends q (fst (recv q)) (map Got is)
    \<and> (case snd (recv q) of Inr m \<Rightarrow> is = [Recv m] | Inl e \<Rightarrow> is = [] \<or> is = [RecvFail e])"
  by (auto simp: recv_def extends_def split: list.splits inbound.splits intro: exI [of _ "[]"] exI [of _ "[x]" for x])

lemma extends_send: "send c a q = Some q' \<Longrightarrow> extends q q' [Sent c a]"
  by (auto simp: send_def extends_def split: option.splits nat.splits)

definition is_event :: "inbound \<Rightarrow> bool" where
  "is_event i = (case i of Recv m \<Rightarrow> qm_Event m \<noteq> [] | RecvFail _ \<Rightarrow> False)"

lemma extends_deleted:
  assumes "recv q = (q', Inr m)" and "qm_Event m = ''DEVICE_DELETED''"
  shows "extends q (q'\<lparr>q_deleted := q_deleted q' @ [qm_Device m]\<rparr>) [Got (Recv m)]"
  using assms by (auto simp: recv_def extends_def deletion_def split: list.splits inbound.splits)

lemma extends_got:
  assumes "recv q = (q', Inr m)"
  shows "extends q q' [Got (Recv m)]"
  using assms by (auto simp: recv_def extends_def split: list.splits inbound.splits)

lemma extends_fail:
  assumes "recv q = (q', Inl e)"
  shows "\<exists>is. extends q q' (map Got is)"
  using extends_recv [of q] assms by auto

text \<open>What reading a reply took from the stream: events, then the reply.\<close>

definition reads_reply :: "qmpConn \<Rightarrow> qmpConn \<Rightarrow> (recv_error, qmpMessage) result \<Rightarrow> inbound list \<Rightarrow> bool" where
  "reads_reply q q' r is = (extends q q' (map Got is)
     \<and> (\<forall>m. r = Inr m \<longrightarrow> qm_Event m = [] \<and> (\<exists>es. is = es @ [Recv m] \<and> list_all is_event es)))"

lemma reads_reply_event:
  assumes "extends q q1 [Got (Recv m)]" and "qm_Event m \<noteq> []" and "reads_reply q1 q' r is"
  shows "reads_reply q q' r (Recv m # is)"
proof -
  have "\<exists>es'. Recv m # is = es' @ [Recv m'] \<and> list_all is_event es'"
    if "is = es @ [Recv m']" and "list_all is_event es" for es m'
    using that assms(2) by (intro exI [of _ "Recv m # es"]) (simp add: is_event_def)
  moreover have "extends q q' (map Got (Recv m # is))"
    using extends_trans [OF assms(1)] assms(3) by (fastforce simp: reads_reply_def)
  ultimately show ?thesis using assms(3) by (auto simp: reads_reply_def)
qed

lemma reply_spec: "reply q = (q', r) \<Longrightarrow> \<exists>is. reads_reply q q' r is"
proof (induction q arbitrary: q' r rule: reply.induct)
  case (1 q)
  obtain q1 res where recv: "recv q = (q1, res)" by force
  show ?case
  proof (cases res)
    case (Inl e)
    then have "q' = q1" "r = Inl e" using 1(3) recv by (simp_all add: reply.simps [of q])
    then show ?thesis using extends_fail [of q q1 e] recv Inl by (auto simp: reads_reply_def)
  next
    case (Inr m)
    note got = recv [unfolded Inr]
    consider (del) "qm_Event m = ''DEVICE_DELETED''" | (event) "qm_Event m \<noteq> ''DEVICE_DELETED''" "qm_Event m \<noteq> []"
      | (reply) "qm_Event m = []" by blast
    then show ?thesis
    proof cases
      case del
      then have "reply (q1\<lparr>q_deleted := q_deleted q1 @ [qm_Device m]\<rparr>) = (q', r)"
        using 1(3) got by (simp add: reply.simps [of q])
      from 1(1) [OF got [symmetric] refl del this] extends_deleted [OF got del] del
      show ?thesis using reads_reply_event by fastforce
    next
      case event
      then have "reply q1 = (q', r)" using 1(3) got by (simp add: reply.simps [of q])
      from 1(2) [OF got [symmetric] refl event this] extends_got [OF got] event
      show ?thesis using reads_reply_event by blast
    next
      case reply
      then have "q' = q1" "r = Inr m" using 1(3) got by (simp_all add: reply.simps [of q])
      then show ?thesis
        using extends_got [OF got] reply by (intro exI [of _ "[Recv m]"]) (simp add: reads_reply_def)
    qed
  qed
qed

text \<open>What a command put on the trace: nothing if it could not be sent, otherwise itself and then
  what was read for it; and when it returned a value, that is what the reply, the first message
  that is no event, carried.\<close>

definition exchange :: "string \<Rightarrow> qargs \<Rightarrow> inbound list \<Rightarrow> qevent list" where
  "exchange cmd args is = Sent cmd args # map Got is"

definition answered :: "inbound list \<Rightarrow> json option \<Rightarrow> bool" where
  "answered is ret = (\<exists>es m. is = es @ [Recv m] \<and> list_all is_event es \<and> qm_Event m = []
     \<and> qm_Error m = None \<and> qm_Return m = ret)"

lemma run_spec:
  assumes "qmp_run cmd args q = (q', r)"
  shows "q_writes q = Some 0 \<and> q' = q \<and> r = Inl (Sending cmd)
    \<or> q_writes q \<noteq> Some 0
      \<and> (\<exists>is. extends q q' (exchange cmd args is) \<and> (\<forall>ret. r = Inr ret \<longrightarrow> answered is ret))"
proof (cases "send cmd args q")
  case None
  moreover from None have "q_writes q = Some 0" by (simp add: send_def split: option.splits nat.splits)
  ultimately show ?thesis using assms by (simp add: qmp_run_def)
next
  case (Some q1)
  then have "q_writes q \<noteq> Some 0" by (auto simp: send_def)
  obtain q2 res where rep: "reply q1 = (q2, res)" by force
  from reply_spec [OF this] obtain "is" where ext: "extends q1 q2 (map Got is)"
    and res: "\<And>m. res = Inr m \<Longrightarrow> qm_Event m = [] \<and> (\<exists>es. is = es @ [Recv m] \<and> list_all is_event es)"
    by (auto simp: reads_reply_def)
  have q': "q' = q2" using assms Some rep by (auto simp: qmp_run_def split: sum.splits option.splits)
  have "extends q q' (exchange cmd args is)"
    using extends_trans [OF extends_send [OF Some] ext] by (simp add: exchange_def q')
  moreover have "answered is ret" if "r = Inr ret" for ret
    using assms Some rep res that
    by (auto simp: qmp_run_def answered_def split: sum.splits option.splits)
  ultimately show ?thesis using \<open>q_writes q \<noteq> Some 0\<close> by blast
qed

lemma run_into_spec:
  assumes "run_into decode cmd args q = (q', r)"
  shows "q' = q \<and> r = Inl (Sending cmd)
    \<or> (\<exists>is. extends q q' (exchange cmd args is)
        \<and> (\<forall>v. r = Inr v \<longrightarrow> (\<exists>ret. answered is ret \<and> decode ret = Some v)))"
proof -
  obtain q1 res where run: "qmp_run cmd args q = (q1, res)" by force
  have "q' = q1" using assms run by (auto simp: run_into_def split: sum.splits option.splits)
  moreover have "r = Inl (Sending cmd)" if "res = Inl (Sending cmd)"
    using assms run that by (simp add: run_into_def)
  moreover have "\<exists>ret. res = Inr ret \<and> decode ret = Some v" if "r = Inr v" for v
    using assms run that by (auto simp: run_into_def split: sum.splits option.splits)
  ultimately show ?thesis using run_spec [OF run] by metis
qed

lemma wait_gone_spec:
  "wait_gone devID q = (q', r) \<Longrightarrow> \<exists>is. extends q q' (map Got is)
     \<and> (r = Inr () \<longrightarrow> list_ex (deletion devID) (map Got is))"
proof (induction devID q arbitrary: q' r rule: wait_gone.induct)
  case (1 devID q)
  obtain q1 res where recv: "recv q = (q1, res)" by force
  show ?case
  proof (cases res)
    case (Inl e)
    then have "q' = q1" "r \<noteq> Inr ()" using 1(2) recv by (auto simp: wait_gone.simps [of devID q])
    then show ?thesis using extends_fail [of q q1 e] recv Inl by auto
  next
    case (Inr m)
    note got = recv [unfolded Inr]
    show ?thesis
    proof (cases "qm_Event m = ''DEVICE_DELETED'' \<and> qm_Device m = devID")
      case True
      then have "q' = q1" using 1(2) got by (simp add: wait_gone.simps [of devID q])
      then show ?thesis
        using extends_got [OF got] True by (intro exI [of _ "[Recv m]"]) (simp add: deletion_def)
    next
      case False
      then have "wait_gone devID q1 = (q', r)" using 1(2) got by (simp only: wait_gone.simps [of devID q] prod.case sum.case if_False)
      from 1(1) [OF got [symmetric] refl False this] obtain "is" where "extends q1 q' (map Got is)"
        and "r = Inr () \<longrightarrow> list_ex (deletion devID) (map Got is)" by blast
      then show ?thesis
        using extends_trans [OF extends_got [OF got]] by (intro exI [of _ "Recv m # is"]) auto
    qed
  qed
qed

lemma waitDeleted_spec:
  assumes "waitDeleted devID q = (q', r)"
  shows "\<exists>is. extends q q' (map Got is)
     \<and> (r = Inr () \<longrightarrow> devID \<in> set (q_deleted q) \<or> list_ex (deletion devID) (map Got is))"
proof (cases "devID \<in> set (q_deleted q) \<or> set_deadline q = None")
  case True
  then have "q' = q" "r = Inr () \<longrightarrow> devID \<in> set (q_deleted q)"
    using assms by (auto simp: waitDeleted_def split: if_splits)
  then show ?thesis using extends_refl by (intro exI [of _ "[]"]) simp
next
  case False
  then obtain q1 where q1: "set_deadline q = Some q1" "devID \<notin> set (q_deleted q)" by blast
  obtain q2 r2 where wait: "wait_gone devID q1 = (q2, r2)" by force
  from wait_gone_spec [OF this] obtain "is" where e: "extends q1 q2 (map Got is)"
    and d: "r2 = Inr () \<longrightarrow> list_ex (deletion devID) (map Got is)" by blast
  have "extends q q2 (map Got is)" using extends_trans [OF extends_set_deadline [OF q1(1)] e] by simp
  moreover have "r = r2" "q' = q2 \<or> set_deadline q2 = Some q'"
    using assms q1 wait by (auto simp: waitDeleted_def split: option.splits)
  ultimately show ?thesis using d extends_deadline by blast
qed

text \<open>A wait for a migration is a sequence of polls, and it ends well only on a reply that says
  completed.\<close>

definition polls :: "inbound list list \<Rightarrow> qevent list" where
  "polls iss = concat (map (exchange ''query-migrate'' None) iss)"

definition says_completed :: "inbound list \<Rightarrow> bool" where
  "says_completed is = (\<exists>ret desc. answered is ret \<and> decode_migration ret = Some (''completed'', desc))"

lemma migration_loop_spec:
  "migration_loop deadline q = (q', r) \<Longrightarrow> \<exists>iss. extends q q' (polls iss)
     \<and> (r = Inr () \<longrightarrow> iss \<noteq> [] \<and> says_completed (last iss))"
proof (induction deadline q arbitrary: q' r rule: migration_loop.induct)
  case (1 deadline q)
  obtain q1 res where run: "run_into decode_migration ''query-migrate'' None q = (q1, res)" by force
  note unfold = migration_loop.simps [of deadline q] run prod.case sum.case
  from run_into_spec [OF run] consider (unsent) "q1 = q" "res = Inl (Sending ''query-migrate'')"
    | (polled) "is" where "extends q q1 (exchange ''query-migrate'' None is)"
      "\<forall>v. res = Inr v \<longrightarrow> (\<exists>ret. answered is ret \<and> decode_migration ret = Some v)" by blast
  then show ?case
  proof cases
    case unsent
    then have "q' = q" "r \<noteq> Inr ()" using 1(2) by (auto simp: unfold)
    then show ?thesis using extends_refl by (intro exI [of _ "[]"]) (simp add: polls_def)
  next
    case polled
    then have one: "extends q q1 (polls [is])" by (simp add: polls_def)
    consider (stop) "q' = q1 \<or> q' = fst (now q1)" "r = Inr () \<longrightarrow> says_completed is"
      | (again) status desc t where "res = Inr (status, desc)" "migration_loop deadline (sleep migrationSleep (fst (now q1))) = (q', r)"
        "status \<noteq> ''completed''" "\<not> (status = ''failed'' \<or> status = ''cancelled'')" "now q1 = (fst (now q1), t)" "\<not> t > deadline"
      using 1(2) polled(2)
      by (cases res; cases "now q1") (auto simp: unfold says_completed_def split: prod.splits if_splits)
    then show ?thesis
    proof cases
      case stop
      then show ?thesis using one extends_now [OF one] by (intro exI [of _ "[is]"]) auto
    next
      case again
      have "\<exists>iss. extends (sleep migrationSleep (fst (now q1))) q' (polls iss) \<and> (r = Inr () \<longrightarrow> iss \<noteq> [] \<and> says_completed (last iss))"
        by (rule 1(1) [OF run [symmetric] again(1) refl again(3,4) again(5) [symmetric] again(6,2)])
      then obtain iss where "extends (fst (now q1)) q' (polls iss)" and "r = Inr () \<longrightarrow> iss \<noteq> [] \<and> says_completed (last iss)"
        unfolding extends_sleep by blast
      then show ?thesis
        using extends_trans [OF extends_now [OF one]] by (intro exI [of _ "is # iss"]) (auto simp: polls_def)
    qed
  qed
qed

lemma waitMigration_spec:
  assumes "waitMigration timeout q = (q', r)"
  shows "\<exists>iss. extends q q' (polls iss) \<and> (r = Inr () \<longrightarrow> iss \<noteq> [] \<and> says_completed (last iss))"
proof -
  have "migration_loop (snd (now q) + timeout) (fst (now q)) = (q', r)"
    using assms by (simp add: waitMigration_def split: prod.splits)
  from migration_loop_spec [OF this] obtain iss where "extends (fst (now q)) q' (polls iss)"
    and "r = Inr () \<longrightarrow> iss \<noteq> [] \<and> says_completed (last iss)" by blast
  then show ?thesis using extends_trans [OF extends_now [OF extends_refl]] by fastforce
qed

text \<open>The contract of an operation of the client, and what follows for any that keeps it.\<close>

locale conversation =
  fixes step :: "qmpConn \<Rightarrow> qmpConn \<times> 'r"
  assumes step_extends: "\<exists>t. extends q (fst (step q)) t"
begin

lemma consumes_in_order: "\<exists>n. q_in (fst (step q)) = drop n (q_in q)"
proof -
  obtain t where "extends q (fst (step q)) t" using step_extends by blast
  then have "q_in q = received t @ q_in (fst (step q))" by (simp add: extends_def)
  then show ?thesis by (intro exI [of _ "length (received t)"]) simp
qed

lemma closes_last:
  "\<exists>t. q_trace (close (fst (step q))) = q_trace q @ t @ [Closed] \<and> Closed \<notin> set t"
  using step_extends [of q] by (auto simp: extends_def close_def)

lemma then_extends: "extends (fst (step q)) q' u \<Longrightarrow> \<exists>t. extends q q' t"
  using step_extends [of q] extends_trans by blast

end

interpretation run: conversation "qmp_run cmd args" for cmd args
proof
  show "\<exists>t. extends q (fst (qmp_run cmd args q)) t" for q
    using run_spec [of cmd args q] extends_refl by (cases "qmp_run cmd args q") fastforce
qed

interpretation run_into: conversation "run_into decode cmd args" for decode cmd args
proof
  show "\<exists>t. extends q (fst (run_into decode cmd args q)) t" for q
    using run_into_spec [of decode cmd args q] extends_refl by (cases "run_into decode cmd args q") fastforce
qed

interpretation waitDeleted: conversation "waitDeleted devID" for devID
proof
  show "\<exists>t. extends q (fst (waitDeleted devID q)) t" for q
    using waitDeleted_spec [of devID q] by (cases "waitDeleted devID q") fastforce
qed

interpretation waitMigration: conversation "waitMigration timeout" for timeout
proof
  show "\<exists>t. extends q (fst (waitMigration timeout q)) t" for q
    using waitMigration_spec [of timeout q] by (cases "waitMigration timeout q") fastforce
qed

text \<open>A handshake reads the greeting and negotiates, and sends nothing else.\<close>

lemma handshake_spec:
  assumes "handshake q = (q', r)"
  shows "\<exists>t. extends q q' t \<and> (sent t = [] \<or> sent t = [(''qmp_capabilities'', None)])
    \<and> (r = Inr () \<longrightarrow> sent t = [(''qmp_capabilities'', None)])"
proof (cases "set_deadline q")
  case None
  then show ?thesis using assms extends_refl by (intro exI [of _ "[]"]) (auto simp: handshake_def)
next
  case (Some q0)
  obtain q1 res where recv: "recv q0 = (q1, res)" by force
  obtain is1 where "extends q0 q1 (map Got is1)" using extends_recv [of q0] recv by auto
  then have e1: "extends q q1 (map Got is1)" using extends_trans [OF extends_set_deadline [OF Some]] by simp
  show ?thesis
  proof (cases res)
    case (Inl e)
    then show ?thesis using assms Some recv e1 by (intro exI [of _ "map Got is1"]) (auto simp: handshake_def)
  next
    case (Inr m)
    obtain q2 res2 where run: "qmp_run ''qmp_capabilities'' None q1 = (q2, res2)" by force
    have q': "q' = q2 \<or> set_deadline q2 = Some q'" "r = Inr () \<longrightarrow> \<not> isl res2"
      using assms Some recv Inr run by (auto simp: handshake_def split: sum.splits option.splits)
    from run_spec [OF run] consider "q2 = q1" "isl res2" | is2 where "extends q1 q2 (exchange ''qmp_capabilities'' None is2)"
      by auto
    then show ?thesis
    proof cases
      case 1
      then have "extends q q' (map Got is1)" using e1 q'(1) extends_deadline by blast
      then show ?thesis using 1 q'(2) by (intro exI [of _ "map Got is1"]) simp
    next
      case 2
      have "extends q q' (map Got is1 @ exchange ''qmp_capabilities'' None is2)"
        using extends_trans [OF e1 2] q'(1) extends_deadline by blast
      then show ?thesis by (intro exI [of _ "map Got is1 @ exchange ''qmp_capabilities'' None is2"]) (simp add: exchange_def)
    qed
  qed
qed

interpretation handshake: conversation handshake
proof
  show "\<exists>t. extends q (fst (handshake q)) t" for q
    using handshake_spec [of q] by (cases "handshake q") fastforce
qed

end
