(* ===== verification/Qmp_Commands.thy ===== *)
theory Qmp_Commands
  imports Qmp
begin

text \<open>
  The commands that act on a running machine: \<^verbatim>\<open>attach\<close>, \<^verbatim>\<open>detach\<close>, \<^verbatim>\<open>memory\<close>, \<^verbatim>\<open>save\<close> and
  \<^verbatim>\<open>restore\<close> of \<^verbatim>\<open>cmd/spin-machine\<close>, each one QMP conversation.

  A command is its checks and then a \<open>session\<close>: dial, handshake, the conversation, close. The
  dialled connection is an argument. What a command answers is the connection as it left it, if
  one was dialled, with its error or result; the line \<^verbatim>\<open>memory\<close> prints is its result or part of
  its error. How long a read may wait for DEVICE_DELETED is the connection's business: a read
  that runs into the deadline yields \<open>RecvTimeout\<close>.
\<close>

text \<open>What \<^verbatim>\<open>memory\<close> prints: the size plugged in MiB and the milliseconds it took, and the size
  asked for when it was not reached.\<close>

datatype memory_line = Plugged int int | PluggedShort int int int

definition memory_text :: "memory_line \<Rightarrow> string" where
  "memory_text l = (case l of
      Plugged sz took \<Rightarrow> ''plugged '' @ decz sz @ '' MiB in '' @ decz took @ '' ms'' @ [CHR 0x0A]
    | PluggedShort sz took asked \<Rightarrow>
        ''plugged '' @ decz sz @ '' MiB after '' @ decz took @ '' ms, asked for '' @ decz asked @ [CHR 0x0A])"

datatype cmd_error =
    MissingFlags string
  | TargetErr target_error
  | Resolving string os_error
  | Connecting string os_error
  | QMPAt string qmp_error
  | Opening string qmp_error
  | Adding string int qmp_error
  | Removing int qmp_error
  | NotGone int qmp_error
  | ClosingDisk int qmp_error
  | Asking int qmp_error
  | ReadingSize qmp_error
  | Short memory_line
  | StartingSave qmp_error
  | TheSave qmp_error
  | Loading string qmp_error
  | Querying qmp_error
  | StartingVM string qmp_error

type_synonym 'a outcome = "qmpConn option \<times> (cmd_error, 'a) result"

definition session ::
  "(string \<Rightarrow> (os_error, qmpConn) result) \<Rightarrow> string \<Rightarrow> (qmpConn \<Rightarrow> qmpConn \<times> (cmd_error, 'a) result) \<Rightarrow> 'a outcome" where
  "session dial socket body =
     (case dial socket of
        Inl e \<Rightarrow> (None, Inl (Connecting socket e))
      | Inr c \<Rightarrow>
          (case newQMP c of
             (q, Inl e) \<Rightarrow> (Some q, Inl (QMPAt socket e))
           | (q, Inr _) \<Rightarrow> (case body q of (q', r) \<Rightarrow> (Some (close q'), r))))"

subsection \<open>attach and detach\<close>

record attachFlags =
  at_qmp :: string
  at_target :: int
  at_disk :: string
  at_format :: string
  at_readonly :: bool
  at_serial :: string

definition attachFlags_register :: attachFlags where
  "attachFlags_register = \<lparr>at_qmp = [], at_target = 0, at_disk = [], at_format = ''raw'',
     at_readonly = False, at_serial = []\<rparr>"

definition blockdev_add :: "attachFlags \<Rightarrow> string \<Rightarrow> qargs" where
  "blockdev_add o' path = Some
     [(''node-name'', JStr (hotplugDriveID (at_target o'))), (''driver'', JStr (at_format o')),
      (''read-only'', JBool (at_readonly o')),
      (''file'', JObj [(''driver'', JStr ''file''), (''filename'', JStr path)])]"

definition blockdev_del :: "int \<Rightarrow> qargs" where
  "blockdev_del target = Some [(''node-name'', JStr (hotplugDriveID target))]"

definition device_add :: "attachFlags \<Rightarrow> qargs" where
  "device_add o' = Some (HotplugDisk (at_target o') (hotplugDiskID (at_target o'))
     (hotplugDriveID (at_target o')) (at_serial o'))"

definition attach_body :: "attachFlags \<Rightarrow> string \<Rightarrow> qmpConn \<Rightarrow> qmpConn \<times> (cmd_error, unit) result" where
  "attach_body o' path q =
     (case qmp_run ''blockdev-add'' (blockdev_add o' path) q of
        (q1, Inl e) \<Rightarrow> (q1, Inl (Opening path e))
      | (q1, Inr _) \<Rightarrow>
          (case qmp_run ''device_add'' (device_add o') q1 of
             (q2, Inl e) \<Rightarrow> (fst (qmp_run ''blockdev-del'' (blockdev_del (at_target o')) q2),
                            Inl (Adding path (at_target o') e))
           | (q2, Inr _) \<Rightarrow> (q2, Inr ())))"

definition attach ::
  "os_env \<Rightarrow> (string \<Rightarrow> (os_error, qmpConn) result) \<Rightarrow> attachFlags \<Rightarrow> unit outcome" where
  "attach os dial o' =
     (if at_qmp o' = [] \<or> at_disk o' = [] then (None, Inl (MissingFlags ''attach''))
      else case checkTarget (at_target o') of Some e \<Rightarrow> (None, Inl (TargetErr e)) | None \<Rightarrow>
      case Abs os (at_disk o') of Inl e \<Rightarrow> (None, Inl (Resolving (at_disk o') e)) | Inr path \<Rightarrow>
      session dial (at_qmp o') (attach_body o' path))"

record detachFlags =
  dt_qmp :: string
  dt_target :: int
  dt_timeout :: int

text \<open>Durations are in nanoseconds, as \<^verbatim>\<open>time.Duration\<close> is.\<close>

definition detachFlags_register :: detachFlags where
  "detachFlags_register = \<lparr>dt_qmp = [], dt_target = 0, dt_timeout = 30 * 1000000000\<rparr>"

definition detach_body :: "int \<Rightarrow> qmpConn \<Rightarrow> qmpConn \<times> (cmd_error, unit) result" where
  "detach_body target q =
     (case qmp_run ''device_del'' (Some [(''id'', JStr (hotplugDiskID target))]) q of
        (q1, Inl e) \<Rightarrow> (q1, Inl (Removing target e))
      | (q1, Inr _) \<Rightarrow>
          (case waitDeleted (hotplugDiskID target) q1 of
             (q2, Inl e) \<Rightarrow> (q2, Inl (NotGone target e))
           | (q2, Inr _) \<Rightarrow>
               (case qmp_run ''blockdev-del'' (blockdev_del target) q2 of
                  (q3, Inl e) \<Rightarrow> (q3, Inl (ClosingDisk target e))
                | (q3, Inr _) \<Rightarrow> (q3, Inr ()))))"

definition detach :: "(string \<Rightarrow> (os_error, qmpConn) result) \<Rightarrow> detachFlags \<Rightarrow> unit outcome" where
  "detach dial o' =
     (if dt_qmp o' = [] then (None, Inl (MissingFlags ''detach''))
      else case checkTarget (dt_target o') of Some e \<Rightarrow> (None, Inl (TargetErr e)) | None \<Rightarrow>
      session dial (dt_qmp o') (detach_body (dt_target o')))"

subsection \<open>memory\<close>

record memoryFlags =
  mem_qmp :: string
  mem_sizeMB :: int
  mem_timeout :: int

definition memoryFlags_register :: memoryFlags where
  "memoryFlags_register = \<lparr>mem_qmp = [], mem_sizeMB = -1, mem_timeout = 60 * 1000000000\<rparr>"

definition memPath :: string where
  "memPath = ''/machine/peripheral/'' @ VirtioMemID"

text \<open>\<^verbatim>\<open>uint64(sizeMB) << 20\<close>, and the JSON number it is sent as.\<close>

definition wantBytes :: "int \<Rightarrow> 64 word" where
  "wantBytes sizeMB = push_bit 20 (word_of_int sizeMB)"

definition inMiB :: "64 word \<Rightarrow> int" where
  "inMiB w = uint (drop_bit 20 w)"

text \<open>The sleep between two polls, in nanoseconds.\<close>

definition memorySleep :: int where
  "memorySleep = 10 * 1000000"

function memory_loop ::
  "int \<Rightarrow> 64 word \<Rightarrow> int \<Rightarrow> int \<Rightarrow> qmpConn \<Rightarrow> qmpConn \<times> (cmd_error, memory_line) result" where
  "memory_loop sizeMB want start deadline q =
     (case run_into decode_uint64 ''qom-get'' (Some [(''path'', JStr memPath), (''property'', JStr ''size'')]) q of
        (q1, Inl e) \<Rightarrow> (q1, Inl (ReadingSize e))
      | (q1, Inr sz) \<Rightarrow>
          (case now q1 of (q2, t) \<Rightarrow>
             if sz = want then (q2, Inr (Plugged (inMiB sz) ((t - start) div 1000000)))
             else (case now q2 of (q3, t') \<Rightarrow>
               if t' > deadline then (q3, Inl (Short (PluggedShort (inMiB sz) ((t - start) div 1000000) sizeMB)))
               else memory_loop sizeMB want start deadline (sleep memorySleep q3))))"
  by pat_completeness auto
termination
proof (relation "measure (\<lambda>(_, _, _, _, q). length (q_in q))")
  fix sizeMB start deadline :: int and want sz :: "64 word" and q q1 r q2 t q3 t'
  assume "(q1, r) = run_into decode_uint64 ''qom-get'' (Some [(''path'', JStr memPath), (''property'', JStr ''size'')]) q"
    and "r = Inr sz" and "(q2, t) = now q1" and "(q3, t') = now q2"
  then show "((sizeMB, want, start, deadline, sleep memorySleep q3), (sizeMB, want, start, deadline, q)) \<in> measure (\<lambda>(_, _, _, _, q). length (q_in q))"
    using run_consumes [of decode_uint64 "''qom-get''" "Some [(''path'', JStr memPath), (''property'', JStr ''size'')]" q q1 sz]
    by (auto simp: now_def sleep_def split: list.splits)
qed simp

declare memory_loop.simps [simp del]

definition memory_body :: "memoryFlags \<Rightarrow> qmpConn \<Rightarrow> qmpConn \<times> (cmd_error, memory_line) result" where
  "memory_body o' q =
     (case now q of (q0, start) \<Rightarrow>
      case qmp_run ''qom-set'' (Some [(''path'', JStr memPath), (''property'', JStr ''requested-size''),
          (''value'', JInt (uint (wantBytes (mem_sizeMB o'))))]) q0 of
        (q1, Inl e) \<Rightarrow> (q1, Inl (Asking (mem_sizeMB o') e))
      | (q1, Inr _) \<Rightarrow>
          memory_loop (mem_sizeMB o') (wantBytes (mem_sizeMB o')) start (start + mem_timeout o') q1)"

definition memory_cmd ::
  "(string \<Rightarrow> (os_error, qmpConn) result) \<Rightarrow> memoryFlags \<Rightarrow> memory_line outcome" where
  "memory_cmd dial o' =
     (if mem_qmp o' = [] \<or> mem_sizeMB o' < 0 then (None, Inl (MissingFlags ''memory''))
      else session dial (mem_qmp o') (memory_body o'))"

subsection \<open>save and restore\<close>

record saveFlags =
  sv_qmp :: string
  sv_to :: string
  sv_timeout :: int

definition saveFlags_register :: saveFlags where
  "saveFlags_register = \<lparr>sv_qmp = [], sv_to = [], sv_timeout = 5 * 60 * 1000000000\<rparr>"

definition save_body :: "int \<Rightarrow> string \<Rightarrow> qmpConn \<Rightarrow> qmpConn \<times> (cmd_error, unit) result" where
  "save_body timeout to q =
     (case qmp_run ''migrate'' (Some [(''uri'', JStr (''file:'' @ to))]) q of
        (q1, Inl e) \<Rightarrow> (q1, Inl (StartingSave e))
      | (q1, Inr _) \<Rightarrow>
          (case waitMigration timeout q1 of
             (q2, Inl e) \<Rightarrow> (q2, Inl (TheSave e))
           | (q2, Inr _) \<Rightarrow> (fst (qmp_run ''quit'' None q2), Inr ())))"

definition save :: "os_env \<Rightarrow> (string \<Rightarrow> (os_error, qmpConn) result) \<Rightarrow> saveFlags \<Rightarrow> unit outcome" where
  "save os dial o' =
     (if sv_qmp o' = [] \<or> sv_to o' = [] then (None, Inl (MissingFlags ''save''))
      else case Abs os (sv_to o') of Inl e \<Rightarrow> (None, Inl (Resolving (sv_to o') e)) | Inr to \<Rightarrow>
      session dial (sv_qmp o') (save_body (sv_timeout o') to))"

record restoreFlags =
  rs_qmp :: string
  rs_from :: string
  rs_timeout :: int

definition restoreFlags_register :: restoreFlags where
  "restoreFlags_register = \<lparr>rs_qmp = [], rs_from = [], rs_timeout = 5 * 60 * 1000000000\<rparr>"

definition restore_body :: "int \<Rightarrow> string \<Rightarrow> qmpConn \<Rightarrow> qmpConn \<times> (cmd_error, unit) result" where
  "restore_body timeout from q =
     (case qmp_run ''migrate-incoming'' (Some [(''uri'', JStr (''file:'' @ from))]) q of
        (q1, Inl e) \<Rightarrow> (q1, Inl (Loading from e))
      | (q1, Inr _) \<Rightarrow>
          (case waitMigration timeout q1 of
             (q2, Inl e) \<Rightarrow> (q2, Inl (Loading from e))
           | (q2, Inr _) \<Rightarrow>
               (case run_into decode_status ''query-status'' None q2 of
                  (q3, Inl e) \<Rightarrow> (q3, Inl (Querying e))
                | (q3, Inr status) \<Rightarrow>
                    if status \<noteq> ''running'' then
                      (case qmp_run ''cont'' None q3 of
                         (q4, Inl e) \<Rightarrow> (q4, Inl (StartingVM status e))
                       | (q4, Inr _) \<Rightarrow> (q4, Inr ()))
                    else (q3, Inr ()))))"

definition restore :: "os_env \<Rightarrow> (string \<Rightarrow> (os_error, qmpConn) result) \<Rightarrow> restoreFlags \<Rightarrow> unit outcome" where
  "restore os dial o' =
     (if rs_qmp o' = [] \<or> rs_from o' = [] then (None, Inl (MissingFlags ''restore''))
      else case Abs os (rs_from o') of Inl e \<Rightarrow> (None, Inl (Resolving (rs_from o') e)) | Inr from \<Rightarrow>
      session dial (rs_qmp o') (restore_body (rs_timeout o') from))"

subsection \<open>Order of events\<close>

text \<open>Every event the second predicate holds of comes after one the first holds of.\<close>

fun preceded :: "(qevent \<Rightarrow> bool) \<Rightarrow> (qevent \<Rightarrow> bool) \<Rightarrow> qevent list \<Rightarrow> bool" where
  "preceded P Q [] = True"
| "preceded P Q (e # t) = (if Q e then False else if P e then True else preceded P Q t)"

definition is_sent :: "string \<Rightarrow> qevent \<Rightarrow> bool" where
  "is_sent cmd e = (case e of Sent c _ \<Rightarrow> c = cmd | _ \<Rightarrow> False)"

lemma preceded_append [simp]:
  "preceded P Q (a @ b) \<longleftrightarrow> preceded P Q a \<and> (list_ex P a \<or> preceded P Q b)"
  by (induction a) auto

lemma preceded_spec: "preceded P Q t \<longleftrightarrow> (\<forall>i < length t. Q (t ! i) \<longrightarrow> (\<exists>j < i. P (t ! j) \<and> (\<forall>k \<le> j. \<not> Q (t ! k))))"
proof (induction t)
  case Nil
  then show ?case by simp
next
  case (Cons e t)
  show ?case
  proof (cases "Q e")
    case True
    then show ?thesis by (auto intro: exI [of _ 0])
  next
    case nQ: False
    show ?thesis
    proof (cases "P e")
      case True
      then show ?thesis using nQ by (auto simp: All_less_Suc2 intro: exI [of _ 0])
    next
      case False
      have "(\<exists>j < Suc i. P ((e # t) ! j) \<and> (\<forall>k \<le> j. \<not> Q ((e # t) ! k))) \<longleftrightarrow> (\<exists>j < i. P (t ! j) \<and> (\<forall>k \<le> j. \<not> Q (t ! k)))" for i
        using nQ False by (auto simp: Ex_less_Suc2 All_less_Suc2 less_Suc_eq_le [symmetric])
      then show ?thesis using Cons nQ False by (simp add: All_less_Suc2)
    qed
  qed
qed

lemma sent_none: "list_all (\<lambda>(c, _). c \<noteq> cmd) (sent t) \<longleftrightarrow> \<not> list_ex (is_sent cmd) t"
  by (induction t rule: sent.induct) (auto simp: is_sent_def)

lemma preceded_none: "\<not> list_ex Q t \<Longrightarrow> preceded P Q t"
  by (induction t) auto

lemma is_sent_simps [simp]:
  "is_sent cmd (Sent c a) \<longleftrightarrow> c = cmd" "\<not> is_sent cmd (Got i)" "\<not> is_sent cmd Closed"
  by (simp_all add: is_sent_def)

lemma deletion_simps [simp]: "\<not> deletion d (Sent c a)" "\<not> deletion d Closed"
  by (simp_all add: deletion_def)

lemma list_ex_exchange [simp]: "list_ex (is_sent cmd) (exchange c a is) \<longleftrightarrow> c = cmd"
  by (auto simp: exchange_def list_ex_iff)

lemma list_ex_Got [simp]: "\<not> list_ex (is_sent cmd) (map Got is)"
  by (auto simp: list_ex_iff)

lemma list_ex_polls [simp]: "list_ex (is_sent cmd) (polls iss) \<longleftrightarrow> iss \<noteq> [] \<and> cmd = ''query-migrate''"
  by (induction iss) (auto simp: polls_def)

lemma run_cases:
  assumes "qmp_run cmd args q = (q', r)"
  obtains (unsent) "q' = q" "r = Inl (Sending cmd)"
    | (exchanged) "is" where "extends q q' (exchange cmd args is)" "\<And>ret. r = Inr ret \<Longrightarrow> answered is ret"
  using run_spec [OF assms] by blast

text \<open>A run whose outcome nobody looks at adds nothing or its own exchange.\<close>

lemma run_adds:
  assumes "qmp_run cmd args q = (q', r)"
  obtains t where "extends q q' t" "t = [] \<or> (\<exists>is. t = exchange cmd args is)" "\<not> isl r \<Longrightarrow> t \<noteq> []"
  using assms by (cases rule: run_cases) (use extends_refl in \<open>auto simp: exchange_def\<close>)

subsection \<open>Sessions\<close>

text \<open>A connection just dialled, and one closed once, at the end.\<close>

definition fresh :: "qmpConn \<Rightarrow> bool" where
  "fresh q = (q_trace q = [] \<and> q_deleted q = [])"

definition closed_once :: "qmpConn \<Rightarrow> bool" where
  "closed_once q = (q_trace q \<noteq> [] \<and> last (q_trace q) = Closed \<and> Closed \<notin> set (butlast (q_trace q)))"

lemma closed_onceI: "extends c q t \<Longrightarrow> fresh c \<Longrightarrow> closed_once (close q)"
  by (simp add: extends_def fresh_def closed_once_def close_def)

locale session_body = conversation body
  for body :: "qmpConn \<Rightarrow> qmpConn \<times> (cmd_error, 'a) result"
begin

text \<open>How a session ended: in the handshake, or with the body run on a connection that has
  exchanged nothing but the handshake.\<close>

lemma session_trace:
  assumes "session dial socket body = (Some q, r)" and "dial socket = Inr c" and "fresh c"
  obtains h where "q_trace q = h @ [Closed]" "isl r" "list_all (\<lambda>(n, _). n = ''qmp_capabilities'') (sent h)" "Closed \<notin> set h"
    | h q0 q1 where "extends c q0 h" "list_all (\<lambda>(n, _). n = ''qmp_capabilities'') (sent h)"
      "body q0 = (q1, r)" "q = close q1"
proof -
  obtain q0 res where hs: "handshake c = (q0, res)" by force
  obtain h where h: "extends c q0 h" "sent h = [] \<or> sent h = [(''qmp_capabilities'', None)]"
    using handshake_spec [OF hs] by blast
  then have caps: "list_all (\<lambda>(n, _). n = ''qmp_capabilities'') (sent h)" by auto
  show ?thesis
  proof (cases res)
    case (Inl e)
    then have "q = close q0" "isl r" using assms(1,2) hs by (auto simp: session_def newQMP_def)
    then show ?thesis
      using that(1) [of h] h(1) caps assms(3) by (simp add: extends_def close_def fresh_def)
  next
    case (Inr u)
    obtain q1 r' where b: "body q0 = (q1, r')" by force
    then have "q = close q1" "r' = r" using assms(1,2) hs Inr by (simp_all add: session_def newQMP_def)
    then show ?thesis using that(2) [OF h(1) caps] b by simp
  qed
qed

lemma session_closed:
  assumes "session dial socket body = (Some q, r)" and "dial socket = Inr c" and "fresh c"
  shows "closed_once q"
  using assms
proof (cases rule: session_trace)
  case (1 h)
  then show ?thesis by (simp add: closed_once_def)
next
  case (2 h q0 q1)
  obtain t where "extends q0 q1 t" using step_extends [of q0] 2(3) by auto
  then show ?thesis using closed_onceI [OF extends_trans [OF 2(1)]] 2(4) assms(3) by blast
qed

end

subsection \<open>What each command says, and when\<close>

lemma attach_body_spec:
  assumes "attach_body o' path q = (q', r)"
  obtains (failed) t where "extends q q' t" "t = [] \<or> (\<exists>is. t = exchange ''blockdev-add'' (blockdev_add o' path) is)" "isl r"
    | (rolled_back) is1 t2 q2 t3 where "extends q q2 (exchange ''blockdev-add'' (blockdev_add o' path) is1 @ t2)"
        "t2 = [] \<or> (\<exists>is. t2 = exchange ''device_add'' (device_add o') is)"
        "q' = fst (qmp_run ''blockdev-del'' (blockdev_del (at_target o')) q2)" "extends q2 q' t3"
        "if q_writes q2 = Some 0 then t3 = [] else \<exists>is. t3 = exchange ''blockdev-del'' (blockdev_del (at_target o')) is" "isl r"
    | (added) is1 is2 where "extends q q' (exchange ''blockdev-add'' (blockdev_add o' path) is1 @ exchange ''device_add'' (device_add o') is2)"
        "\<exists>ret. answered is1 ret" "\<exists>ret. answered is2 ret" "r = Inr ()"
proof -
  obtain q1 r1 where run1: "qmp_run ''blockdev-add'' (blockdev_add o' path) q = (q1, r1)" by force
  show ?thesis
  proof (cases r1)
    case (Inl e)
    then have "q' = q1" "isl r" using assms run1 by (auto simp: attach_body_def)
    then show ?thesis using run_adds [OF run1] failed by metis
  next
    case (Inr v)
    obtain is1 where e1: "extends q q1 (exchange ''blockdev-add'' (blockdev_add o' path) is1)" and a1: "answered is1 v"
      using run_spec [OF run1] Inr by auto
    obtain q2 r2 where run2: "qmp_run ''device_add'' (device_add o') q1 = (q2, r2)" by force
    show ?thesis
    proof (cases r2)
      case Inl2: (Inl e)
      obtain t2 where t2: "extends q1 q2 t2" "t2 = [] \<or> (\<exists>is. t2 = exchange ''device_add'' (device_add o') is)"
        using run_adds [OF run2] by metis
      obtain q3 r3 where run3: "qmp_run ''blockdev-del'' (blockdev_del (at_target o')) q2 = (q3, r3)" by force
      have q': "q' = q3" "isl r" using assms run1 Inr run2 Inl2 run3 by (auto simp: attach_body_def)
      have t3: "\<exists>t3. extends q2 q3 t3 \<and> (if q_writes q2 = Some 0 then t3 = [] else \<exists>is. t3 = exchange ''blockdev-del'' (blockdev_del (at_target o')) is)"
        using run_spec [OF run3] extends_refl by auto
      show ?thesis
        using t3 rolled_back [OF extends_trans [OF e1 t2(1)] t2(2)] q' run3 by auto
    next
      case Inr2: (Inr v2)
      obtain is2 where e2: "extends q1 q2 (exchange ''device_add'' (device_add o') is2)" and a2: "answered is2 v2"
        using run_spec [OF run2] Inr2 by auto
      have "q' = q2" "r = Inr ()" using assms run1 Inr run2 Inr2 by (auto simp: attach_body_def)
      then show ?thesis using added [of is1 is2] extends_trans [OF e1 e2] a1 a2 by blast
    qed
  qed
qed

lemma detach_body_spec:
  assumes "detach_body target q = (q', r)"
  obtains (early) t where "extends q q' t" "\<not> list_ex (is_sent ''blockdev-del'') t" "isl r"
    | (gone) is1 is2 t3 where
        "extends q q' (exchange ''device_del'' (Some [(''id'', JStr (hotplugDiskID target))]) is1 @ map Got is2 @ t3)"
        "t3 = [] \<or> (\<exists>is3. t3 = exchange ''blockdev-del'' (blockdev_del target) is3)"
        "hotplugDiskID target \<in> set (q_deleted q) \<or> list_ex (deletion (hotplugDiskID target)) (map Got (is1 @ is2))"
        "r = Inr () \<Longrightarrow> t3 \<noteq> []"
proof -
  let ?id = "hotplugDiskID target"
  obtain q1 r1 where run1: "qmp_run ''device_del'' (Some [(''id'', JStr ?id)]) q = (q1, r1)" by force
  show ?thesis
  proof (cases r1)
    case (Inl e)
    then have "q' = q1" "isl r" using assms run1 by (auto simp: detach_body_def)
    moreover obtain t where "extends q q1 t" "t = [] \<or> (\<exists>is. t = exchange ''device_del'' (Some [(''id'', JStr ?id)]) is)"
      using run_adds [OF run1] by metis
    ultimately show ?thesis using early [of t] by auto
  next
    case (Inr v)
    obtain is1 where e1: "extends q q1 (exchange ''device_del'' (Some [(''id'', JStr ?id)]) is1)"
      using run_spec [OF run1] Inr by auto
    obtain q2 r2 where wait: "waitDeleted ?id q1 = (q2, r2)" by force
    obtain is2 where e2: "extends q1 q2 (map Got is2)"
      and del: "r2 = Inr () \<longrightarrow> ?id \<in> set (q_deleted q1) \<or> list_ex (deletion ?id) (map Got is2)"
      using waitDeleted_spec [OF wait] by blast
    note e12 = extends_trans [OF e1 e2]
    show ?thesis
    proof (cases r2)
      case Inl2: (Inl e)
      then have "q' = q2" "isl r" using assms run1 Inr wait by (auto simp: detach_body_def)
      then show ?thesis using early [OF _ _ \<open>isl r\<close>] e12 by auto
    next
      case Inr2: (Inr u)
      obtain q3 r3 where run3: "qmp_run ''blockdev-del'' (blockdev_del target) q2 = (q3, r3)" by force
      have q': "q' = q3" "r = Inr () \<longrightarrow> \<not> isl r3"
        using assms run1 Inr wait Inr2 run3 by (auto simp: detach_body_def split: sum.splits)
      obtain t3 where t3: "extends q2 q3 t3" "t3 = [] \<or> (\<exists>is. t3 = exchange ''blockdev-del'' (blockdev_del target) is)"
        "\<not> isl r3 \<Longrightarrow> t3 \<noteq> []" using run_adds [OF run3] by metis
      have "?id \<in> set (q_deleted q) \<or> list_ex (deletion ?id) (map Got (is1 @ is2))"
        using del Inr2 e1 by (auto simp: extends_def exchange_def)
      then show ?thesis
        using gone [of is1 is2 t3] extends_trans [OF e12 t3(1)] t3 q' by auto
    qed
  qed
qed

end
