(* ===== verification/Qmp_Order.thy ===== *)
theory Qmp_Order
  imports Qmp_Commands
begin

text \<open>
  In which order the commands say what they say. The body of each command is interpreted as a
  \<open>session_body\<close>, so each closes its connection once and last; the properties are statements
  about the trace a command leaves, whatever QEMU answered: what is sent only after what was
  heard, and what a success or a failure means.
\<close>

subsection \<open>save, restore, memory\<close>

definition completed_reply :: "qevent \<Rightarrow> bool" where
  "completed_reply e = (case e of
      Got (Recv m) \<Rightarrow> qm_Event m = [] \<and> qm_Error m = None
        \<and> (\<exists>desc. decode_migration (qm_Return m) = Some (''completed'', desc))
    | _ \<Rightarrow> False)"

lemma completed_polls: "iss \<noteq> [] \<Longrightarrow> says_completed (last iss) \<Longrightarrow> list_ex completed_reply (polls iss)"
proof -
  assume "iss \<noteq> []" and "says_completed (last iss)"
  then obtain es m ret desc where "last iss = es @ [Recv m]" "qm_Event m = []" "qm_Error m = None"
    "qm_Return m = ret" "decode_migration ret = Some (''completed'', desc)"
    by (auto simp: says_completed_def answered_def)
  then have "Got (Recv m) \<in> set (polls iss)" and "completed_reply (Got (Recv m))"
    using \<open>iss \<noteq> []\<close> last_in_set [of iss] by (auto simp: polls_def exchange_def completed_reply_def intro!: bexI [of _ "last iss"])
  then show ?thesis by (auto simp: list_ex_iff)
qed

lemma save_body_spec:
  assumes "save_body timeout to q = (q', r)"
  obtains (early) t where "extends q q' t" "\<not> list_ex (is_sent ''quit'') t" "isl r"
    | (saved) is1 iss t3 where
        "extends q q' (exchange ''migrate'' (Some [(''uri'', JStr (''file:'' @ to))]) is1 @ polls iss @ t3)"
        "list_ex completed_reply (polls iss)" "t3 = [] \<or> (\<exists>is. t3 = exchange ''quit'' None is)" "r = Inr ()"
proof -
  obtain q1 r1 where run1: "qmp_run ''migrate'' (Some [(''uri'', JStr (''file:'' @ to))]) q = (q1, r1)" by force
  show ?thesis
  proof (cases r1)
    case (Inl e)
    then have "q' = q1" "isl r" using assms run1 by (auto simp: save_body_def)
    moreover obtain t where "extends q q1 t" "t = [] \<or> (\<exists>is. t = exchange ''migrate'' (Some [(''uri'', JStr (''file:'' @ to))]) is)"
      using run_adds [OF run1] by metis
    ultimately show ?thesis using early [of t] by auto
  next
    case (Inr v)
    obtain is1 where e1: "extends q q1 (exchange ''migrate'' (Some [(''uri'', JStr (''file:'' @ to))]) is1)"
      using run_spec [OF run1] Inr by auto
    obtain q2 r2 where wait: "waitMigration timeout q1 = (q2, r2)" by force
    obtain iss where e2: "extends q1 q2 (polls iss)" and fin: "r2 = Inr () \<longrightarrow> iss \<noteq> [] \<and> says_completed (last iss)"
      using waitMigration_spec [OF wait] by blast
    note e12 = extends_trans [OF e1 e2]
    show ?thesis
    proof (cases r2)
      case Inl2: (Inl e)
      then have "q' = q2" "isl r" using assms run1 Inr wait by (auto simp: save_body_def)
      then show ?thesis using early [OF _ _ \<open>isl r\<close>] e12 by auto
    next
      case Inr2: (Inr u)
      obtain q3 r3 where run3: "qmp_run ''quit'' None q2 = (q3, r3)" by force
      have "q' = q3" "r = Inr ()" using assms run1 Inr wait Inr2 run3 by (auto simp: save_body_def)
      moreover obtain t3 where "extends q2 q3 t3" "t3 = [] \<or> (\<exists>is. t3 = exchange ''quit'' None is)"
        using run_adds [OF run3] by metis
      ultimately show ?thesis
        using saved [of is1 iss t3] extends_trans [OF e12] fin Inr2 completed_polls [of iss] by auto
    qed
  qed
qed

text \<open>The second half of \<^verbatim>\<open>restore\<close>: the status is asked for, and the machine started if it is
  not running.\<close>

definition resume :: "qmpConn \<Rightarrow> qmpConn \<times> (cmd_error, unit) result" where
  "resume q =
     (case run_into decode_status ''query-status'' None q of
        (q3, Inl e) \<Rightarrow> (q3, Inl (Querying e))
      | (q3, Inr status) \<Rightarrow>
          if status \<noteq> ''running'' then
            (case qmp_run ''cont'' None q3 of
               (q4, Inl e) \<Rightarrow> (q4, Inl (StartingVM status e))
             | (q4, Inr _) \<Rightarrow> (q4, Inr ()))
          else (q3, Inr ()))"

definition says_status :: "inbound list \<Rightarrow> string \<Rightarrow> bool" where
  "says_status is status = (\<exists>ret. answered is ret \<and> decode_status ret = Some status)"

lemma resume_spec:
  assumes "resume q = (q', r)"
  obtains (unasked) t where "extends q q' t" "\<not> list_ex (is_sent ''cont'') t" "isl r"
    | (running) "is" where "extends q q' (exchange ''query-status'' None is)" "says_status is ''running''" "r = Inr ()"
    | (started) "is" status t where "extends q q' (exchange ''query-status'' None is @ t)" "says_status is status"
        "status \<noteq> ''running''" "t = [] \<or> (\<exists>is'. t = exchange ''cont'' None is')" "r = Inr () \<Longrightarrow> t \<noteq> []"
proof -
  obtain q3 r3 where ask: "run_into decode_status ''query-status'' None q = (q3, r3)" by force
  from run_into_spec [OF ask] consider (unsent) "q3 = q" "isl r3"
    | (asked) "is" where "extends q q3 (exchange ''query-status'' None is)" "\<And>v. r3 = Inr v \<Longrightarrow> says_status is v"
    by (auto simp: says_status_def)
  then show ?thesis
  proof cases
    case unsent
    then show ?thesis using unasked [of "[]"] extends_refl assms ask by (auto simp: resume_def split: sum.splits)
  next
    case asked
    show ?thesis
    proof (cases r3)
      case (Inl e)
      then show ?thesis using unasked [of "exchange ''query-status'' None is"] asked assms ask by (auto simp: resume_def)
    next
      case (Inr status)
      note said = asked(2) [OF Inr]
      show ?thesis
      proof (cases "status = ''running''")
        case True
        then show ?thesis using running [of "is"] asked said assms ask Inr by (auto simp: resume_def)
      next
        case False
        obtain q4 r4 where run4: "qmp_run ''cont'' None q3 = (q4, r4)" by force
        have q': "q' = q4" "r = Inr () \<longrightarrow> \<not> isl r4" using assms ask Inr False run4 by (auto simp: resume_def split: sum.splits)
        obtain t where "extends q3 q4 t" "t = [] \<or> (\<exists>is. t = exchange ''cont'' None is)" "\<not> isl r4 \<Longrightarrow> t \<noteq> []"
          using run_adds [OF run4] by metis
        then show ?thesis using started [of "is" t status] extends_trans [OF asked(1)] said False q' by auto
      qed
    qed
  qed
qed

lemma restore_body_resume:
  "restore_body timeout from q =
     (case qmp_run ''migrate-incoming'' (Some [(''uri'', JStr (''file:'' @ from))]) q of
        (q1, Inl e) \<Rightarrow> (q1, Inl (Loading from e))
      | (q1, Inr _) \<Rightarrow> (case waitMigration timeout q1 of
             (q2, Inl e) \<Rightarrow> (q2, Inl (Loading from e)) | (q2, Inr _) \<Rightarrow> resume q2))"
  by (simp only: restore_body_def resume_def)

lemma restore_body_spec:
  assumes "restore_body timeout from q = (q', r)"
  obtains (early) t where "extends q q' t" "\<not> list_ex (is_sent ''cont'') t" "isl r"
    | (loaded) t q2 where "extends q q2 t" "list_ex completed_reply t" "\<not> list_ex (is_sent ''cont'') t" "resume q2 = (q', r)"
proof -
  obtain q1 r1 where run1: "qmp_run ''migrate-incoming'' (Some [(''uri'', JStr (''file:'' @ from))]) q = (q1, r1)" by force
  show ?thesis
  proof (cases r1)
    case (Inl e)
    then have "q' = q1" "isl r" using assms run1 by (auto simp: restore_body_def)
    moreover obtain t where "extends q q1 t" "t = [] \<or> (\<exists>is. t = exchange ''migrate-incoming'' (Some [(''uri'', JStr (''file:'' @ from))]) is)"
      using run_adds [OF run1] by metis
    ultimately show ?thesis using early [of t] by auto
  next
    case (Inr v)
    obtain is1 where e1: "extends q q1 (exchange ''migrate-incoming'' (Some [(''uri'', JStr (''file:'' @ from))]) is1)"
      using run_spec [OF run1] Inr by auto
    obtain q2 r2 where wait: "waitMigration timeout q1 = (q2, r2)" by force
    obtain iss where e2: "extends q1 q2 (polls iss)" and fin: "r2 = Inr () \<longrightarrow> iss \<noteq> [] \<and> says_completed (last iss)"
      using waitMigration_spec [OF wait] by blast
    note e12 = extends_trans [OF e1 e2]
    show ?thesis
    proof (cases r2)
      case Inl2: (Inl e)
      then have "q' = q2" "isl r" using assms run1 Inr wait by (auto simp: restore_body_def)
      then show ?thesis using early [OF _ _ \<open>isl r\<close>] e12 by auto
    next
      case Inr2: (Inr u)
      then have "resume q2 = (q', r)" using assms run1 Inr wait by (simp add: restore_body_resume)
      then show ?thesis using loaded [OF e12] fin Inr2 completed_polls [of iss] by auto
    qed
  qed
qed

definition sizeQuery :: qargs where
  "sizeQuery = Some [(''path'', JStr memPath), (''property'', JStr ''size'')]"

text \<open>The trace ends in a reply that gave this size.\<close>

definition last_size :: "qevent list \<Rightarrow> 64 word \<Rightarrow> bool" where
  "last_size t w = (\<exists>u is ret. t = u @ exchange ''qom-get'' sizeQuery is \<and> answered is ret \<and> decode_uint64 ret = Some w)"

lemma last_size_append: "last_size t w \<Longrightarrow> last_size (u @ t) w"
  unfolding last_size_def by (metis append_assoc)

definition memory_polls :: "qmpConn \<Rightarrow> qmpConn \<Rightarrow> 64 word \<Rightarrow> (cmd_error, memory_line) result \<Rightarrow> qevent list \<Rightarrow> bool" where
  "memory_polls q q' want r t = (extends q q' t \<and> \<not> list_ex (is_sent ''qom-set'') t
     \<and> (\<forall>line. r = Inr line \<longrightarrow> last_size t want \<and> (\<exists>ms. line = Plugged (inMiB want) ms)))"

lemma memory_polls_more:
  assumes "extends q q1 (exchange ''qom-get'' sizeQuery is)" and "memory_polls q1 q' want r t"
  shows "memory_polls q q' want r (exchange ''qom-get'' sizeQuery is @ t)"
  using assms extends_trans [OF assms(1)] by (auto simp: memory_polls_def last_size_append)

lemma memory_loop_spec:
  "memory_loop sizeMB want start deadline q = (q', r) \<Longrightarrow> \<exists>t. memory_polls q q' want r t"
proof (induction sizeMB want start deadline q arbitrary: q' r rule: memory_loop.induct)
  case (1 sizeMB want start deadline q)
  obtain q1 res where run: "run_into decode_uint64 ''qom-get'' sizeQuery q = (q1, res)" by force
  obtain q2 t where now1: "now q1 = (q2, t)" by force
  obtain q3 t' where now2: "now q2 = (q3, t')" by force
  note unfold = memory_loop.simps [of sizeMB want start deadline q] run [unfolded sizeQuery_def] now1 now2 prod.case sum.case
  from run_into_spec [OF run] consider (unsent) "q1 = q" "isl res"
    | (polled) "is" where "extends q q1 (exchange ''qom-get'' sizeQuery is)"
      "\<And>v. res = Inr v \<Longrightarrow> \<exists>ret. answered is ret \<and> decode_uint64 ret = Some v" by auto
  then show ?case
  proof cases
    case unsent
    then have "q' = q" "isl r" using 1(2) by (auto simp: unfold split: sum.splits)
    then show ?thesis using extends_refl by (intro exI [of _ "[]"]) (auto simp: memory_polls_def)
  next
    case polled
    let ?t = "exchange ''qom-get'' sizeQuery is"
    have e2: "extends q q2 ?t" and e3: "extends q q3 ?t"
      using extends_now [OF polled(1)] extends_now [OF extends_now [OF polled(1)]] now1 now2 by simp_all
    consider (stop) "q' = q1 \<or> q' = q3" "isl r" | (reached) ms where "res = Inr want" "q' = q2" "r = Inr (Plugged (inMiB want) ms)"
      | (again) sz where "res = Inr sz" "sz \<noteq> want" "\<not> t' > deadline" "memory_loop sizeMB want start deadline (sleep memorySleep q3) = (q', r)"
      using 1(2) by (cases res) (auto simp: unfold split: if_splits)
    then show ?thesis
    proof cases
      case stop
      then show ?thesis using polled(1) e3 by (intro exI [of _ ?t]) (auto simp: memory_polls_def)
    next
      case reached
      then have "last_size ?t want" using polled(2) [OF reached(1)] by (auto simp: last_size_def intro: exI [of _ "[]"])
      then show ?thesis using e2 reached by (intro exI [of _ ?t]) (auto simp: memory_polls_def)
    next
      case again
      obtain u where "memory_polls (sleep memorySleep q3) q' want r u"
        using 1(1) [OF run [unfolded sizeQuery_def, symmetric] again(1) now1 [symmetric] again(2) now2 [symmetric] again(3,4)] by blast
      moreover have "extends q (sleep memorySleep q3) ?t" using e3 by simp
      ultimately show ?thesis using memory_polls_more by blast
    qed
  qed
qed

definition sizeRequest :: "int \<Rightarrow> qargs" where
  "sizeRequest sizeMB = Some [(''path'', JStr memPath), (''property'', JStr ''requested-size''),
     (''value'', JInt (uint (wantBytes sizeMB)))]"

lemma memory_body_spec:
  assumes "memory_body o' q = (q', r)"
  obtains t where "extends q q' t" "isl r"
    | "is" t where "extends q q' (exchange ''qom-set'' (sizeRequest (mem_sizeMB o')) is @ t)" "\<exists>ret. answered is ret"
        "\<And>line. r = Inr line \<Longrightarrow> last_size t (wantBytes (mem_sizeMB o')) \<and> (\<exists>ms. line = Plugged (inMiB (wantBytes (mem_sizeMB o'))) ms)"
proof -
  obtain q0 start where now: "now q = (q0, start)" by force
  obtain q1 r1 where run1: "qmp_run ''qom-set'' (sizeRequest (mem_sizeMB o')) q0 = (q1, r1)" by force
  have e0: "extends q q0 []" using extends_now [OF extends_refl, of q] now by simp
  show ?thesis
  proof (cases r1)
    case (Inl e)
    then have "q' = q1" "isl r" using assms now run1 by (auto simp: memory_body_def sizeRequest_def)
    moreover obtain t where "extends q0 q1 t" using run_adds [OF run1] by metis
    ultimately show ?thesis using that(1) [of t] extends_trans [OF e0, of q1 t] by simp
  next
    case (Inr v)
    obtain "is" where e1: "extends q0 q1 (exchange ''qom-set'' (sizeRequest (mem_sizeMB o')) is)" and "answered is v"
      using run_spec [OF run1] Inr by auto
    moreover have "memory_loop (mem_sizeMB o') (wantBytes (mem_sizeMB o')) start (start + mem_timeout o') q1 = (q', r)"
      using assms now run1 Inr by (simp add: memory_body_def sizeRequest_def)
    then obtain t where "memory_polls q1 q' (wantBytes (mem_sizeMB o')) r t" using memory_loop_spec by blast
    ultimately show ?thesis
      using that(2) [of "is" t] extends_trans [OF extends_trans [OF e0 e1]] by (auto simp: memory_polls_def)
  qed
qed

subsection \<open>The bodies as conversations\<close>

lemma bodyI:
  assumes "\<And>q q' r. body q = (q', r) \<Longrightarrow> \<exists>t. extends q q' t"
  shows "session_body body"
proof (intro session_body.intro conversation.intro)
  fix q
  obtain q' r where "body q = (q', r)" by force
  with assms [OF this] show "\<exists>t. extends q (fst (body q)) t" by simp
qed

interpretation attach_session: session_body "attach_body o' path" for o' path
  by (rule bodyI, erule attach_body_spec) (blast intro: extends_trans)+

interpretation detach_session: session_body "detach_body target" for target
  by (rule bodyI, erule detach_body_spec) blast+

interpretation memory_session: session_body "memory_body o'" for o'
  by (rule bodyI, erule memory_body_spec) blast+

interpretation save_session: session_body "save_body timeout to" for timeout to
  by (rule bodyI, erule save_body_spec) blast+

lemma resume_extends: "resume q = (q', r) \<Longrightarrow> \<exists>t. extends q q' t"
  by (erule resume_spec) blast+

interpretation restore_session: session_body "restore_body timeout from" for timeout "from"
  by (rule bodyI, erule restore_body_spec) (blast dest: resume_extends intro: extends_trans)+

lemma wantBytes_exact:
  assumes "0 \<le> n" and "n < 2 ^ 44"
  shows "wantBytes n = word_of_int (n * 2 ^ 20)" and "uint (wantBytes n) = n * 2 ^ 20" and "inMiB (wantBytes n) = n"
proof -
  show w: "wantBytes n = word_of_int (n * 2 ^ 20)"
    unfolding wantBytes_def push_bit_eq_mult by (simp add: mult.commute)
  show u: "uint (wantBytes n) = n * 2 ^ 20"
    unfolding w uint_word_of_int by (rule mod_pos_pos_trivial) (use assms in simp_all)
  show "inMiB (wantBytes n) = n"
    unfolding inMiB_def drop_bit_eq_div uint_div u by simp
qed

subsection \<open>What a given stream makes the client do\<close>

fun deleted_ids :: "inbound list \<Rightarrow> string list" where
  "deleted_ids [] = []"
| "deleted_ids (Recv m # is) = (if qm_Event m = ''DEVICE_DELETED'' then [qm_Device m] else []) @ deleted_ids is"
| "deleted_ids (RecvFail e # is) = deleted_ids is"

lemma deleted_ids_iff: "d \<in> set (deleted_ids is) \<longleftrightarrow> list_ex (deletion d) (map Got is)"
  by (induction "is" rule: deleted_ids.induct) (auto simp: deletion_def)

lemma reply_stream:
  assumes "q_in q = es @ Recv m # rest" and "list_all is_event es" and "qm_Event m = []"
  shows "reply q = (q\<lparr>q_in := rest, q_deleted := q_deleted q @ deleted_ids es,
     q_trace := q_trace q @ map Got (es @ [Recv m])\<rparr>, Inr m)"
  using assms
proof (induction es arbitrary: q)
  case Nil
  then show ?case by (simp add: reply.simps [of q] recv_def)
next
  case (Cons i es)
  then obtain m' where i: "i = Recv m'" and ev: "qm_Event m' \<noteq> []" by (auto simp: is_event_def split: inbound.splits)
  let ?q = "if qm_Event m' = ''DEVICE_DELETED''
    then q\<lparr>q_in := es @ Recv m # rest, q_trace := q_trace q @ [Got i], q_deleted := q_deleted q @ [qm_Device m']\<rparr>
    else q\<lparr>q_in := es @ Recv m # rest, q_trace := q_trace q @ [Got i]\<rparr>"
  have "reply q = reply ?q" using Cons.prems i ev by (simp add: reply.simps [of q] recv_def)
  also have "\<dots> = (?q\<lparr>q_in := rest, q_deleted := q_deleted ?q @ deleted_ids es,
     q_trace := q_trace ?q @ map Got (es @ [Recv m])\<rparr>, Inr m)"
    by (rule Cons.IH) (use Cons.prems in simp_all)
  finally show ?case using i by simp
qed

lemma run_stream:
  assumes "q_in q = es @ Recv m # rest" and "list_all is_event es" and "qm_Event m = []" and "q_writes q = None"
  shows "qmp_run cmd args q = (q\<lparr>q_in := rest, q_deleted := q_deleted q @ deleted_ids es,
       q_trace := q_trace q @ exchange cmd args (es @ [Recv m])\<rparr>,
     case qm_Error m of Some (cls, desc) \<Rightarrow> Inl (Refused cmd cls desc) | None \<Rightarrow> Inr (qm_Return m))"
  using assms reply_stream [of "q\<lparr>q_trace := q_trace q @ [Sent cmd args]\<rparr>" es m rest]
  by (simp add: qmp_run_def send_def exchange_def split: option.splits)

text \<open>A reply to \<^verbatim>\<open>query-migrate\<close>.\<close>

definition migration_reply :: "string \<times> string \<Rightarrow> inbound" where
  "migration_reply p = Recv \<lparr>qm_Event = [], qm_Device = [],
     qm_Return = Some (JObj [(''status'', JStr (fst p)), (''error-desc'', JStr (snd p))]), qm_Error = None\<rparr>"

definition final_status :: "string \<Rightarrow> bool" where
  "final_status s = (s = ''completed'' \<or> s = ''failed'' \<or> s = ''cancelled'')"

lemma decode_migration_reply:
  "decode_migration (Some (JObj [(''status'', JStr s), (''error-desc'', JStr d)])) = Some (s, d)"
proof -
  have "fold_name ''status'' = ''status''" "fold_name ''error-desc'' = ''error-desc''" by code_simp+
  then show ?thesis by (simp add: decode_migration_def decode_fields_def)
qed

lemma query_stream:
  assumes "q_in q = migration_reply p # rest" and "q_writes q = None"
  shows "run_into decode_migration ''query-migrate'' None q =
     (q\<lparr>q_in := rest, q_trace := q_trace q @ exchange ''query-migrate'' None [migration_reply p]\<rparr>, Inr p)"
proof -
  note run = run_stream [of q "[]" "\<lparr>qm_Event = [], qm_Device = [], qm_Return = Some (JObj [(''status'', JStr (fst p)),
     (''error-desc'', JStr (snd p))]), qm_Error = None\<rparr>" rest "''query-migrate''" None]
  show ?thesis using run assms by (simp add: run_into_def migration_reply_def decode_migration_reply)
qed

text \<open>The clock has time for this many more polls a sleep apart: every reading it may give at the last of them
  is within the deadline.\<close>

definition time_for :: "qmpConn \<Rightarrow> int \<Rightarrow> nat \<Rightarrow> int \<Rightarrow> bool" where
  "time_for q gap n deadline = (q_clock q \<noteq> []
     \<and> (\<forall>t \<in> set (q_clock q). t + q_slept q + gap * (int n - 1) \<le> deadline))"

lemma time_for_now:
  assumes "time_for q gap n deadline" and "now q = (q', t)"
  shows "time_for q' gap n deadline" "q_in q' = q_in q" "q_writes q' = q_writes q" "q_slept q' = q_slept q"
  using assms by (auto simp: time_for_def now_def split: list.splits)

lemma time_for_poll:
  assumes "time_for q gap (Suc n) deadline" and "now q = (q', t)" and "0 \<le> gap"
  shows "t \<le> deadline" "time_for (sleep gap q') gap n deadline" "q_in (sleep gap q') = q_in q" "q_writes (sleep gap q') = q_writes q"
proof -
  have "time_for q' gap (Suc n) deadline" by (rule time_for_now [OF assms(1,2)])
  then show "time_for (sleep gap q') gap n deadline" by (auto simp: time_for_def sleep_def algebra_simps)
  have "t + gap * int n \<le> deadline"
    using assms(1,2) by (auto simp: time_for_def now_def split: list.splits)
  moreover have "0 \<le> gap * int n" using assms(3) by simp
  ultimately show "t \<le> deadline" by linarith
qed (use assms in \<open>auto simp: now_def sleep_def split: list.splits\<close>)

lemma sleeps_pos: "0 \<le> migrationSleep" "0 \<le> memorySleep"
  by (simp_all add: migrationSleep_def memorySleep_def)

lemma migration_stream:
  assumes "q_in q = map migration_reply ss @ migration_reply (f, desc) # rest" and "q_writes q = None"
    and "list_all (\<lambda>p. \<not> final_status (fst p)) ss" and "final_status f" and "time_for q migrationSleep (length ss) deadline"
  shows "snd (migration_loop deadline q) = (if f = ''completed'' then Inr () else Inl (MigrationEnded f desc))
    \<and> q_in (fst (migration_loop deadline q)) = rest"
  using assms
proof (induction ss arbitrary: q)
  case Nil
  then show ?case using query_stream [of q "(f, desc)" rest]
    by (auto simp: migration_loop.simps [of deadline q] final_status_def)
next
  case (Cons p ss)
  obtain s d where p: "p = (s, d)" by force
  let ?q1 = "q\<lparr>q_in := map migration_reply ss @ migration_reply (f, desc) # rest,
     q_trace := q_trace q @ exchange ''query-migrate'' None [migration_reply p]\<rparr>"
  have run: "run_into decode_migration ''query-migrate'' None q = (?q1, Inr (s, d))"
    using query_stream [of q p] Cons.prems p by simp
  obtain q2 t where now: "now ?q1 = (q2, t)" by force
  have "time_for ?q1 migrationSleep (Suc (length ss)) deadline" using Cons.prems(5) by (simp add: time_for_def)
  note poll = time_for_poll [OF this now sleeps_pos(1)]
  have "migration_loop deadline q = migration_loop deadline (sleep migrationSleep q2)"
    using run now poll(1) Cons.prems(3) p by (simp add: migration_loop.simps [of deadline q] final_status_def)
  then show ?case using Cons.IH [of "sleep migrationSleep q2"] Cons.prems poll by simp
qed

subsection \<open>From a command to its session\<close>

lemma attach_session_of:
  "attach os dial o' = (Some q, r) \<Longrightarrow> \<exists>path. Abs os (at_disk o') = Inr path \<and> checkTarget (at_target o') = None
     \<and> session dial (at_qmp o') (attach_body o' path) = (Some q, r)"
  by (auto simp: attach_def split: if_splits option.splits sum.splits)

lemma detach_session_of:
  "detach dial o' = (Some q, r) \<Longrightarrow> session dial (dt_qmp o') (detach_body (dt_target o')) = (Some q, r)"
  by (auto simp: detach_def split: if_splits option.splits)

lemma memory_session_of:
  "memory_cmd dial o' = (Some q, r) \<Longrightarrow> mem_sizeMB o' \<ge> 0 \<and> session dial (mem_qmp o') (memory_body o') = (Some q, r)"
  by (auto simp: memory_cmd_def split: if_splits)

lemma save_session_of:
  "save os dial o' = (Some q, r) \<Longrightarrow> \<exists>to. Abs os (sv_to o') = Inr to
     \<and> session dial (sv_qmp o') (save_body (sv_timeout o') to) = (Some q, r)"
  by (auto simp: save_def split: if_splits sum.splits)

lemma restore_session_of:
  "restore os dial o' = (Some q, r) \<Longrightarrow> \<exists>from. Abs os (rs_from o') = Inr from
     \<and> session dial (rs_qmp o') (restore_body (rs_timeout o') from) = (Some q, r)"
  by (auto simp: restore_def split: if_splits sum.splits)

lemma session_dialled: "session dial socket body = (Some q, r) \<Longrightarrow> \<exists>c. dial socket = Inr c"
  by (auto simp: session_def split: sum.splits)

lemma caps_not_sent:
  "list_all (\<lambda>(n, _). n = ''qmp_capabilities'') (sent h) \<Longrightarrow> cmd \<noteq> ''qmp_capabilities'' \<Longrightarrow> \<not> list_ex (is_sent cmd) h"
  unfolding sent_none [symmetric] by (auto simp: list_all_iff)

lemma fresh_trace: "extends c q t \<Longrightarrow> fresh c \<Longrightarrow> q_trace (close q) = t @ [Closed]"
  by (simp add: extends_def fresh_def close_def)

lemma fresh_deleted: "extends c q t \<Longrightarrow> fresh c \<Longrightarrow> d \<in> set (q_deleted q) \<Longrightarrow> list_ex (deletion d) t"
  by (auto simp: extends_def fresh_def)

text \<open>Connections for the witnesses: what QEMU will send, and a reply, an event, a refusal.\<close>

definition script :: "inbound list \<Rightarrow> qmpConn" where
  "script is = \<lparr>q_in = is, q_writes = None, q_deadlines = None, q_clock = [0], q_slept = 0, q_deleted = [], q_trace = []\<rparr>"

definition returns :: "json \<Rightarrow> inbound" where
  "returns j = Recv \<lparr>qm_Event = [], qm_Device = [], qm_Return = Some j, qm_Error = None\<rparr>"

definition refuses :: inbound where
  "refuses = Recv \<lparr>qm_Event = [], qm_Device = [], qm_Return = None, qm_Error = Some (''GenericError'', ''no'')\<rparr>"

definition reports :: "string \<Rightarrow> string \<Rightarrow> inbound" where
  "reports ev dev = Recv \<lparr>qm_Event = ev, qm_Device = dev, qm_Return = None, qm_Error = None\<rparr>"

definition status_reply :: "string \<Rightarrow> inbound" where
  "status_reply s = returns (JObj [(''status'', JStr s)])"

definition detach_script :: qmpConn where
  "detach_script = script [returns (JObj []), returns (JObj []), reports ''DEVICE_DELETED'' ''hd3'',
     returns (JObj []), returns (JObj [])]"

definition sample_detach :: detachFlags where
  "sample_detach = \<lparr>dt_qmp = ''/q'', dt_target = 3, dt_timeout = 1\<rparr>"

lemma fresh_script: "fresh (script is)"
  by (simp add: fresh_def script_def)

subsection \<open>Properties\<close>

text \<open>Every command that reaches QEMU closes its connection, once and as the last thing it
  does, however the conversation went: \<^verbatim>\<open>attach\<close>, \<^verbatim>\<open>detach\<close>, \<^verbatim>\<open>memory\<close>, \<^verbatim>\<open>save\<close> and \<^verbatim>\<open>restore\<close>. A
  monitor serves one client, so one left open would keep the next waiting.\<close>

theorem every_command_closes_its_connection:
  assumes "\<And>s c. dial s = Inr c \<Longrightarrow> fresh c"
    and "Some q \<in> {fst (attach os dial a), fst (detach dial d), fst (memory_cmd dial m), fst (save os dial s),
        fst (restore os dial rs)}"
  shows "closed_once q"
proof -
  have closed: "closed_once q" if body: "session_body body" and run: "session dial socket body = (Some q, r)"
    for socket r and body :: "qmpConn \<Rightarrow> qmpConn \<times> (cmd_error, 'b) result"
  proof -
    obtain c where c: "dial socket = Inr c" using session_dialled [OF run] by blast
    show ?thesis using session_body.session_closed [OF body run c assms(1) [OF c]] .
  qed
  have a: "closed_once q" if "fst (attach os dial a) = Some q"
    using that attach_session_of [of os dial a q "snd (attach os dial a)"]
      closed [OF attach_session.session_body_axioms] by (metis prod.collapse)
  have d: "closed_once q" if "fst (detach dial d) = Some q"
    using that detach_session_of [of dial d q "snd (detach dial d)"]
      closed [OF detach_session.session_body_axioms] by (metis prod.collapse)
  have m: "closed_once q" if "fst (memory_cmd dial m) = Some q"
    using that memory_session_of [of dial m q "snd (memory_cmd dial m)"]
      closed [OF memory_session.session_body_axioms] by (metis prod.collapse)
  have s: "closed_once q" if "fst (save os dial s) = Some q"
    using that save_session_of [of os dial s q "snd (save os dial s)"]
      closed [OF save_session.session_body_axioms] by (metis prod.collapse)
  have rs: "closed_once q" if "fst (restore os dial rs) = Some q"
    using that restore_session_of [of os dial rs q "snd (restore os dial rs)"]
      closed [OF restore_session.session_body_axioms] by (metis prod.collapse)
  show ?thesis using assms(2) a d m s rs by auto
qed

text \<open>C9: \<^verbatim>\<open>detach\<close> closes a disk's image only once QEMU has said the device is gone. On every
  connection, whatever QEMU sends and in whatever order, \<^verbatim>\<open>blockdev-del\<close> is sent only after
  \<^verbatim>\<open>device_del\<close> was sent and after DEVICE_DELETED for that very disk was received; and a detach
  that reports success has sent it.\<close>

theorem detach_closes_the_image_only_once_gone:
  assumes "detach dial o' = (Some q, r)" and "dial (dt_qmp o') = Inr c" and "fresh c"
  shows "preceded (is_sent ''device_del'') (is_sent ''blockdev-del'') (q_trace q)
    \<and> preceded (deletion (hotplugDiskID (dt_target o'))) (is_sent ''blockdev-del'') (q_trace q)
    \<and> (r = Inr () \<longrightarrow> (''blockdev-del'', blockdev_del (dt_target o')) \<in> set (sent (q_trace q)))"
  using detach_session_of [OF assms(1)] assms(2,3)
proof (cases rule: detach_session.session_trace)
  case (1 h)
  then show ?thesis using caps_not_sent [of h "''blockdev-del''"] by (auto intro!: preceded_none)
next
  case (2 h q0 q1)
  have h: "\<not> list_ex (is_sent ''blockdev-del'') h" using caps_not_sent [OF 2(2)] by simp
  from 2(3) show ?thesis
  proof (cases rule: detach_body_spec)
    case (early t)
    then have "q_trace q = h @ t @ [Closed]" using fresh_trace [OF extends_trans [OF 2(1)]] 2(4) assms(3) by fastforce
    then show ?thesis using h early by (auto intro!: preceded_none)
  next
    case (gone is1 is2 t3)
    let ?e1 = "exchange ''device_del'' (Some [(''id'', JStr (hotplugDiskID (dt_target o')))]) is1"
    have trace: "q_trace q = (h @ ?e1 @ map Got is2) @ t3 @ [Closed]"
      using fresh_trace [OF extends_trans [OF 2(1) gone(1)]] 2(4) assms(3) by simp
    have "list_ex (deletion (hotplugDiskID (dt_target o'))) (h @ ?e1 @ map Got is2)"
      using gone(3) fresh_deleted [OF 2(1) assms(3)] by (auto simp: exchange_def)
    moreover have "list_ex (is_sent ''device_del'') (h @ ?e1 @ map Got is2)" by simp
    moreover have "preceded P (is_sent ''blockdev-del'') (h @ ?e1 @ map Got is2)" for P
      using h by (intro preceded_none) simp
    moreover have "r = Inr () \<longrightarrow> (''blockdev-del'', blockdev_del (dt_target o')) \<in> set (sent t3)"
      using gone(2,4) by (auto simp: exchange_def)
    ultimately show ?thesis unfolding trace by (simp only: preceded_append sent_append set_append Un_iff) blast
  qed
qed

theorem every_command_closes_its_connection_witness:
  "\<exists>q. fst (detach (\<lambda>_. Inr detach_script) sample_detach) = Some q \<and> closed_once q"
proof -
  have "fst (detach (\<lambda>_. Inr detach_script) sample_detach) \<noteq> None" by code_simp
  then obtain q where q: "fst (detach (\<lambda>_. Inr detach_script) sample_detach) = Some q" by blast
  have "fresh c" if "(Inr detach_script :: (os_error, qmpConn) result) = Inr c" for c
    using that fresh_script by (auto simp: detach_script_def)
  from every_command_closes_its_connection [of "\<lambda>_. Inr detach_script" q undefined undefined sample_detach] this q
  show ?thesis by auto
qed

theorem detach_closes_the_image_only_once_gone_witness:
  "\<exists>q. detach (\<lambda>_. Inr detach_script) sample_detach = (Some q, Inr ())
     \<and> preceded (deletion ''hd3'') (is_sent ''blockdev-del'') (q_trace q)
     \<and> list_ex (is_sent ''blockdev-del'') (q_trace q)"
proof -
  have "fst (detach (\<lambda>_. Inr detach_script) sample_detach) \<noteq> None"
    "snd (detach (\<lambda>_. Inr detach_script) sample_detach) = Inr ()" by code_simp+
  then obtain q where q: "detach (\<lambda>_. Inr detach_script) sample_detach = (Some q, Inr ())"
    by (metis option.exhaust prod.collapse)
  have "fresh detach_script" by (simp add: detach_script_def fresh_script)
  from detach_closes_the_image_only_once_gone [OF q refl this]
  have "preceded (deletion (hotplugDiskID 3)) (is_sent ''blockdev-del'') (q_trace q)"
    and "(''blockdev-del'', blockdev_del 3) \<in> set (sent (q_trace q))" by (simp_all add: sample_detach_def)
  moreover have "hotplugDiskID 3 = ''hd3''" by code_simp
  moreover have "list_ex (is_sent ''blockdev-del'') t" if "(''blockdev-del'', a) \<in> set (sent t)" for a t
    using that sent_none [of "''blockdev-del''" t] by (auto simp: list_all_iff)
  ultimately show ?thesis using q by auto
qed

text \<open>C10: \<^verbatim>\<open>attach\<close> leaves no image open that no device uses. Whatever QEMU answers, an attach that
  had its image opened ends in one of two ways: it reports success, QEMU having accepted the
  device, and \<^verbatim>\<open>blockdev-del\<close> was never sent; or it reports an error and, if the connection
  still takes writes after the device was refused, the last command it sent is the
  \<^verbatim>\<open>blockdev-del\<close> of that image's node. Success is reported in no other case.\<close>

theorem attach_leaves_no_image_behind:
  assumes "attach os dial o' = (Some q, r)" and "dial (at_qmp o') = Inr c" and "fresh c"
    and "Abs os (at_disk o') = Inr path"
  shows "(r = Inr () \<longrightarrow> (\<exists>h. sent (q_trace q) = h @ [(''blockdev-add'', blockdev_add o' path), (''device_add'', device_add o')]
            \<and> list_all (\<lambda>(n, _). n = ''qmp_capabilities'') h))
    \<and> (r \<noteq> Inr () \<longrightarrow> list_ex (is_sent ''device_add'') (q_trace q) \<longrightarrow> q_writes c = None \<longrightarrow>
         last (sent (q_trace q)) = (''blockdev-del'', blockdev_del (at_target o')))
    \<and> preceded (is_sent ''blockdev-add'') (is_sent ''blockdev-del'') (q_trace q)"
proof -
  have run: "session dial (at_qmp o') (attach_body o' path) = (Some q, r)"
    using attach_session_of [OF assms(1)] assms(4) by auto
  from run assms(2,3) show ?thesis
  proof (cases rule: attach_session.session_trace)
    case (1 h)
    then show ?thesis
      using caps_not_sent [of h "''blockdev-del''"] caps_not_sent [of h "''device_add''"]
      by (auto intro!: preceded_none)
  next
    case (2 h q0 q1)
    have h: "\<not> list_ex (is_sent ''blockdev-del'') h" "\<not> list_ex (is_sent ''device_add'') h"
      using caps_not_sent [OF 2(2)] by simp_all
    note trace = fresh_trace [OF extends_trans [OF 2(1)] assms(3)]
    from 2(3) show ?thesis
    proof (cases rule: attach_body_spec)
      case (failed t)
      have "q_trace q = h @ t @ [Closed]" using trace [OF failed(1)] 2(4) by simp
      moreover have "\<not> list_ex (is_sent ''blockdev-del'') t" "\<not> list_ex (is_sent ''device_add'') t"
        using failed(2) by auto
      ultimately show ?thesis using h failed(3) by (auto intro!: preceded_none)
    next
      case (rolled_back is1 t2 q2 t3)
      let ?e1 = "exchange ''blockdev-add'' (blockdev_add o' path) is1"
      have tr: "q_trace q = (h @ ?e1) @ (t2 @ t3 @ [Closed])"
        using trace [OF extends_trans [OF rolled_back(1,4)]] 2(4) by simp
      have "preceded P (is_sent ''blockdev-del'') (h @ ?e1)" for P using h by (intro preceded_none) simp
      then have "preceded (is_sent ''blockdev-add'') (is_sent ''blockdev-del'') (q_trace q)"
        unfolding tr by (subst preceded_append) simp
      moreover have "q_writes q2 = None" if "q_writes c = None"
        using that extends_trans [OF 2(1) rolled_back(1)] by (simp add: extends_def)
      then have "last (sent (q_trace q)) = (''blockdev-del'', blockdev_del (at_target o'))" if "q_writes c = None"
        using that rolled_back(5) unfolding tr by (auto simp: exchange_def)
      ultimately show ?thesis using rolled_back(6) by auto
    next
      case (added is1 is2)
      let ?es = "exchange ''blockdev-add'' (blockdev_add o' path) is1 @ exchange ''device_add'' (device_add o') is2"
      have tr: "q_trace q = h @ ?es @ [Closed]" using trace [OF added(1)] 2(4) by simp
      have "preceded P (is_sent ''blockdev-del'') (q_trace q)" for P
        unfolding tr using h by (intro preceded_none) simp
      then show ?thesis using added(4) 2(2) unfolding tr by (simp add: exchange_def)
    qed
  qed
qed

definition sample_attach :: attachFlags where
  "sample_attach = \<lparr>at_qmp = ''/q'', at_target = 1, at_disk = ''/d'', at_format = ''raw'', at_readonly = False, at_serial = []\<rparr>"

definition attach_script :: qmpConn where
  "attach_script = script [returns (JObj []), returns (JObj []), returns (JObj []), refuses, returns (JObj [])]"

theorem attach_leaves_no_image_behind_witness:
  "\<exists>q r. attach sample_tree (\<lambda>_. Inr attach_script) sample_attach = (Some q, r) \<and> isl r
     \<and> fst (last (sent (q_trace q))) = ''blockdev-del''"
proof -
  let ?run = "attach sample_tree (\<lambda>_. Inr attach_script) sample_attach"
  have "fst ?run \<noteq> None" "isl (snd ?run)" "list_ex (is_sent ''device_add'') (q_trace (the (fst ?run)))" by code_simp+
  then obtain q r where q: "?run = (Some q, r)" and r: "isl r" "list_ex (is_sent ''device_add'') (q_trace q)"
    by (metis option.exhaust option.sel prod.collapse)
  have c: "fresh attach_script" "q_writes attach_script = None" by (simp_all add: attach_script_def fresh_def script_def)
  have "Abs sample_tree (at_disk sample_attach) = Inr ''/d''" by code_simp
  from attach_leaves_no_image_behind [OF q refl c(1) this] q r c(2)
  have "last (sent (q_trace q)) = (''blockdev-del'', blockdev_del (at_target sample_attach))" by auto
  then show ?thesis using q r by auto
qed

text \<open>C11: \<^verbatim>\<open>save\<close> ends only a machine whose state is written. On every connection \<^verbatim>\<open>quit\<close> is sent only
  after a reply to \<^verbatim>\<open>query-migrate\<close> said the migration completed, the migration was asked for
  before, and a save reports success exactly in the runs that heard that reply.\<close>

theorem save_ends_only_what_it_saved:
  assumes "save os dial o' = (Some q, r)" and "dial (sv_qmp o') = Inr c" and "fresh c"
  shows "preceded completed_reply (is_sent ''quit'') (q_trace q)
    \<and> preceded (is_sent ''migrate'') (is_sent ''quit'') (q_trace q)
    \<and> (r = Inr () \<longrightarrow> list_ex completed_reply (q_trace q) \<and> list_ex (is_sent ''migrate'') (q_trace q))"
proof -
  obtain to where run: "session dial (sv_qmp o') (save_body (sv_timeout o') to) = (Some q, r)"
    using save_session_of [OF assms(1)] by blast
  from run assms(2,3) show ?thesis
  proof (cases rule: save_session.session_trace)
    case (1 h)
    then show ?thesis using caps_not_sent [of h "''quit''"] by (auto intro!: preceded_none)
  next
    case (2 h q0 q1)
    have h: "\<not> list_ex (is_sent ''quit'') h" using caps_not_sent [OF 2(2)] by simp
    note trace = fresh_trace [OF extends_trans [OF 2(1)] assms(3)]
    from 2(3) show ?thesis
    proof (cases rule: save_body_spec)
      case (early t)
      then have "q_trace q = h @ t @ [Closed]" using trace [OF early(1)] 2(4) by simp
      then show ?thesis using h early(2,3) by (auto intro!: preceded_none)
    next
      case (saved is1 iss t3)
      let ?t = "h @ exchange ''migrate'' (Some [(''uri'', JStr (''file:'' @ to))]) is1 @ polls iss"
      have tr: "q_trace q = ?t @ t3 @ [Closed]" using trace [OF saved(1)] 2(4) by simp
      have "preceded P (is_sent ''quit'') ?t" for P using h by (intro preceded_none) simp
      moreover have "list_ex completed_reply ?t" "list_ex (is_sent ''migrate'') ?t" using saved(2) by simp_all
      ultimately show ?thesis unfolding tr by (simp only: preceded_append list_ex_append) blast
    qed
  qed
qed

definition save_script :: qmpConn where
  "save_script = script [returns (JObj []), returns (JObj []), returns (JObj []), status_reply ''active'',
     reports ''STOP'' [], status_reply ''completed'', returns (JObj [])]"

definition sample_save :: saveFlags where
  "sample_save = \<lparr>sv_qmp = ''/q'', sv_to = ''/state'', sv_timeout = 10\<rparr>"

theorem save_ends_only_what_it_saved_witness:
  "\<exists>q. save sample_tree (\<lambda>_. Inr save_script) sample_save = (Some q, Inr ()) \<and> list_ex completed_reply (q_trace q)"
proof -
  let ?run = "save sample_tree (\<lambda>_. Inr save_script) sample_save"
  have "fst ?run \<noteq> None" "snd ?run = Inr ()" by code_simp+
  then obtain q where q: "?run = (Some q, Inr ())" by (metis option.exhaust prod.collapse)
  have "fresh save_script" by (simp add: save_script_def fresh_script)
  from save_ends_only_what_it_saved [OF q refl this] q show ?thesis by blast
qed

text \<open>C12: \<^verbatim>\<open>restore\<close> hands back a machine that is loaded and running. A restore that reports
  success heard the migration complete and then either heard that the machine is running or
  sent \<^verbatim>\<open>cont\<close>; \<^verbatim>\<open>cont\<close> is sent only after the load completed, and only when the reply to the
  \<^verbatim>\<open>query-status\<close> just before it said something other than running.\<close>

theorem restore_starts_only_what_it_loaded:
  assumes "restore os dial o' = (Some q, r)" and "dial (rs_qmp o') = Inr c" and "fresh c"
  shows "preceded completed_reply (is_sent ''cont'') (q_trace q)
    \<and> (r = Inr () \<longrightarrow> list_ex completed_reply (q_trace q)
         \<and> (\<exists>pre is post st. q_trace q = pre @ exchange ''query-status'' None is @ post @ [Closed] \<and> says_status is st
              \<and> (if st = ''running'' then post = [] else \<exists>is'. post = exchange ''cont'' None is')))
    \<and> (list_ex (is_sent ''cont'') (q_trace q) \<longrightarrow>
         (\<exists>pre is is' st. q_trace q = pre @ exchange ''query-status'' None is @ exchange ''cont'' None is' @ [Closed]
            \<and> says_status is st \<and> st \<noteq> ''running''))"
proof -
  obtain "from" where run: "session dial (rs_qmp o') (restore_body (rs_timeout o') from) = (Some q, r)"
    using restore_session_of [OF assms(1)] by blast
  from run assms(2,3) show ?thesis
  proof (cases rule: restore_session.session_trace)
    case (1 h)
    then show ?thesis using caps_not_sent [of h "''cont''"] by (auto intro!: preceded_none)
  next
    case (2 h q0 q1)
    have h: "\<not> list_ex (is_sent ''cont'') h" using caps_not_sent [OF 2(2)] by simp
    note trace = fresh_trace [OF extends_trans [OF 2(1)] assms(3)]
    from 2(3) show ?thesis
    proof (cases rule: restore_body_spec)
      case (early t)
      then have "q_trace q = h @ t @ [Closed]" using trace [OF early(1)] 2(4) by simp
      then show ?thesis using h early(2,3) by (auto intro!: preceded_none)
    next
      case (loaded t q2)
      let ?t = "h @ t"
      have t: "list_ex completed_reply ?t" "preceded completed_reply (is_sent ''cont'') ?t" "\<not> list_ex (is_sent ''cont'') ?t"
        using loaded(2,3) h by (auto intro!: preceded_none)
      have tr: "q_trace q = ?t @ u @ [Closed]" if "extends q2 q1 u" for u
        using trace [OF extends_trans [OF loaded(1) that]] 2(4) by simp
      from loaded(4) show ?thesis
      proof (cases rule: resume_spec)
        case (unasked u)
        then show ?thesis unfolding tr [OF unasked(1)] using t by auto
      next
        case (running "is")
        have "preceded completed_reply (is_sent ''cont'') (q_trace q)" "\<not> list_ex (is_sent ''cont'') (q_trace q)"
          "list_ex completed_reply (q_trace q)" unfolding tr [OF running(1)] using t by auto
        moreover have "q_trace q = ?t @ exchange ''query-status'' None is @ [] @ [Closed]" using tr [OF running(1)] by simp
        ultimately show ?thesis using running(2) by metis
      next
        case (started "is" status u)
        have e: "q_trace q = ?t @ exchange ''query-status'' None is @ u @ [Closed]" using tr [OF started(1)] by simp
        then have "preceded completed_reply (is_sent ''cont'') (q_trace q)" "list_ex completed_reply (q_trace q)" using t by auto
        moreover have "u \<noteq> []" if "list_ex (is_sent ''cont'') (q_trace q)" using that t(3) unfolding e by auto
        ultimately show ?thesis using started(2,3,4,5) e by metis
      qed
    qed
  qed
qed

definition restore_script :: qmpConn where
  "restore_script = script [returns (JObj []), returns (JObj []), returns (JObj []), status_reply ''completed'',
     status_reply ''paused'', returns (JObj [])]"

definition sample_restore :: restoreFlags where
  "sample_restore = \<lparr>rs_qmp = ''/q'', rs_from = ''/state'', rs_timeout = 10\<rparr>"

theorem restore_starts_only_what_it_loaded_witness:
  "\<exists>q. restore sample_tree (\<lambda>_. Inr restore_script) sample_restore = (Some q, Inr ())
     \<and> list_ex (is_sent ''cont'') (q_trace q) \<and> list_ex completed_reply (q_trace q)"
proof -
  let ?run = "restore sample_tree (\<lambda>_. Inr restore_script) sample_restore"
  have "fst ?run \<noteq> None" "snd ?run = Inr ()" "list_ex (is_sent ''cont'') (q_trace (the (fst ?run)))" by code_simp+
  then obtain q where q: "?run = (Some q, Inr ())" "list_ex (is_sent ''cont'') (q_trace q)"
    by (metis option.exhaust option.sel prod.collapse)
  have "fresh restore_script" by (simp add: restore_script_def fresh_script)
  from restore_starts_only_what_it_loaded [OF q(1) refl this] q show ?thesis by blast
qed

text \<open>C24: \<^verbatim>\<open>memory\<close> reports success only for the size it asked for, and asks for the size it was
  given: for a size below \<^verbatim>\<open>2^44\<close> MiB the number of bytes requested is exact, a success prints
  that very number of MiB, and the last thing QEMU answered on the connection was that size.\<close>

theorem memory_reports_the_size_it_asked_for:
  assumes "memory_cmd dial o' = (Some q, Inr line)" and "dial (mem_qmp o') = Inr c" and "fresh c"
    and "mem_sizeMB o' < 2 ^ 44"
  shows "(''qom-set'', Some [(''path'', JStr memPath), (''property'', JStr ''requested-size''),
            (''value'', JInt (mem_sizeMB o' * 2 ^ 20))]) \<in> set (sent (q_trace q))
    \<and> (\<exists>ms. line = Plugged (mem_sizeMB o') ms)
    \<and> last_size (butlast (q_trace q)) (word_of_int (mem_sizeMB o' * 2 ^ 20))"
proof -
  have run: "session dial (mem_qmp o') (memory_body o') = (Some q, Inr line)" and pos: "mem_sizeMB o' \<ge> 0"
    using memory_session_of [OF assms(1)] by simp_all
  note want = wantBytes_exact [OF pos assms(4)]
  from run assms(2,3) show ?thesis
  proof (cases rule: memory_session.session_trace)
    case (1 h)
    then show ?thesis by simp
  next
    case (2 h q0 q1)
    note trace = fresh_trace [OF extends_trans [OF 2(1)] assms(3)]
    from 2(3) show ?thesis
    proof (cases rule: memory_body_spec)
      case (1 t)
      then show ?thesis by simp
    next
      case m: (2 "is" t)
      have "q_trace q = (h @ exchange ''qom-set'' (sizeRequest (mem_sizeMB o')) is @ t) @ [Closed]"
        using trace [OF m(1)] 2(4) by simp
      moreover have "last_size (h @ exchange ''qom-set'' (sizeRequest (mem_sizeMB o')) is @ t) (wantBytes (mem_sizeMB o'))"
        using m(3) by (intro last_size_append) blast
      ultimately show ?thesis
        using m(3) want by (auto simp: exchange_def sizeRequest_def butlast_append)
    qed
  qed
qed

definition memory_script :: qmpConn where
  "memory_script = script [returns (JObj []), returns (JObj []), returns (JObj []), returns (JInt 0),
     returns (JInt (2 ^ 30))]"

definition sample_memory :: memoryFlags where
  "sample_memory = \<lparr>mem_qmp = ''/q'', mem_sizeMB = 1024, mem_timeout = 10\<rparr>"

theorem memory_reports_the_size_it_asked_for_witness:
  "\<exists>q ms. memory_cmd (\<lambda>_. Inr memory_script) sample_memory = (Some q, Inr (Plugged 1024 ms))"
proof -
  let ?run = "memory_cmd (\<lambda>_. Inr memory_script) sample_memory"
  have "fst ?run \<noteq> None" "\<not> isl (snd ?run)" by code_simp+
  then obtain q line where q: "?run = (Some q, Inr line)" by (metis isl_def option.exhaust prod.collapse sum.exhaust_sel)
  have "fresh memory_script" "mem_sizeMB sample_memory = 1024" "mem_sizeMB sample_memory < 2 ^ 44"
    by (simp_all add: memory_script_def fresh_script sample_memory_def)
  with memory_reports_the_size_it_asked_for [OF q refl] q show ?thesis by auto
qed

text \<open>A command's answer is the first message after it that is not an event, however many
  events come in between: \<^verbatim>\<open>run\<close> always returns on it, with QEMU's refusal or the value returned,
  has sent the command once, has taken exactly those messages from the stream, and has kept the
  id of every device reported deleted meanwhile, in order.\<close>

theorem run_returns_on_the_first_reply:
  assumes "q_in q = es @ Recv m # rest" and "list_all is_event es" and "qm_Event m = []" and "q_writes q = None"
  shows "\<exists>q'. qmp_run cmd args q =
       (q', case qm_Error m of Some (cls, desc) \<Rightarrow> Inl (Refused cmd cls desc) | None \<Rightarrow> Inr (qm_Return m))
     \<and> q_in q' = rest \<and> q_deleted q' = q_deleted q @ deleted_ids es
     \<and> sent (q_trace q') = sent (q_trace q) @ [(cmd, args)]"
  using run_stream [OF assms, of cmd args] by (simp add: exchange_def)

theorem run_returns_on_the_first_reply_witness:
  "\<exists>q'. qmp_run ''device_del'' None (script [reports ''RESET'' [], reports ''DEVICE_DELETED'' ''hd1'', refuses]) =
     (q', Inl (Refused ''device_del'' ''GenericError'' ''no'')) \<and> q_deleted q' = [''hd1'']"
proof -
  let ?q = "script [reports ''RESET'' [], reports ''DEVICE_DELETED'' ''hd1'', refuses]"
  have q: "q_in ?q = [reports ''RESET'' [], reports ''DEVICE_DELETED'' ''hd1''] @
      Recv \<lparr>qm_Event = [], qm_Device = [], qm_Return = None, qm_Error = Some (''GenericError'', ''no'')\<rparr> # []"
    by (simp add: script_def refuses_def)
  have "list_all is_event [reports ''RESET'' [], reports ''DEVICE_DELETED'' ''hd1'']"
    "deleted_ids [reports ''RESET'' [], reports ''DEVICE_DELETED'' ''hd1''] = [''hd1'']" by code_simp+
  with run_returns_on_the_first_reply [OF q, of "''device_del''" None] show ?thesis by (auto simp: script_def)
qed

text \<open>Waiting for a migration ends with it. When QEMU answers any number of polls with a status
  that is no end and then one with a status that is, and the clock, with a sleep between two polls,
  stays within the time allowed, \<^verbatim>\<open>waitMigration\<close> returns after exactly those polls, with success for completed and
  with the status and QEMU's description for failed or cancelled.\<close>

theorem waiting_ends_with_the_migration:
  assumes "q_in q = map migration_reply ss @ migration_reply (f, desc) # rest" and "q_writes q = None"
    and "list_all (\<lambda>p. \<not> final_status (fst p)) ss" and "final_status f"
    and "time_for q migrationSleep (length ss) (snd (now q) + timeout)"
  shows "snd (waitMigration timeout q) = (if f = ''completed'' then Inr () else Inl (MigrationEnded f desc))
    \<and> q_in (fst (waitMigration timeout q)) = rest"
proof -
  obtain q1 t0 where now: "now q = (q1, t0)" by force
  have "time_for q migrationSleep (length ss) (t0 + timeout)" using assms(5) now by simp
  note q1 = time_for_now [OF this now]
  have "snd (migration_loop (t0 + timeout) q1) = (if f = ''completed'' then Inr () else Inl (MigrationEnded f desc))
    \<and> q_in (fst (migration_loop (t0 + timeout) q1)) = rest"
    by (rule migration_stream) (use assms q1 in simp_all)
  then show ?thesis using now by (simp add: waitMigration_def)
qed

theorem waiting_ends_with_the_migration_witness:
  "snd (waitMigration 5000000 (script (map migration_reply [(''setup'', []), (''active'', [])] @ [migration_reply (''failed'', ''disk'')])))
     = Inl (MigrationEnded ''failed'' ''disk'')"
proof -
  let ?q = "script (map migration_reply [(''setup'', []), (''active'', [])] @ [migration_reply (''failed'', ''disk'')])"
  have "q_in ?q = map migration_reply [(''setup'', []), (''active'', [])] @ migration_reply (''failed'', ''disk'') # []"
    "q_writes ?q = None" "time_for ?q migrationSleep (Suc (Suc 0)) (snd (now ?q) + 5000000)"
    by (simp_all add: script_def time_for_def now_def migrationSleep_def)
  moreover have "list_all (\<lambda>p. \<not> final_status (fst p)) [(''setup'', []), (''active'', [])]" "final_status ''failed''" by code_simp+
  ultimately show ?thesis using waiting_ends_with_the_migration [of ?q "[(''setup'', []), (''active'', [])]" "''failed''" "''disk''" "[]" 5000000] by simp
qed

text \<open>From \<^verbatim>\<open>2^44\<close> MiB on the shift loses the size: \<^verbatim>\<open>memory\<close> asks for the same bytes for a size
  and for that size plus \<^verbatim>\<open>2^44\<close>, so \<^verbatim>\<open>2^44\<close> MiB is a request for nothing.\<close>

theorem memory_request_wraps:
  "wantBytes (n + 2 ^ 44) = wantBytes n \<and> wantBytes (2 ^ 44) = 0"
proof -
  have "(2 :: 64 word) ^ 20 * 2 ^ 44 = 0" by simp
  then show ?thesis unfolding wantBytes_def push_bit_eq_mult by (simp add: distrib_right)
qed

end
