(* ===== verification/Go_Sort.thy ===== *)
theory Go_Sort
  imports Go_Files "HOL-Library.List_Lexorder" "HOL-Library.Char_ord" "HOL-Library.Multiset"
begin

text \<open>
  What the tools of the repository use of Go's \<^verbatim>\<open>slices\<close>, \<^verbatim>\<open>strings\<close> and \<^verbatim>\<open>strconv\<close> beyond the
  rest of the development: strings in Go's order, which is byte by byte, \<^verbatim>\<open>slices.Sort\<close> on them,
  \<^verbatim>\<open>strings.Split\<close> with a separator of several bytes and the digits \<^verbatim>\<open>strconv.Atoi\<close> reads.

  Equal strings are the same string, so the order \<^verbatim>\<open>slices.Sort\<close> leaves them in is the only
  sorted one, and \<^term>\<open>sort\<close> is it.
\<close>

abbreviation newline :: char where
  "newline \<equiv> CHR 0x0A"

definition Sort :: "string list \<Rightarrow> string list" where
  "Sort xs = sort xs"

lemma Sort_sorted [simp]: "sorted (Sort xs)" and Sort_mset [simp]: "mset (Sort xs) = mset xs"
  and Sort_set [simp]: "set (Sort xs) = set xs" and Sort_length [simp]: "length (Sort xs) = length xs"
  by (simp_all add: Sort_def)

lemma Sort_unique: "sorted ys \<Longrightarrow> mset ys = mset xs \<Longrightarrow> Sort xs = ys"
  unfolding Sort_def by (metis properties_for_sort)

subsection \<open>Splitting at a string\<close>

text \<open>\<^verbatim>\<open>strings.Split\<close>: the separator is looked for from the left, and what it covers is not looked
  at again. The second argument holds the bytes of the current part, last first.\<close>

function split_from :: "string \<Rightarrow> string \<Rightarrow> string \<Rightarrow> string list" where
  "split_from sep part [] = [rev part]"
| "split_from sep part (c # cs) =
     (if sep \<noteq> [] \<and> HasPrefix (c # cs) sep then rev part # split_from sep [] (drop (length sep) (c # cs))
      else split_from sep (c # part) cs)"
  by pat_completeness auto
termination
  by (relation "measure (\<lambda>(sep, part, s). length s)") auto

declare split_from.simps(2) [simp del]

definition SplitAt :: "string \<Rightarrow> string \<Rightarrow> string list" where
  "SplitAt s sep = split_from sep [] s"

lemma split_from_part:
  assumes "sep \<noteq> []" and "\<And>a b. a @ b = s \<Longrightarrow> b \<noteq> [] \<Longrightarrow> \<not> HasPrefix (b @ r) sep"
  shows "split_from sep part (s @ r) = split_from sep (rev s @ part) r"
  using assms(2)
proof (induction s arbitrary: part)
  case Nil
  then show ?case by simp
next
  case (Cons c cs)
  have "\<not> HasPrefix ((c # cs) @ r) sep" using Cons.prems [of "[]" "c # cs"] by simp
  moreover have "\<not> HasPrefix (b @ r) sep" if "a @ b = cs" "b \<noteq> []" for a b
    using Cons.prems [of "c # a" b] that by simp
  ultimately show ?case using Cons.IH [of "c # part"] by (simp add: split_from.simps(2))
qed

lemma split_from_sep: "sep \<noteq> [] \<Longrightarrow> split_from sep part (sep @ r) = rev part # split_from sep [] r"
proof -
  assume "sep \<noteq> []"
  then obtain c cs where sep: "sep = c # cs" by (cases sep) auto
  then have "HasPrefix (c # cs @ r) sep" using HasPrefix_append [of sep r] by simp
  then show ?thesis using sep by (simp add: split_from.simps(2))
qed

lemma SplitAt_Nil [simp]: "SplitAt [] sep = [[]]"
  by (simp add: SplitAt_def)

lemma split_from_Cons_head: "\<exists>p ps. split_from sep part s = p # ps"
  by (induction sep part s rule: split_from.induct) (auto simp: split_from.simps(2))

subsection \<open>Blocks of lines\<close>

text \<open>A text of blocks, each of non-empty lines, with an empty line after each. Splitting it at the
  empty lines and each block at its line ends gives the lines back.\<close>

definition block_text :: "string list \<Rightarrow> string" where
  "block_text ls = Join ls [newline]"

definition blocks_text :: "string list list \<Rightarrow> string" where
  "blocks_text bs = concat (map (\<lambda>b. block_text b @ [newline, newline]) bs)"

definition block_lines :: "string list \<Rightarrow> bool" where
  "block_lines ls = (ls \<noteq> [] \<and> list_all (\<lambda>l. l \<noteq> [] \<and> newline \<notin> set l) ls)"

lemma Join_lines_no_gap:
  assumes "list_all (\<lambda>l. l \<noteq> [] \<and> newline \<notin> set l) ls" and "a @ b = Join ls [newline]" and "b \<noteq> []"
    and "ls \<noteq> []"
  shows "\<not> HasPrefix (b @ [newline, newline] @ r) [newline, newline]"
  using assms
proof (induction ls arbitrary: a)
  case Nil
  then show ?case by simp
next
  case (Cons l ls)
  have l: "l \<noteq> []" "newline \<notin> set l" using Cons.prems(1) by simp_all
  show ?case
  proof (cases "ls = []")
    case True
    then have "set b \<subseteq> set l" using Cons.prems(2) by (metis Join.simps(2) Un_upper2 set_append)
    then have "hd b \<noteq> newline" using l Cons.prems(3) by (metis list.set_sel(1) subsetD)
    then show ?thesis using Cons.prems(3) by (cases b) (simp_all add: HasPrefix_def)
  next
    case False
    then have eq: "a @ b = l @ newline # Join ls [newline]" using Cons.prems(2) by (simp add: Join_Cons)
    have head: "\<exists>c cs. Join ls [newline] = c # cs \<and> c \<noteq> newline"
    proof -
      obtain m ms where ms: "ls = m # ms" using False by (cases ls) auto
      then obtain c cs where "m = c # cs" "c \<noteq> newline" using Cons.prems(1) by (cases m) auto
      then show ?thesis using ms by (cases ms) (simp_all add: Join_Cons)
    qed
    from eq consider us where "a = l @ newline # us" "us @ b = Join ls [newline]"
      | us where "us \<noteq> []" "a @ us = l" "b = us @ newline # Join ls [newline]"
      | "b = newline # Join ls [newline]"
      by (auto simp: append_eq_append_conv2 Cons_eq_append_conv append_eq_Cons_conv)
    then show ?thesis
    proof cases
      case 1
      then show ?thesis using Cons.IH [of us] Cons.prems(1,3) False by simp
    next
      case 2
      then have "hd b \<noteq> newline" using l by (cases us) auto
      then show ?thesis using Cons.prems(3) by (cases b) (simp_all add: HasPrefix_def)
    next
      case 3
      then show ?thesis using head by (auto simp: HasPrefix_def)
    qed
  qed
qed

lemma SplitAt_blocks:
  assumes "list_all block_lines bs"
  shows "SplitAt (blocks_text bs) [newline, newline] = map block_text bs @ [[]]"
  using assms
proof (induction bs)
  case Nil
  then show ?case by (simp add: blocks_text_def)
next
  case (Cons b bs)
  have "split_from [newline, newline] [] (block_text b @ [newline, newline] @ blocks_text bs)
      = split_from [newline, newline] (rev (block_text b)) ([newline, newline] @ blocks_text bs)"
    using Cons.prems Join_lines_no_gap [of b _ _ "blocks_text bs"]
    by (subst split_from_part) (auto simp: block_lines_def block_text_def)
  also have "\<dots> = block_text b # SplitAt (blocks_text bs) [newline, newline]"
    by (subst split_from_sep) (simp_all add: SplitAt_def)
  finally show ?case using Cons by (simp add: SplitAt_def blocks_text_def)
qed

lemma Split_block: "block_lines b \<Longrightarrow> Split (block_text b) newline = b"
  unfolding block_lines_def block_text_def by (rule Split_Join) (auto simp: list_all_iff)

subsection \<open>Numbers read\<close>

text \<open>\<^verbatim>\<open>strconv.Atoi\<close> on a string of decimal digits: a number too large for an \<^verbatim>\<open>int\<close> is the largest
  one, with an error its callers here ignore.\<close>

definition Atoi_digits :: "string \<Rightarrow> nat" where
  "Atoi_digits s = min (undigits 10 s) (2 ^ 63 - 1)"

lemma Atoi_dec: "n < 2 ^ 63 \<Longrightarrow> Atoi_digits (dec n) = n"
  by (simp add: Atoi_digits_def dec_def undigits_base)

end
