(* ===== verification/Qmp_Wire.thy ===== *)
theory Qmp_Wire
  imports Qmp_Commands Go_Sort
begin

text \<open>
  What \<^verbatim>\<open>run\<close> of \<^verbatim>\<open>cmd/spin-machine\<close> writes for a command: the object it encodes, a map whose keys
  \<^verbatim>\<open>encoding/json\<close> sorts, and its text with the encoder's newline; and what a reader of JSON makes of
  it. The arguments arrive as they were given, every string in UTF-8; a byte that is not valid UTF-8
  arrives as U+FFFD, so a file whose name has one is not the file QEMU is asked for.
\<close>

definition sorted_map :: "(string \<times> json) list \<Rightarrow> json" where
  "sorted_map kvs = JObj (sort_key fst kvs)"

definition request :: "string \<Rightarrow> qargs \<Rightarrow> json" where
  "request cmd args = sorted_map ([(''execute'', JStr cmd)]
     @ (case args of None \<Rightarrow> [] | Some kvs \<Rightarrow> [(''arguments'', sorted_map kvs)]))"

definition request_text :: "string \<Rightarrow> qargs \<Rightarrow> string" where
  "request_text cmd args = json_text (request cmd args) @ [newline]"

text \<open>A reader of such a request: the command, and the arguments if there are any.\<close>

definition read_request :: "string \<Rightarrow> (string \<times> qargs) option" where
  "read_request s = (case json_parse s of
      Some (JObj kvs) \<Rightarrow>
        (case map_of kvs ''execute'' of
           Some (JStr cmd) \<Rightarrow> Some (cmd, case map_of kvs ''arguments'' of Some (JObj as) \<Rightarrow> Some as | _ \<Rightarrow> None)
         | _ \<Rightarrow> None)
    | _ \<Rightarrow> None)"

definition plain_args :: "qargs \<Rightarrow> bool" where
  "plain_args args = (case args of None \<Rightarrow> True | Some kvs \<Rightarrow> no_other (JObj kvs) \<and> distinct (map fst kvs))"

definition utf8_args :: "qargs \<Rightarrow> bool" where
  "utf8_args args = (case args of None \<Rightarrow> True | Some kvs \<Rightarrow> utf8_json (JObj kvs))"

definition valid_args :: "qargs \<Rightarrow> qargs" where
  "valid_args args = map_option (\<lambda>kvs. map (\<lambda>(k, v). (to_valid k, valid_json v)) (sort_key fst kvs)) args"

lemma request_eq:
  "request cmd args = JObj ((case args of None \<Rightarrow> [] | Some kvs \<Rightarrow> [(''arguments'', sorted_map kvs)]) @ [(''execute'', JStr cmd)])"
proof -
  have "\<not> ''execute'' \<le> ''arguments''" "''arguments'' \<le> ''execute''" by code_simp+
  then show ?thesis by (simp add: request_def sorted_map_def split: option.split)
qed

lemma to_valid_ascii: "ascii s \<Longrightarrow> to_valid s = s"
  by (simp add: to_valid_valid ascii_valid)

lemma valid_keys: "to_valid ''arguments'' = ''arguments''" "to_valid ''execute'' = ''execute''"
  by (rule to_valid_ascii, simp add: byte_in_def)+

lemma read_request_text:
  assumes "plain_args args"
  shows "read_request (request_text cmd args) = Some (to_valid cmd, valid_args args)"
proof -
  have "no_other (request cmd args)"
    using assms by (auto simp: request_eq plain_args_def sorted_map_def list_all_iff split: option.splits)
  then have "json_parse (request_text cmd args) = Some (valid_json (request cmd args))"
    unfolding request_text_def by (rule json_written(2))
  then show ?thesis
    by (simp add: read_request_def request_eq sorted_map_def valid_args_def valid_keys split: option.split)
qed

lemma map_of_sort_key:
  fixes kvs :: "(string \<times> json) list"
  shows "distinct (map fst kvs) \<Longrightarrow> map_of (sort_key fst kvs) = map_of kvs"
proof -
  assume d: "distinct (map fst kvs)"
  have "mset (map fst (sort_key fst kvs)) = mset (map fst kvs)" by simp
  then have "distinct (map fst (sort_key fst kvs))" using d by (metis mset_eq_imp_distinct_iff)
  then show ?thesis using d map_of_inject_set [of "sort_key fst kvs" kvs] by simp
qed

lemma valid_args_utf8:
  assumes "plain_args args" and "utf8_args args"
  shows "map_option map_of (valid_args args) = map_option map_of args"
proof (cases args)
  case (Some kvs)
  have "utf8_json (JObj (sort_key fst kvs))" using assms(2) Some by (simp add: utf8_args_def list_all_iff)
  then have "map (\<lambda>(k, v). (to_valid k, valid_json v)) (sort_key fst kvs) = sort_key fst kvs"
    using valid_json_utf8 by fastforce
  then show ?thesis using Some assms(1) map_of_sort_key [of kvs] by (simp add: valid_args_def plain_args_def)
qed (simp add: valid_args_def)

text \<open>What the five commands send is such a map.\<close>

lemma plain_commands:
  "plain_args None" "plain_args (blockdev_add o' path)" "plain_args (blockdev_del target)" "plain_args (device_add o')"
  "plain_args (Some [(''id'', JStr i)])" "plain_args (Some [(''uri'', JStr u)])"
  "plain_args (Some [(''path'', JStr p), (''property'', JStr q)])"
  "plain_args (Some [(''path'', JStr p), (''property'', JStr q), (''value'', JInt v)])"
  by (simp_all add: plain_args_def blockdev_add_def blockdev_del_def device_add_def HotplugDisk_def)

text \<open>The name of the file \<^verbatim>\<open>blockdev-add\<close> is asked to open.\<close>

definition filename_asked :: "qargs \<Rightarrow> string option" where
  "filename_asked args = (case args of
      Some kvs \<Rightarrow> (case map_of kvs ''file'' of
          Some (JObj fs) \<Rightarrow> (case map_of fs ''filename'' of Some (JStr p) \<Rightarrow> Some p | _ \<Rightarrow> None)
        | _ \<Rightarrow> None)
    | None \<Rightarrow> None)"

lemma filename_blockdev_add: "filename_asked (valid_args (blockdev_add o' path)) = Some (to_valid path)"
proof -
  have le: "''driver'' \<le> ''file''" "''file'' \<le> ''node-name''" "''node-name'' \<le> ''read-only''"
    "''driver'' \<le> ''node-name''" "\<not> ''node-name'' \<le> ''driver''" "\<not> ''node-name'' \<le> ''file''" "\<not> ''read-only'' \<le> ''file''" 
    "''driver'' \<le> ''read-only''" "\<not> ''read-only'' \<le> ''driver''" by code_simp+
  have keys: "to_valid ''driver'' = ''driver''" "to_valid ''file'' = ''file''" "to_valid ''filename'' = ''filename''"
    by (rule to_valid_ascii, simp add: byte_in_def)+
  show ?thesis by (simp add: blockdev_add_def valid_args_def filename_asked_def le keys)
qed

subsection \<open>Properties\<close>

text \<open>C18: A command reaches QEMU as it was said. The text written for a command whose arguments are
  a map is read back, by any reader of JSON, as that command with those arguments, when its strings
  are UTF-8. Of a disk's path every byte
  that is not valid UTF-8 is replaced, so \<^verbatim>\<open>attach\<close> asks for the file it was given exactly when its
  path is valid UTF-8.\<close>

theorem command_reaches_qemu_as_said:
  "(plain_args args \<and> utf8_args args \<and> valid_utf8 cmd \<longrightarrow>
      (\<exists>args'. read_request (request_text cmd args) = Some (cmd, args') \<and> map_option map_of args' = map_option map_of args))
   \<and> (\<exists>args'. read_request (request_text ''blockdev-add'' (blockdev_add o' path)) = Some (''blockdev-add'', args')
        \<and> (filename_asked args' = Some path \<longleftrightarrow> valid_utf8 path))"
proof -
  have "to_valid ''blockdev-add'' = ''blockdev-add''" by (rule to_valid_ascii) (simp add: byte_in_def)
  then have "read_request (request_text ''blockdev-add'' (blockdev_add o' path)) = Some (''blockdev-add'', valid_args (blockdev_add o' path))"
    using read_request_text [OF plain_commands(2)] by simp
  moreover have "filename_asked (valid_args (blockdev_add o' path)) = Some path \<longleftrightarrow> valid_utf8 path"
    unfolding filename_blockdev_add option.inject by (rule to_valid_iff)
  moreover have "\<exists>args'. read_request (request_text cmd args) = Some (cmd, args') \<and> map_option map_of args' = map_option map_of args"
    if "plain_args args" "utf8_args args" "valid_utf8 cmd"
    using read_request_text [OF that(1)] valid_args_utf8 [OF that(1,2)] to_valid_valid [OF that(3)] by simp
  ultimately show ?thesis by blast
qed

theorem command_reaches_qemu_as_said_witness:
  "\<exists>args'. read_request (request_text ''migrate'' (Some [(''uri'', JStr ''file:/s'')])) = Some (''migrate'', args')
     \<and> map_option map_of args' = Some [''uri'' \<mapsto> JStr ''file:/s'']"
proof -
  have "utf8_args (Some [(''uri'', JStr ''file:/s'')])" "valid_utf8 ''migrate''"
    by (simp_all add: utf8_args_def ascii_valid byte_in_def)
  then show ?thesis
    using command_reaches_qemu_as_said [of "Some [(''uri'', JStr ''file:/s'')]" "''migrate''" attachFlags_register "[]"]
      plain_commands(6) [of "''file:/s''"] by auto
qed

end
