(* ===== verification/Qmp_World.thy ===== *)
theory Qmp_World
  imports Qmp_Order
begin

text \<open>
  What \<^verbatim>\<open>attach\<close> and \<^verbatim>\<open>detach\<close> do to QEMU, and not only what they say to it. QEMU is not under
  \<^verbatim>\<open>src/\<close>: it is a parameter \<open>qemu\<close>, the effect of a command it accepted and of a device that went, and
  which nodes and devices it has; \<open>qemu_laws\<close> states what its QMP reference documents of the commands
  the two send. The trace of a conversation is then run over a state of QEMU: a command takes effect
  with the reply that accepts it, a refusal changes nothing, and a DEVICE_DELETED event is the device
  going.
\<close>

subsection \<open>QEMU\<close>

record 'w qemu =
  qw_apply :: "string \<Rightarrow> qargs \<Rightarrow> 'w \<Rightarrow> 'w"
  qw_gone :: "string \<Rightarrow> 'w \<Rightarrow> 'w"
  qw_node :: "string \<Rightarrow> 'w \<Rightarrow> bool"
  qw_device :: "string \<Rightarrow> 'w \<Rightarrow> bool"

text \<open>A block node added under a free name is deleted by that name, a device added under a free id goes
  by that id, the other two commands add and remove nothing, and \<^verbatim>\<open>device_del\<close> only asks.\<close>

definition qemu_laws :: "'w qemu \<Rightarrow> bool" where
  "qemu_laws Q \<longleftrightarrow>
     (\<forall>n a w. map_of a ''node-name'' = Some (JStr n) \<longrightarrow> \<not> qw_node Q n w \<longrightarrow>
        qw_apply Q ''blockdev-del'' (Some [(''node-name'', JStr n)]) (qw_apply Q ''blockdev-add'' (Some a) w) = w)
   \<and> (\<forall>i a w. map_of a ''id'' = Some (JStr i) \<longrightarrow> \<not> qw_device Q i w \<longrightarrow>
        qw_gone Q i (qw_apply Q ''device_add'' (Some a) w) = w)
   \<and> (\<forall>i a w. qw_device Q i (qw_apply Q ''blockdev-add'' a w) = qw_device Q i w)
   \<and> (\<forall>i w. \<not> qw_device Q i (qw_gone Q i w))
   \<and> (\<forall>i w. \<not> qw_device Q i w \<longrightarrow> qw_gone Q i w = w)
   \<and> (\<forall>a w. qw_apply Q ''device_del'' a w = w)
   \<and> (\<forall>a w. qw_apply Q ''qmp_capabilities'' a w = w)"

text \<open>One event of a trace: the command still unanswered, and QEMU's state.\<close>

type_synonym 'w pending = "(string \<times> qargs) option \<times> 'w"

fun heard :: "'w qemu \<Rightarrow> qevent \<Rightarrow> 'w pending \<Rightarrow> 'w pending" where
  "heard Q (Sent c a) (p, w) = (Some (c, a), w)"
| "heard Q (Got (Recv m)) (p, w) =
     (if qm_Event m = ''DEVICE_DELETED'' then (p, qw_gone Q (qm_Device m) w)
      else if qm_Event m \<noteq> [] then (p, w)
      else (None, case p of Some (c, a) \<Rightarrow> if qm_Error m = None then qw_apply Q c a w else w | None \<Rightarrow> w))"
| "heard Q (Got (RecvFail e)) s = s"
| "heard Q Closed s = s"

definition world :: "'w qemu \<Rightarrow> qevent list \<Rightarrow> 'w \<Rightarrow> 'w" where
  "world Q t w = snd (fold (heard Q) t (None, w))"

subsection \<open>Messages and exchanges\<close>

text \<open>No device but this one was reported deleted.\<close>

definition only_goes :: "string \<Rightarrow> qevent list \<Rightarrow> bool" where
  "only_goes i t = (\<forall>d. list_ex (deletion d) t \<longrightarrow> d = i)"

lemma only_goes_append [simp]: "only_goes i (a @ b) \<longleftrightarrow> only_goes i a \<and> only_goes i b"
  by (auto simp: only_goes_def)

lemma only_goes_Cons: "only_goes i (e # t) \<longleftrightarrow> (\<forall>d. deletion d e \<longrightarrow> d = i) \<and> only_goes i t"
  by (auto simp: only_goes_def)

lemma only_goes_exchange [simp]: "only_goes i (exchange c a is) \<longleftrightarrow> only_goes i (map Got is)"
  by (simp add: only_goes_Cons exchange_def)

definition refused :: "inbound list \<Rightarrow> bool" where
  "refused is = (\<exists>es m. is = es @ [Recv m] \<and> list_all is_event es \<and> qm_Event m = [] \<and> qm_Error m \<noteq> None)"

lemma run_refused:
  assumes "qmp_run cmd args q = (q', Inl (Refused c' cls desc))"
  obtains "is" where "extends q q' (exchange cmd args is)" "refused is"
proof -
  obtain q1 m where send: "send cmd args q = Some q1" and rep: "reply q1 = (q', Inr m)" and err: "qm_Error m \<noteq> None"
    using assms by (auto simp: qmp_run_def split: option.splits prod.splits sum.splits)
  obtain "is" where "reads_reply q1 q' (Inr m) is" using reply_spec [OF rep] by blast
  then have "extends q1 q' (map Got is)" "refused is" using err by (auto simp: reads_reply_def refused_def)
  then show ?thesis using that [of "is"] extends_trans [OF extends_send [OF send]] by (simp add: exchange_def)
qed

lemma run_answered:
  assumes "qmp_run cmd args q = (q', Inr ret)"
  obtains "is" where "extends q q' (exchange cmd args is)" "answered is ret"
  using run_spec [OF assms] by auto

lemma handshake_exchange:
  assumes "handshake q = (q', Inr u)"
  obtains g "is" ret where "extends q q' (Got (Recv g) # exchange ''qmp_capabilities'' None is)" "answered is ret"
proof -
  obtain q0 q1 g q2 ret where d: "set_deadline q = Some q0" and rc: "recv q0 = (q1, Inr g)"
    and run: "qmp_run ''qmp_capabilities'' None q1 = (q2, Inr ret)" and d': "set_deadline q2 = Some q'"
    using assms by (auto simp: handshake_def split: option.splits prod.splits sum.splits)
  obtain "is" where e: "extends q1 q2 (exchange ''qmp_capabilities'' None is)" "answered is ret" by (rule run_answered [OF run])
  have "extends q q' ([] @ [Got (Recv g)] @ exchange ''qmp_capabilities'' None is)"
    by (rule extends_trans [OF extends_set_deadline [OF d] extends_trans [OF extends_got [OF rc] extends_deadline [OF e(1) d']]])
  then show ?thesis using that [of g "is" ret] e(2) by simp
qed

lemma session_answered:
  assumes "session dial socket body = (Some q, r)" and "dial socket = Inr c" and "fresh c" and "body_error r"
    and "\<And>e. \<not> body_error (Inl (QMPAt socket e))"
  obtains g "is" ret q0 q1 where "extends c q0 (Got (Recv g) # exchange ''qmp_capabilities'' None is)" "answered is ret"
    "body q0 = (q1, r)" "q = close q1"
proof -
  obtain q0 res where hs: "handshake c = (q0, res)" by force
  show ?thesis
  proof (cases res)
    case (Inl e)
    then have "r = Inl (QMPAt socket e)" using assms(1,2) hs by (simp add: session_def newQMP_def)
    then show ?thesis using assms(4,5) by simp
  next
    case (Inr u)
    obtain q1 where b: "body q0 = (q1, r)" "q = close q1"
      using assms(1,2) hs Inr by (auto simp: session_def newQMP_def split: prod.splits)
    show ?thesis using hs [unfolded Inr] by (rule handshake_exchange) (rule that [OF _ _ b])
  qed
qed

subsection \<open>The state after an exchange\<close>

lemma heard_events:
  "list_all is_event is \<Longrightarrow> fold (heard Q) (map Got is) (p, w) = (p, fold (qw_gone Q) (deleted_ids is) w)"
  by (induction "is" arbitrary: w) (auto simp: is_event_def split: inbound.splits)

text \<open>While no command is unanswered, only deletions count.\<close>

lemma heard_quiet: "fold (heard Q) (map Got is) (None, w) = (None, fold (qw_gone Q) (deleted_ids is) w)"
  by (induction "is" arbitrary: w rule: deleted_ids.induct) auto

text \<open>The state once the messages have been heard: without the device if one reported it deleted.\<close>

definition after :: "'w qemu \<Rightarrow> string \<Rightarrow> inbound list \<Rightarrow> 'w \<Rightarrow> 'w" where
  "after Q i is w = (if list_ex (deletion i) (map Got is) then qw_gone Q i w else w)"

lemma fold_gone:
  assumes "qemu_laws Q" and "only_goes i (map Got is)"
  shows "fold (qw_gone Q) (deleted_ids is) w = after Q i is w"
proof -
  have again: "qw_gone Q i (qw_gone Q i w) = qw_gone Q i w" for w using assms(1) by (simp add: qemu_laws_def)
  have one: "fold (qw_gone Q) ids w = (if i \<in> set ids then qw_gone Q i w else w)" if "set ids \<subseteq> {i}" for ids w
    using that by (induction ids arbitrary: w) (auto simp: again)
  have "set (deleted_ids is) \<subseteq> {i}" using assms(2) by (auto simp: only_goes_def deleted_ids_iff)
  then show ?thesis using one [of "deleted_ids is" w] by (simp only: after_def deleted_ids_iff)
qed

lemma after_gone:
  assumes "qemu_laws Q" and "\<not> qw_device Q i w"
  shows "after Q i is w = w" "after Q i is (qw_gone Q i v) = qw_gone Q i v"
  using assms by (simp_all add: after_def qemu_laws_def)

lemma heard_answered:
  assumes "qemu_laws Q" and "answered is ret" and "only_goes i (map Got is)"
  shows "fold (heard Q) (exchange c a is) (p, w) = (None, qw_apply Q c a (after Q i is w))"
proof -
  obtain es m where m: "is = es @ [Recv m]" "list_all is_event es" "qm_Event m = []" "qm_Error m = None"
    using assms(2) by (auto simp: answered_def)
  then have "after Q i is w = after Q i es w" "only_goes i (map Got es)"
    using assms(3) by (auto simp: after_def deletion_def)
  then show ?thesis using m heard_events [OF m(2), of Q "Some (c, a)" w] fold_gone [OF assms(1), of i es w] by (simp add: exchange_def)
qed

lemma heard_refused:
  assumes "qemu_laws Q" and "refused is" and "only_goes i (map Got is)"
  shows "fold (heard Q) (exchange c a is) (p, w) = (None, after Q i is w)"
proof -
  obtain es m where m: "is = es @ [Recv m]" "list_all is_event es" "qm_Event m = []" "qm_Error m \<noteq> None"
    using assms(2) by (auto simp: refused_def)
  then have "after Q i is w = after Q i es w" "only_goes i (map Got es)"
    using assms(3) by (auto simp: after_def deletion_def)
  then show ?thesis using m heard_events [OF m(2), of Q "Some (c, a)" w] fold_gone [OF assms(1), of i es w] by (auto simp: exchange_def)
qed

lemma heard_handshake:
  assumes "qemu_laws Q" and "answered is ret" and "only_goes i (Got (Recv g) # exchange ''qmp_capabilities'' None is)"
  shows "fold (heard Q) (Got (Recv g) # exchange ''qmp_capabilities'' None is) (None, w) = (None, after Q i (Recv g # is) w)"
proof -
  have g: "only_goes i (map Got [Recv g])" "only_goes i (map Got is)" using assms(3) by (simp_all add: only_goes_Cons) (simp add: only_goes_def)
  have "heard Q (Got (Recv g)) (None, w) = (None, after Q i [Recv g] w)"
    using heard_quiet [of Q "[Recv g]" w] fold_gone [OF assms(1) g(1)] by simp
  moreover have "qw_apply Q ''qmp_capabilities'' None v = v" for v using assms(1) by (simp add: qemu_laws_def)
  moreover have "after Q i is (after Q i [Recv g] w) = after Q i (Recv g # is) w"
    using assms(1) by (auto simp: after_def qemu_laws_def)
  ultimately show ?thesis using heard_answered [OF assms(1,2) g(2)] by simp
qed

lemma world_close: "world Q (t @ [Closed]) w = world Q t w"
  by (simp add: world_def)

subsection \<open>The two commands\<close>

text \<open>A state with nothing at a target, and the one with a disk there.\<close>

definition vacant :: "'w qemu \<Rightarrow> int \<Rightarrow> 'w \<Rightarrow> bool" where
  "vacant Q target w = (\<not> qw_node Q (hotplugDriveID target) w \<and> \<not> qw_device Q (hotplugDiskID target) w)"

definition with_node :: "'w qemu \<Rightarrow> attachFlags \<Rightarrow> string \<Rightarrow> 'w \<Rightarrow> 'w" where
  "with_node Q a path w = qw_apply Q ''blockdev-add'' (blockdev_add a path) w"

definition with_disk :: "'w qemu \<Rightarrow> attachFlags \<Rightarrow> string \<Rightarrow> 'w \<Rightarrow> 'w" where
  "with_disk Q a path w = qw_apply Q ''device_add'' (device_add a) (with_node Q a path w)"

lemma vacant_laws:
  assumes "qemu_laws Q" and "vacant Q (at_target a) w"
  shows "qw_gone Q (hotplugDiskID (at_target a)) (with_disk Q a path w) = with_node Q a path w"
    and "qw_apply Q ''blockdev-del'' (blockdev_del (at_target a)) (with_node Q a path w) = w"
    and "\<not> qw_device Q (hotplugDiskID (at_target a)) (with_node Q a path w)"
proof -
  show dev: "\<not> qw_device Q (hotplugDiskID (at_target a)) (with_node Q a path w)"
    using assms by (simp add: with_node_def vacant_def qemu_laws_def)
  show "qw_gone Q (hotplugDiskID (at_target a)) (with_disk Q a path w) = with_node Q a path w"
    using assms(1) dev by (simp add: with_disk_def device_add_def HotplugDisk_def qemu_laws_def)
  show "qw_apply Q ''blockdev-del'' (blockdev_del (at_target a)) (with_node Q a path w) = w"
    using assms by (simp add: with_node_def blockdev_add_def blockdev_del_def vacant_def qemu_laws_def)
qed

lemma detach_body_done:
  assumes "detach_body target q = (q', Inr ())"
  obtains is1 is2 is3 ret1 ret3 where
    "extends q q' (exchange ''device_del'' (Some [(''id'', JStr (hotplugDiskID target))]) is1 @ map Got is2
       @ exchange ''blockdev-del'' (blockdev_del target) is3)"
    "answered is1 ret1" "answered is3 ret3"
    "hotplugDiskID target \<in> set (q_deleted q) \<or> list_ex (deletion (hotplugDiskID target)) (map Got (is1 @ is2))"
proof -
  let ?id = "hotplugDiskID target"
  obtain q1 q2 ret1 ret3 where run1: "qmp_run ''device_del'' (Some [(''id'', JStr ?id)]) q = (q1, Inr ret1)"
    and wait: "waitDeleted ?id q1 = (q2, Inr ())" and run3: "qmp_run ''blockdev-del'' (blockdev_del target) q2 = (q', Inr ret3)"
    using assms by (auto simp: detach_body_def split: prod.splits sum.splits)
  obtain is1 where e1: "extends q q1 (exchange ''device_del'' (Some [(''id'', JStr ?id)]) is1)" and a1: "answered is1 ret1"
    by (rule run_answered [OF run1])
  obtain is2 where e2: "extends q1 q2 (map Got is2)" and d: "?id \<in> set (q_deleted q1) \<or> list_ex (deletion ?id) (map Got is2)"
    using waitDeleted_spec [OF wait] by blast
  obtain is3 where e3: "extends q2 q' (exchange ''blockdev-del'' (blockdev_del target) is3)" and a3: "answered is3 ret3"
    by (rule run_answered [OF run3])
  have "?id \<in> set (q_deleted q) \<or> list_ex (deletion ?id) (map Got (is1 @ is2))"
    using d e1 by (auto simp: extends_def exchange_def)
  with that [of is1 is2 is3] extends_trans [OF e1 extends_trans [OF e2 e3]] a1 a3 show ?thesis by blast
qed

lemma attach_world:
  assumes "qemu_laws Q" and "vacant Q (at_target a) w"
    and "attach os dial a = (Some q, Inr ())" and "dial (at_qmp a) = Inr c" and "fresh c"
    and "only_goes (hotplugDiskID (at_target a)) (q_trace q)"
  shows "\<exists>path. Abs os (at_disk a) = Inr path \<and> fold (heard Q) (q_trace q) (None, w) = (None, with_disk Q a path w)"
proof -
  let ?id = "hotplugDiskID (at_target a)"
  obtain path where path: "Abs os (at_disk a) = Inr path" and run: "session dial (at_qmp a) (attach_body a path) = (Some q, Inr ())"
    using attach_session_of [OF assms(3)] by blast
  obtain g "is" ret q0 q1 where h: "extends c q0 (Got (Recv g) # exchange ''qmp_capabilities'' None is)" "answered is ret"
    and b: "attach_body a path q0 = (q1, Inr ())" "q = close q1"
    by (rule session_answered [OF run assms(4,5), of "\<lambda>r. r = Inr ()"]) auto
  obtain is1 ret1 is2 ret2 where e: "extends q0 q1 (exchange ''blockdev-add'' (blockdev_add a path) is1 @ exchange ''device_add'' (device_add a) is2)"
    "answered is1 ret1" "answered is2 ret2"
    using b(1) by (cases rule: attach_body_spec) auto
  have tr: "q_trace q = (Got (Recv g) # exchange ''qmp_capabilities'' None is) @ exchange ''blockdev-add'' (blockdev_add a path) is1
      @ exchange ''device_add'' (device_add a) is2 @ [Closed]"
    using fresh_trace [OF extends_trans [OF h(1) e(1)] assms(5)] b(2) by simp
  have og: "only_goes ?id (Got (Recv g) # exchange ''qmp_capabilities'' None is)" "only_goes ?id (map Got is1)" "only_goes ?id (map Got is2)"
    using assms(6) unfolding tr only_goes_append by simp_all
  have "\<not> qw_device Q ?id w" using assms(2) by (simp add: vacant_def)
  note w = after_gone(1) [OF assms(1) this] after_gone(1) [OF assms(1) vacant_laws(3) [OF assms(1,2)]]
  have "fold (heard Q) (q_trace q) (None, w) = (None, with_disk Q a path w)"
    unfolding tr fold_append comp_apply heard_handshake [OF assms(1) h(2) og(1)] w
      heard_answered [OF assms(1) e(2) og(2)] with_node_def [symmetric] heard_answered [OF assms(1) e(3) og(3)]
    by (simp add: with_disk_def)
  with path show ?thesis by blast
qed

lemma detach_world:
  assumes "qemu_laws Q" and "vacant Q (at_target a) w"
    and "detach dial d = (Some q, Inr ())" and "dial (dt_qmp d) = Inr c" and "fresh c" and "dt_target d = at_target a"
    and "only_goes (hotplugDiskID (at_target a)) (q_trace q)"
  shows "fold (heard Q) (q_trace q) (None, with_disk Q a path w) = (None, w)"
proof -
  let ?id = "hotplugDiskID (at_target a)" and ?w1 = "with_node Q a path w" and ?w2 = "with_disk Q a path w"
  have run: "session dial (dt_qmp d) (detach_body (at_target a)) = (Some q, Inr ())"
    using detach_session_of [OF assms(3)] assms(6) by simp
  obtain g "is" ret q0 q1 where h: "extends c q0 (Got (Recv g) # exchange ''qmp_capabilities'' None is)" "answered is ret"
    and b: "detach_body (at_target a) q0 = (q1, Inr ())" "q = close q1"
    by (rule session_answered [OF run assms(4,5), of "\<lambda>r. r = Inr ()"]) auto
  obtain is1 is2 is3 ret1 ret3 where
    e: "extends q0 q1 (exchange ''device_del'' (Some [(''id'', JStr ?id)]) is1 @ map Got is2 @ exchange ''blockdev-del'' (blockdev_del (at_target a)) is3)"
    "answered is1 ret1" "answered is3 ret3" "?id \<in> set (q_deleted q0) \<or> list_ex (deletion ?id) (map Got (is1 @ is2))"
    by (rule detach_body_done [OF b(1)])
  have tr: "q_trace q = (Got (Recv g) # exchange ''qmp_capabilities'' None is) @ exchange ''device_del'' (Some [(''id'', JStr ?id)]) is1
      @ map Got is2 @ exchange ''blockdev-del'' (blockdev_del (at_target a)) is3 @ [Closed]"
    using fresh_trace [OF extends_trans [OF h(1) e(1)] assms(5)] b(2) by simp
  have og: "only_goes ?id (Got (Recv g) # exchange ''qmp_capabilities'' None is)" "only_goes ?id (map Got is1)"
    "only_goes ?id (map Got is2)" "only_goes ?id (map Got is3)"
    using assms(7) unfolding tr only_goes_append by simp_all
  have "?id \<in> set (q_deleted q0) \<Longrightarrow> list_ex (deletion ?id) (map Got (Recv g # is))"
    using fresh_deleted [OF h(1) assms(5)] by (simp add: exchange_def)
  then have went: "list_ex (deletion ?id) (map Got (Recv g # is)) \<or> list_ex (deletion ?id) (map Got is1) \<or> list_ex (deletion ?id) (map Got is2)"
    using e(4) by auto
  note laws = vacant_laws [OF assms(1,2)]
  have stays: "after Q ?id js ?w1 = ?w1" for js by (rule after_gone(1) [OF assms(1) laws(3)])
  have once: "after Q ?id js ?w2 = (if list_ex (deletion ?id) (map Got js) then ?w1 else ?w2)" for js
    by (simp add: after_def laws(1))
  have asks: "qw_apply Q ''device_del'' x v = v" for x v using assms(1) by (simp add: qemu_laws_def)
  have gone: "after Q ?id is2 (after Q ?id is1 (after Q ?id (Recv g # is) ?w2)) = ?w1"
    using went by (elim disjE) (simp_all add: once stays del: list.map)
  show ?thesis
    unfolding tr fold_append comp_apply heard_handshake [OF assms(1) h(2) og(1)] heard_answered [OF assms(1) e(2) og(2)] asks
      heard_quiet fold_gone [OF assms(1) og(3)] gone heard_answered [OF assms(1) e(3) og(4)] stays laws(2)
    by simp
qed

subsection \<open>A refused attach\<close>

lemma reply_fails: "reply q = (q', Inl e) \<Longrightarrow> \<exists>is. extends q q' (map Got is) \<and> (\<forall>m. Recv m \<in> set is \<longrightarrow> qm_Event m \<noteq> [])"
proof (induction q arbitrary: q' rule: reply.induct)
  case (1 q)
  obtain q1 res where rc: "recv q = (q1, res)" by force
  show ?case
  proof (cases res)
    case (Inl e')
    then show ?thesis using 1(3) rc extends_recv [of q] by (auto simp: reply.simps [of q])
  next
    case (Inr m)
    let ?q1 = "if qm_Event m = ''DEVICE_DELETED'' then q1\<lparr>q_deleted := q_deleted q1 @ [qm_Device m]\<rparr> else q1"
    have m: "qm_Event m \<noteq> []" and r: "reply ?q1 = (q', Inl e)"
      using 1(3) rc Inr by (auto simp: reply.simps [of q] split: if_split_asm)
    then obtain "is" where "extends ?q1 q' (map Got is)" "\<forall>m. Recv m \<in> set is \<longrightarrow> qm_Event m \<noteq> []"
      using 1(1) [OF rc [symmetric] Inr] 1(2) [OF rc [symmetric] Inr] by (cases "qm_Event m = ''DEVICE_DELETED''") auto
    moreover have "extends q ?q1 [Got (Recv m)]" using rc Inr extends_deleted extends_got by simp
    ultimately have "extends q q' (map Got (Recv m # is))" "\<forall>m'. Recv m' \<in> set (Recv m # is) \<longrightarrow> qm_Event m' \<noteq> []"
      using extends_trans m by fastforce+
    then show ?thesis by blast
  qed
qed

text \<open>The last thing heard is a reply that accepts.\<close>

definition accepting :: "qevent \<Rightarrow> bool" where
  "accepting e = (case e of Got (Recv m) \<Rightarrow> qm_Event m = [] \<and> qm_Error m = None | _ \<Rightarrow> False)"

lemma run_accepted:
  assumes "qmp_run cmd args q = (q', r)" and "q_trace q \<noteq> []" and "\<not> accepting (last (q_trace q))" and "accepting (last (q_trace q'))"
  obtains "is" ret where "extends q q' (exchange cmd args is)" "answered is ret"
proof (cases r)
  case (Inr ret)
  then show ?thesis using run_answered assms(1) that by metis
next
  case (Inl e)
  have False
  proof (cases "send cmd args q")
    case None
    then show ?thesis using assms by (simp add: qmp_run_def)
  next
    case (Some q1)
    then have s: "extends q q1 [Sent cmd args]" by (rule extends_send)
    have no: "\<not> accepting (last (q_trace q'))" if "extends q1 q' (map Got is)" and "\<forall>m. Recv m \<in> set is \<longrightarrow> qm_Event m \<noteq> [] \<or> qm_Error m \<noteq> None" for "is"
    proof (cases "is" rule: rev_cases)
      case Nil
      then show ?thesis using that s by (simp add: extends_def accepting_def)
    next
      case (snoc js j)
      then show ?thesis using that by (auto simp: extends_def accepting_def split: inbound.splits)
    qed
    obtain q2 res where rep: "reply q1 = (q2, res)" by force
    have q2: "q2 = q'" using assms(1) Some rep by (auto simp: qmp_run_def split: sum.splits option.splits)
    show ?thesis
    proof (cases res)
      case (Inl e')
      then show ?thesis using reply_fails rep q2 no assms(4) by blast
    next
      case (Inr m)
      then have "qm_Error m \<noteq> None" using assms(1) Some rep Inl by (auto simp: qmp_run_def split: option.splits)
      moreover obtain es where "extends q1 q' (map Got (es @ [Recv m]))" using reply_spec [OF rep] Inr q2 by (auto simp: reads_reply_def)
      ultimately show ?thesis using assms(4) by (auto simp: extends_def accepting_def)
    qed
  qed
  then show ?thesis ..
qed

lemma attach_body_refused:
  assumes "attach_body a path q = (q', Inl e)" and "e = Opening path (Refused c' cls desc) \<or> e = Adding path (at_target a) (Refused c' cls desc)"
    and "e = Opening path (Refused c' cls desc) \<or> accepting (last (q_trace q'))"
  obtains (unopened) "is" where "extends q q' (exchange ''blockdev-add'' (blockdev_add a path) is)" "refused is"
    | (undone) is1 ret1 is2 is3 ret3 where
      "extends q q' (exchange ''blockdev-add'' (blockdev_add a path) is1 @ exchange ''device_add'' (device_add a) is2
         @ exchange ''blockdev-del'' (blockdev_del (at_target a)) is3)" "answered is1 ret1" "refused is2" "answered is3 ret3"
proof -
  obtain q1 r1 where run1: "qmp_run ''blockdev-add'' (blockdev_add a path) q = (q1, r1)" by force
  show ?thesis
  proof (cases r1)
    case (Inl e1)
    then have r1: "r1 = Inl (Refused c' cls desc)" "q' = q1" using assms(1,2) run1 by (auto simp: attach_body_def)
    show ?thesis using run_refused [OF run1 [unfolded r1(1)]] unopened r1(2) by metis
  next
    case (Inr ret1)
    obtain q2 r2 where run2: "qmp_run ''device_add'' (device_add a) q1 = (q2, r2)" by force
    obtain q3 r3 where run3: "qmp_run ''blockdev-del'' (blockdev_del (at_target a)) q2 = (q3, r3)" by force
    have e: "r2 = Inl (Refused c' cls desc)" "q' = q3" "e \<noteq> Opening path (Refused c' cls desc)"
      using assms(1,2) run1 Inr run2 run3 by (auto simp: attach_body_def split: sum.splits)
    obtain is1 where e1: "extends q q1 (exchange ''blockdev-add'' (blockdev_add a path) is1)" "answered is1 ret1"
      by (rule run_answered [OF run1 [unfolded Inr]])
    obtain is2 where e2: "extends q1 q2 (exchange ''device_add'' (device_add a) is2)" "refused is2"
      by (rule run_refused [OF run2 [unfolded e(1)]])
    have "q_trace q2 \<noteq> []" "\<not> accepting (last (q_trace q2))"
      using e2 by (auto simp: extends_def exchange_def refused_def accepting_def)
    then obtain is3 ret3 where e3: "extends q2 q3 (exchange ''blockdev-del'' (blockdev_del (at_target a)) is3)" "answered is3 ret3"
      using run_accepted [OF run3] assms(3) e(2,3) by metis
    show ?thesis
      using undone [of is1 is2 is3] extends_trans [OF e1(1) extends_trans [OF e2(1) e3(1)]] e1(2) e2(2) e3(2) e(2) by blast
  qed
qed

text \<open>A device that was refused is followed by the request that takes its node back.\<close>

lemma attach_body_adding:
  assumes "attach_body a path q = (q', Inl (Adding path t x))" and "q_writes q = None"
  obtains u "is" where "extends q q' (u @ exchange ''blockdev-del'' (blockdev_del (at_target a)) is)"
proof -
  obtain q1 r1 where run1: "qmp_run ''blockdev-add'' (blockdev_add a path) q = (q1, r1)" by force
  obtain q2 r2 where run2: "qmp_run ''device_add'' (device_add a) q1 = (q2, r2)" by force
  obtain q3 r3 where run3: "qmp_run ''blockdev-del'' (blockdev_del (at_target a)) q2 = (q3, r3)" by force
  have q': "q' = q3" using assms(1) by (auto simp: attach_body_def run1 run2 run3 split: sum.splits)
  obtain u where u: "extends q q2 u"
    using run.step_extends [of q "''blockdev-add''" "blockdev_add a path"] run.step_extends [of q1 "''device_add''" "device_add a"] run1 run2 extends_trans by fastforce
  then have "q_writes q2 \<noteq> Some 0" using assms(2) by (simp add: extends_def)
  then obtain "is" where "extends q2 q3 (exchange ''blockdev-del'' (blockdev_del (at_target a)) is)" using run_spec [OF run3] by blast
  then show ?thesis using that extends_trans [OF u] q' by blast
qed

subsection \<open>Properties\<close>

text \<open>C14: \<^verbatim>\<open>detach\<close> undoes \<^verbatim>\<open>attach\<close>. Of a QEMU that keeps its documented commands and has nothing at the
  target, an attach that reports success makes the one with the disk there, its node and its device as
  asked for; a detach of that target that then reports success, in a conversation of its own, gives back
  the QEMU there was, provided no other device went meanwhile.\<close>

theorem detach_undoes_attach:
  assumes "qemu_laws Q" and "vacant Q (at_target a) w" and "dt_target d = at_target a"
    and "attach os dial a = (Some q, Inr ())" and "dial (at_qmp a) = Inr c" and "fresh c"
    and "detach dial' d = (Some q', Inr ())" and "dial' (dt_qmp d) = Inr c'" and "fresh c'"
    and "only_goes (hotplugDiskID (at_target a)) (q_trace q @ q_trace q')"
  shows "(\<exists>path. Abs os (at_disk a) = Inr path \<and> world Q (q_trace q) w = with_disk Q a path w)
    \<and> world Q (q_trace q @ q_trace q') w = w"
proof -
  have og: "only_goes (hotplugDiskID (at_target a)) (q_trace q)" "only_goes (hotplugDiskID (at_target a)) (q_trace q')"
    using assms(10) by simp_all
  obtain path where path: "Abs os (at_disk a) = Inr path" "fold (heard Q) (q_trace q) (None, w) = (None, with_disk Q a path w)"
    using attach_world [OF assms(1,2,4,5,6) og(1)] by blast
  then show ?thesis using detach_world [OF assms(1,2,7,8,9,3) og(2), of path] by (simp add: world_def)
qed

text \<open>C15: A refused attach leaves nothing behind. Of a QEMU that has nothing at the target, on a connection
  that takes what is sent, provided no other device went meanwhile: an attach that fails because QEMU
  refused the node leaves the QEMU there was; one that fails because QEMU refused the device has, as the
  last of its requests, asked for the node to be taken back, and when QEMU accepted that it too leaves
  the QEMU there was.\<close>

theorem refused_attach_leaves_nothing:
  assumes "qemu_laws Q" and "vacant Q (at_target a) w" and "attach os dial a = (Some q, Inl e)"
    and "dial (at_qmp a) = Inr c" and "fresh c" and "q_writes c = None" and "only_goes (hotplugDiskID (at_target a)) (q_trace q)"
    and "e = Opening path (Refused c' cls desc) \<or> e = Adding path (at_target a) (Refused c' cls desc)"
  shows "(e = Opening path (Refused c' cls desc) \<longrightarrow> world Q (q_trace q) w = w)
    \<and> (e = Adding path (at_target a) (Refused c' cls desc)
        \<longrightarrow> last (sent (q_trace q)) = (''blockdev-del'', blockdev_del (at_target a))
          \<and> (accepting (last (butlast (q_trace q))) \<longrightarrow> world Q (q_trace q) w = w))"
proof -
  let ?id = "hotplugDiskID (at_target a)"
  obtain p where run: "session dial (at_qmp a) (attach_body a p) = (Some q, Inl e)"
    using attach_session_of [OF assms(3)] by blast
  obtain g "is" ret q0 q1 where h: "extends c q0 (Got (Recv g) # exchange ''qmp_capabilities'' None is)" "answered is ret"
    and b: "attach_body a p q0 = (q1, Inl e)" "q = close q1"
    by (rule session_answered [OF run assms(4,5), of "\<lambda>r. r = Inl e"]) (use assms(8) in auto)
  have p: "path = p" using b(1) assms(8) by (auto simp: attach_body_def split: prod.splits sum.splits)
  have last: "butlast (q_trace q) = q_trace q1" using b(2) by (simp add: close_def)
  have undoes: "last (sent (q_trace q)) = (''blockdev-del'', blockdev_del (at_target a))"
    if "e = Adding path (at_target a) (Refused c' cls desc)"
  proof -
    have "q_writes q0 = None" using h(1) assms(6) by (simp add: extends_def)
    moreover have "attach_body a p q0 = (q1, Inl (Adding p (at_target a) (Refused c' cls desc)))" using b(1) that p by simp
    ultimately obtain u is3 where "extends q0 q1 (u @ exchange ''blockdev-del'' (blockdev_del (at_target a)) is3)"
      using attach_body_adding by blast
    from fresh_trace [OF extends_trans [OF h(1) this] assms(5)] show ?thesis using b(2) by (simp add: exchange_def)
  qed
  have dev: "\<not> qw_device Q ?id w" using assms(2) by (simp add: vacant_def)
  note laws = vacant_laws [OF assms(1,2)]
  note stays = after_gone(1) [OF assms(1) dev] after_gone(1) [OF assms(1) laws(3)]
  have e: "e = Opening p (Refused c' cls desc) \<or> e = Adding p (at_target a) (Refused c' cls desc)" using assms(8) p by simp
  have world: "world Q (q_trace q) w = w" if acc: "e = Opening p (Refused c' cls desc) \<or> accepting (last (q_trace q1))"
    using b(1) e acc
  proof (cases rule: attach_body_refused)
    case (unopened is1)
    have tr: "q_trace q = (Got (Recv g) # exchange ''qmp_capabilities'' None is) @ exchange ''blockdev-add'' (blockdev_add a p) is1 @ [Closed]"
      using fresh_trace [OF extends_trans [OF h(1) unopened(1)] assms(5)] b(2) by simp
    have og: "only_goes ?id (Got (Recv g) # exchange ''qmp_capabilities'' None is)" "only_goes ?id (map Got is1)"
      using assms(7) unfolding tr only_goes_append by simp_all
    show ?thesis
      unfolding world_def tr fold_append comp_apply heard_handshake [OF assms(1) h(2) og(1)] heard_refused [OF assms(1) unopened(2) og(2)] stays
      by simp
  next
    case (undone is1 ret1 is2 is3 ret3)
    have tr: "q_trace q = (Got (Recv g) # exchange ''qmp_capabilities'' None is) @ exchange ''blockdev-add'' (blockdev_add a p) is1
        @ exchange ''device_add'' (device_add a) is2 @ exchange ''blockdev-del'' (blockdev_del (at_target a)) is3 @ [Closed]"
      using fresh_trace [OF extends_trans [OF h(1) undone(1)] assms(5)] b(2) by simp
    have og: "only_goes ?id (Got (Recv g) # exchange ''qmp_capabilities'' None is)" "only_goes ?id (map Got is1)"
      "only_goes ?id (map Got is2)" "only_goes ?id (map Got is3)"
      using assms(7) unfolding tr only_goes_append by simp_all
    show ?thesis
      unfolding world_def tr fold_append comp_apply heard_handshake [OF assms(1) h(2) og(1)] stays
        heard_answered [OF assms(1) undone(2) og(2)] with_node_def [symmetric] heard_refused [OF assms(1) undone(3) og(3)] stays
        heard_answered [OF assms(1) undone(4) og(4)] laws(2)
      by simp
  qed
  show ?thesis using undoes world p last by auto
qed

text \<open>A QEMU for the witnesses: its nodes and its devices, by name.\<close>

definition named :: "qargs \<Rightarrow> string \<Rightarrow> string option" where
  "named a k = (case a of None \<Rightarrow> None | Some kvs \<Rightarrow> (case map_of kvs k of Some (JStr s) \<Rightarrow> Some s | _ \<Rightarrow> None))"

definition changed :: "(string \<rightharpoonup> qargs) \<Rightarrow> string option \<Rightarrow> qargs option \<Rightarrow> (string \<rightharpoonup> qargs)" where
  "changed f n v = (case n of None \<Rightarrow> f | Some n \<Rightarrow> f(n := v))"

definition sample_qemu :: "((string \<rightharpoonup> qargs) \<times> (string \<rightharpoonup> qargs)) qemu" where
  "sample_qemu = \<lparr>qw_apply = (\<lambda>c a (nodes, devs).
       if c = ''blockdev-add'' then (changed nodes (named a ''node-name'') (Some a), devs)
       else if c = ''blockdev-del'' then (changed nodes (named a ''node-name'') None, devs)
       else if c = ''device_add'' then (nodes, changed devs (named a ''id'') (Some a)) else (nodes, devs)),
     qw_gone = (\<lambda>i (nodes, devs). (nodes, devs(i := None))),
     qw_node = (\<lambda>n (nodes, devs). nodes n \<noteq> None), qw_device = (\<lambda>i (nodes, devs). devs i \<noteq> None)\<rparr>"

lemma sample_qemu_laws: "qemu_laws sample_qemu" "vacant sample_qemu t (Map.empty, Map.empty)"
  by (auto simp: qemu_laws_def sample_qemu_def named_def changed_def vacant_def fun_upd_idem)

definition sample_attach :: attachFlags where
  "sample_attach = attachFlags_register\<lparr>at_qmp := ''/q'', at_disk := ''/d'', at_target := 3\<rparr>"

definition going :: "qevent list \<Rightarrow> string list" where
  "going t = deleted_ids (received t)"

lemma only_goes_going: "set (going t) \<subseteq> {i} \<Longrightarrow> only_goes i t"
proof -
  have "list_ex (deletion d) t \<longleftrightarrow> d \<in> set (going t)" for d
    unfolding going_def by (induction t rule: received.induct) (auto simp: deletion_def split: inbound.splits)
  then show "set (going t) \<subseteq> {i} \<Longrightarrow> only_goes i t" by (auto simp: only_goes_def)
qed

theorem detach_undoes_attach_witness:
  "\<exists>q q' path. attach sample_tree (\<lambda>_. Inr (script (replicate 4 (returns (JObj []))))) sample_attach = (Some q, Inr ())
     \<and> detach (\<lambda>_. Inr detach_script) sample_detach = (Some q', Inr ())
     \<and> world sample_qemu (q_trace q) (Map.empty, Map.empty) = with_disk sample_qemu sample_attach path (Map.empty, Map.empty)
     \<and> world sample_qemu (q_trace q @ q_trace q') (Map.empty, Map.empty) = (Map.empty, Map.empty)"
proof -
  let ?c = "script (replicate 4 (returns (JObj [])))"
  let ?a = "attach sample_tree (\<lambda>_. Inr ?c) sample_attach" and ?d = "detach (\<lambda>_. Inr detach_script) sample_detach"
  have "fst ?a \<noteq> None" "snd ?a = Inr ()" "fst ?d \<noteq> None" "snd ?d = Inr ()"
    "set (going (q_trace (the (fst ?a)))) \<subseteq> {hotplugDiskID (at_target sample_attach)}"
    "set (going (q_trace (the (fst ?d)))) \<subseteq> {hotplugDiskID (at_target sample_attach)}" by code_simp+
  then obtain q q' where q: "?a = (Some q, Inr ())" "?d = (Some q', Inr ())"
    and og: "only_goes (hotplugDiskID (at_target sample_attach)) (q_trace q @ q_trace q')"
    unfolding only_goes_append by (metis only_goes_going option.exhaust option.sel prod.collapse)
  have t: "dt_target sample_detach = at_target sample_attach" by (simp add: sample_detach_def sample_attach_def)
  have f: "fresh ?c" "fresh detach_script" by (simp_all add: fresh_script detach_script_def)
  show ?thesis
    using detach_undoes_attach [OF sample_qemu_laws t q(1) refl f(1) q(2) refl f(2) og] q by blast
qed

definition refusing_script :: qmpConn where
  "refusing_script = script [returns (JObj []), returns (JObj []), returns (JObj []), refuses, returns (JObj [])]"

theorem refused_attach_leaves_nothing_witness:
  "\<exists>q. attach sample_tree (\<lambda>_. Inr refusing_script) sample_attach
      = (Some q, Inl (Adding ''/d'' 3 (Refused ''device_add'' ''GenericError'' ''no'')))
     \<and> last (sent (q_trace q)) = (''blockdev-del'', blockdev_del 3)
     \<and> world sample_qemu (q_trace q) (Map.empty, Map.empty) = (Map.empty, Map.empty)"
proof -
  let ?a = "attach sample_tree (\<lambda>_. Inr refusing_script) sample_attach"
  let ?e = "Adding ''/d'' (at_target sample_attach) (Refused ''device_add'' ''GenericError'' ''no'')"
  have t: "at_target sample_attach = 3" by (simp add: sample_attach_def)
  have "fst ?a \<noteq> None" "snd ?a = Inl ?e" "accepting (last (butlast (q_trace (the (fst ?a)))))"
    "set (going (q_trace (the (fst ?a)))) \<subseteq> {hotplugDiskID (at_target sample_attach)}" by code_simp+
  then obtain q where q: "?a = (Some q, Inl ?e)" "accepting (last (butlast (q_trace q)))"
    and og: "only_goes (hotplugDiskID (at_target sample_attach)) (q_trace q)"
    by (metis only_goes_going option.exhaust option.sel prod.collapse)
  have f: "fresh refusing_script" "q_writes refusing_script = None" by (simp_all add: fresh_def refusing_script_def script_def)
  note none = refused_attach_leaves_nothing [OF sample_qemu_laws q(1) refl f og disjI2 [OF refl], THEN conjunct2, THEN mp, OF refl]
  show ?thesis using none q t by metis
qed

end
