(* ===== verification/Qmp_Obliging.thy ===== *)
theory Qmp_Obliging
  imports Qmp_Order
begin

text \<open>
  The commands succeed when QEMU obliges. The other theories of the QMP client say what a success
  means; this one says when there is one: QEMU greets, answers every command, sends any events in
  between, reports the disk gone, and a migration or a plugged size gets there while the clock, with the
  sleeps between the polls, is within the time allowed. Then each command returns without an error, and has read exactly what QEMU sent it.
\<close>

subsection \<open>A stream of answers\<close>

text \<open>An answer is the events that come before a reply, and the reply.\<close>

type_synonym answer = "inbound list \<times> qmpMessage"

definition answers :: "answer list \<Rightarrow> inbound list" where
  "answers as = concat (map (\<lambda>(es, m). es @ [Recv m]) as)"

definition obliging :: "answer \<Rightarrow> bool" where
  "obliging a = (list_all is_event (fst a) \<and> qm_Event (snd a) = [] \<and> qm_Error (snd a) = None)"

definition answer_value :: "answer \<Rightarrow> json option" where
  "answer_value a = qm_Return (snd a)"

lemma answers_simps [simp]: "answers [] = []" "answers (a # as) = fst a @ Recv (snd a) # answers as"
  "answers (as @ bs) = answers as @ answers bs"
  by (simp_all add: answers_def split: prod.splits)

text \<open>A connection that takes writes, with this left to read, and the clock and the deadlines of another.\<close>

definition left :: "qmpConn \<Rightarrow> qmpConn \<Rightarrow> inbound list \<Rightarrow> bool" where
  "left q q' is = (q_in q' = is \<and> q_writes q' = None \<and> q_deadlines q' = q_deadlines q \<and> q_clock q' = q_clock q
     \<and> q_slept q' = q_slept q)"

lemma run_obliged:
  assumes "left c q (fst a @ Recv (snd a) # rest)" and "obliging a"
  obtains q' where "qmp_run cmd args q = (q', Inr (answer_value a))" "left c q' rest" "q_deleted q' = q_deleted q @ deleted_ids (fst a)"
  using run_stream [of q "fst a" "snd a" rest cmd args] assms that by (simp add: left_def obliging_def answer_value_def)

lemma run_into_obliged:
  assumes "left c q (fst a @ Recv (snd a) # rest)" and "obliging a" and "decode (answer_value a) = Some v"
  obtains q' where "run_into decode cmd args q = (q', Inr v)" "left c q' rest"
proof -
  obtain q' where "qmp_run cmd args q = (q', Inr (answer_value a))" "left c q' rest" by (rule run_obliged [OF assms(1,2)])
  then show ?thesis using that [of q'] assms(3) by (simp add: run_into_def)
qed

text \<open>A monitor that greets and accepts the handshake.\<close>

definition greets :: "qmpConn \<Rightarrow> inbound list \<Rightarrow> bool" where
  "greets c is = (fresh c \<and> q_writes c = None \<and> q_deadlines c = None \<and> (\<exists>g a. obliging a \<and> q_in c = Recv g # answers [a] @ is))"

lemma session_obliged:
  assumes "dial socket = Inr c" and "greets c is" and "\<And>q0. left c q0 is \<Longrightarrow> \<exists>q1 v. body q0 = (q1, Inr (res v)) \<and> q_in q1 = rest"
  shows "\<exists>q v. session dial socket body = (Some q, Inr (res v)) \<and> q_in q = rest"
proof -
  obtain g a where a: "obliging a" "q_in c = Recv g # fst a @ Recv (snd a) # is" and c: "q_writes c = None" "q_deadlines c = None"
    using assms(2) by (auto simp: greets_def)
  obtain q1 where rc: "recv c = (q1, Inr g)" "left c q1 (fst a @ Recv (snd a) # is)" using a(2) c by (simp add: recv_def left_def)
  obtain q2 where run: "qmp_run ''qmp_capabilities'' None q1 = (q2, Inr (answer_value a))" "left c q2 is"
    by (rule run_obliged [OF rc(2) a(1)])
  have "newQMP c = (q2, Inr ())" using rc(1) run c(2) by (simp add: newQMP_def handshake_def left_def)
  moreover obtain q3 v where "body q2 = (q3, Inr (res v))" "q_in q3 = rest" using assms(3) [OF run(2)] by blast
  ultimately have "session dial socket body = (Some (close q3), Inr (res v)) \<and> q_in (close q3) = rest" using assms(1) by (simp add: session_def close_def)
  then show ?thesis by blast
qed

subsection \<open>Polls\<close>

definition tells_status :: "answer \<Rightarrow> string \<Rightarrow> bool" where
  "tells_status a s = (obliging a \<and> (\<exists>d. decode_migration (answer_value a) = Some (s, d)))"

definition still_going :: "answer \<Rightarrow> bool" where
  "still_going a = (\<exists>s. tells_status a s \<and> \<not> final_status s)"

lemma migration_obliged:
  assumes "list_all still_going ps" and "tells_status f ''completed''" and "q_in q = answers (ps @ [f]) @ rest" and "q_writes q = None"
    and "time_for q migrationSleep (length ps) deadline"
  shows "\<exists>q'. migration_loop deadline q = (q', Inr ()) \<and> q_in q' = rest \<and> q_writes q' = None"
  using assms
proof (induction ps arbitrary: q)
  case Nil
  obtain d where f: "obliging f" "decode_migration (answer_value f) = Some (''completed'', d)" using Nil(2) by (auto simp: tells_status_def)
  have "left q q (fst f @ Recv (snd f) # rest)" using Nil by (simp add: left_def)
  from run_into_obliged [where decode = decode_migration and cmd = "''query-migrate''" and args = None, OF this f]
  obtain q' where "run_into decode_migration ''query-migrate'' None q = (q', Inr (''completed'', d))" "left q q' rest" .
  then show ?case by (simp add: migration_loop.simps [of deadline q] left_def)
next
  case (Cons p ps)
  obtain s d where p: "obliging p" "decode_migration (answer_value p) = Some (s, d)" "\<not> final_status s"
    using Cons.prems(1) by (auto simp: still_going_def tells_status_def)
  have "left q q (fst p @ Recv (snd p) # answers (ps @ [f]) @ rest)" using Cons.prems(3,4) by (simp add: left_def)
  from run_into_obliged [where decode = decode_migration and cmd = "''query-migrate''" and args = None, OF this p(1,2)]
  obtain q1 where run: "run_into decode_migration ''query-migrate'' None q = (q1, Inr (s, d))" "left q q1 (answers (ps @ [f]) @ rest)" .
  obtain q2 t where now: "now q1 = (q2, t)" by force
  have "time_for q1 migrationSleep (Suc (length ps)) deadline" using Cons.prems(5) run(2) by (simp add: time_for_def left_def)
  note poll = time_for_poll [OF this now sleeps_pos(1)]
  have "migration_loop deadline q = migration_loop deadline (sleep migrationSleep q2)"
    using run(1) now poll(1) p(3) by (simp add: migration_loop.simps [of deadline q] final_status_def)
  then show ?case using Cons.IH [of "sleep migrationSleep q2"] Cons.prems(1,2) poll run(2) by (simp add: left_def)
qed

text \<open>The clock, with \<open>n\<close> polls before the last one and a sleep after each, stays within a time of its first
  reading.\<close>

definition in_time :: "qmpConn \<Rightarrow> int \<Rightarrow> nat \<Rightarrow> int \<Rightarrow> bool" where
  "in_time c gap n timeout = (q_clock c \<noteq> []
     \<and> (\<forall>t \<in> set (q_clock c). t + gap * (int n - 1) \<le> hd (q_clock c) + timeout))"

lemma in_time_now:
  assumes "left c q is" and "in_time c gap n timeout"
  obtains q' t where "now q = (q', t)" "time_for q' gap n (t + timeout)" "left q' q' is"
proof -
  obtain q' t where now: "now q = (q', t)" by force
  have t: "t = hd (q_clock c) + q_slept c" using assms now by (auto simp: in_time_def left_def now_def split: list.splits)
  have "time_for q gap n (t + timeout)"
    unfolding time_for_def t using assms by (auto simp: in_time_def left_def algebra_simps)
  note q' = time_for_now [OF this now]
  show ?thesis using that [OF now q'(1)] q'(2,3) assms(1) by (simp add: left_def)
qed

lemma waitMigration_obliged:
  assumes "list_all still_going ps" and "tells_status f ''completed''" and "left c q (answers (ps @ [f]) @ rest)"
    and "in_time c migrationSleep (length ps) timeout"
  shows "\<exists>q'. waitMigration timeout q = (q', Inr ()) \<and> q_in q' = rest \<and> q_writes q' = None"
proof -
  obtain q1 t where now: "now q = (q1, t)" "time_for q1 migrationSleep (length ps) (t + timeout)" "left q1 q1 (answers (ps @ [f]) @ rest)"
    by (rule in_time_now [OF assms(3,4)])
  have "\<exists>q'. migration_loop (t + timeout) q1 = (q', Inr ()) \<and> q_in q' = rest \<and> q_writes q' = None"
    by (rule migration_obliged [OF assms(1,2)]) (use now in \<open>simp_all add: left_def\<close>)
  then show ?thesis using now(1) by (simp add: waitMigration_def)
qed

definition tells_size :: "answer \<Rightarrow> 64 word \<Rightarrow> bool" where
  "tells_size a w = (obliging a \<and> decode_uint64 (answer_value a) = Some w)"

lemma memory_loop_obliged:
  assumes "list_all (\<lambda>p. \<exists>w. tells_size p w \<and> w \<noteq> want) ps" and "tells_size f want" and "q_in q = answers (ps @ [f]) @ rest" and "q_writes q = None"
    and "time_for q memorySleep (length ps) deadline"
  shows "\<exists>q' ms. memory_loop sizeMB want start deadline q = (q', Inr (Plugged (inMiB want) ms)) \<and> q_in q' = rest"
  using assms
proof (induction ps arbitrary: q)
  case Nil
  have f: "obliging f" "decode_uint64 (answer_value f) = Some want" using Nil(2) by (auto simp: tells_size_def)
  have "left q q (fst f @ Recv (snd f) # rest)" using Nil by (simp add: left_def)
  from run_into_obliged [where decode = decode_uint64 and cmd = "''qom-get''" and args = sizeQuery, OF this f]
  obtain q' where run: "run_into decode_uint64 ''qom-get'' sizeQuery q = (q', Inr want)" "left q q' rest" .
  obtain q2 t where "now q' = (q2, t)" "q_in q2 = q_in q'" by (cases "now q'") (auto simp: now_def split: list.splits)
  then show ?case using run by (simp add: memory_loop.simps [of sizeMB want start deadline q] sizeQuery_def left_def)
next
  case (Cons p ps)
  obtain w where p: "obliging p" "decode_uint64 (answer_value p) = Some w" "w \<noteq> want"
    using Cons.prems(1) by (auto simp: tells_size_def)
  have "left q q (fst p @ Recv (snd p) # answers (ps @ [f]) @ rest)" using Cons.prems(3,4) by (simp add: left_def)
  from run_into_obliged [where decode = decode_uint64 and cmd = "''qom-get''" and args = sizeQuery, OF this p(1,2)]
  obtain q1 where run: "run_into decode_uint64 ''qom-get'' sizeQuery q = (q1, Inr w)" "left q q1 (answers (ps @ [f]) @ rest)" .
  obtain q2 t where now: "now q1 = (q2, t)" by force
  have "time_for q1 memorySleep (Suc (length ps)) deadline" using Cons.prems(5) run(2) by (simp add: time_for_def left_def)
  note q2 = time_for_now [OF this now]
  obtain q3 t' where now': "now q2 = (q3, t')" by force
  note poll = time_for_poll [OF q2(1) now' sleeps_pos(2)]
  have "memory_loop sizeMB want start deadline q = memory_loop sizeMB want start deadline (sleep memorySleep q3)"
    using run(1) now now' poll(1) p(3) by (simp add: memory_loop.simps [of sizeMB want start deadline q] sizeQuery_def)
  then show ?case using Cons.IH [of "sleep memorySleep q3"] Cons.prems(1,2) poll q2 run(2) by (simp add: left_def)
qed

subsection \<open>The bodies of the commands\<close>

lemma attach_obliged:
  assumes "left c q (answers [x1, x2] @ rest)" and "obliging x1" and "obliging x2"
  shows "\<exists>q'. attach_body a path q = (q', Inr ()) \<and> q_in q' = rest"
proof -
  have l: "left c q (fst x1 @ Recv (snd x1) # fst x2 @ Recv (snd x2) # rest)" using assms(1) by simp
  obtain q1 where q1: "qmp_run ''blockdev-add'' (blockdev_add a path) q = (q1, Inr (answer_value x1))" "left c q1 (fst x2 @ Recv (snd x2) # rest)"
    by (rule run_obliged [OF l assms(2)])
  obtain q2 where "qmp_run ''device_add'' (device_add a) q1 = (q2, Inr (answer_value x2))" "left c q2 rest"
    by (rule run_obliged [OF q1(2) assms(3)])
  then show ?thesis using q1(1) by (simp add: attach_body_def left_def)
qed

lemma wait_gone_stream:
  assumes "q_in q = es @ rest" and "list_all is_event es" and "list_ex (deletion d) (map Got es)"
  shows "\<exists>es' q'. wait_gone d q = (q', Inr ()) \<and> list_all is_event es' \<and> q_in q' = es' @ rest \<and> q_writes q' = q_writes q"
  using assms
proof (induction es arbitrary: q)
  case Nil
  then show ?case by simp
next
  case (Cons i es)
  then obtain m where i: "i = Recv m" by (auto simp: is_event_def split: inbound.splits)
  let ?q = "q\<lparr>q_in := es @ rest, q_trace := q_trace q @ [Got i]\<rparr>"
  have rc: "recv q = (?q, Inr m)" using Cons.prems(1) i by (simp add: recv_def)
  show ?case
  proof (cases "deletion d (Got i)")
    case True
    then have "wait_gone d q = (?q, Inr ())" using rc i by (simp add: wait_gone.simps [of d q] deletion_def)
    then show ?thesis using Cons.prems(2) by auto
  next
    case False
    then have "wait_gone d q = wait_gone d ?q" using rc i by (auto simp: wait_gone.simps [of d q] deletion_def)
    moreover have "list_ex (deletion d) (map Got es)" using Cons.prems(3) False by simp
    ultimately show ?thesis using Cons.IH [of ?q] Cons.prems(2) by simp
  qed
qed

lemma detach_obliged:
  assumes "left c q (answers [x1, x2] @ rest)" and "q_deadlines c = None" and "obliging x1" and "obliging x2"
    and "list_ex (deletion (hotplugDiskID target)) (map Got (fst x1 @ fst x2))"
  shows "\<exists>q'. detach_body target q = (q', Inr ()) \<and> q_in q' = rest"
proof -
  let ?id = "hotplugDiskID target"
  have l: "left c q (fst x1 @ Recv (snd x1) # fst x2 @ Recv (snd x2) # rest)" using assms(1) by simp
  obtain q1 where q1: "qmp_run ''device_del'' (Some [(''id'', JStr ?id)]) q = (q1, Inr (answer_value x1))" "left c q1 (fst x2 @ Recv (snd x2) # rest)"
    "q_deleted q1 = q_deleted q @ deleted_ids (fst x1)"
    by (rule run_obliged [OF l assms(3)])
  obtain es q2 where wait: "waitDeleted ?id q1 = (q2, Inr ())" and es: "list_all is_event es" "q_in q2 = es @ Recv (snd x2) # rest" "q_writes q2 = None"
  proof (cases "?id \<in> set (q_deleted q1)")
    case True
    then show ?thesis using that [of q1 "fst x2"] q1(2) assms(4) by (simp add: waitDeleted_def left_def obliging_def)
  next
    case False
    then have "list_ex (deletion ?id) (map Got (fst x2))" using assms(5) q1(3) deleted_ids_iff [of ?id "fst x1"] by auto
    then obtain es q' where w: "wait_gone ?id q1 = (q', Inr ())" "list_all is_event es" "q_in q' = es @ Recv (snd x2) # rest" "q_writes q' = None"
      using wait_gone_stream [of q1 "fst x2" "Recv (snd x2) # rest" ?id] q1(2) assms(4) by (auto simp: left_def obliging_def)
    have d: "set_deadline q1 = Some q1" using q1(2) assms(2) by (simp add: left_def)
    show ?thesis
    proof (cases "set_deadline q'")
      case None
      then have "waitDeleted ?id q1 = (q', Inr ())" using False d w(1) by (simp add: waitDeleted_def)
      then show ?thesis using that w(2-4) by blast
    next
      case (Some q2)
      then have "waitDeleted ?id q1 = (q2, Inr ())" using False d w(1) by (simp add: waitDeleted_def)
      then show ?thesis using that w(2-4) set_deadline_fields(1,2) [OF Some] by metis
    qed
  qed
  have "left q2 q2 (fst (es, snd x2) @ Recv (snd (es, snd x2)) # rest)" "obliging (es, snd x2)"
    using es assms(4) by (simp_all add: left_def obliging_def)
  then obtain q3 where "qmp_run ''blockdev-del'' (blockdev_del target) q2 = (q3, Inr (answer_value (es, snd x2)))" "left q2 q3 rest"
    by (rule run_obliged)
  then show ?thesis using q1(1) wait by (simp add: detach_body_def left_def)
qed

lemma save_obliged:
  assumes "left c q (answers ([x1] @ ps @ [f, x2]) @ rest)" and "in_time c migrationSleep (length ps) timeout" and "obliging x1" and "obliging x2"
    and "list_all still_going ps" and "tells_status f ''completed''"
  shows "\<exists>q'. save_body timeout to q = (q', Inr ()) \<and> q_in q' = rest"
proof -
  let ?args = "Some [(''uri'', JStr (''file:'' @ to))]"
  have l: "left c q (fst x1 @ Recv (snd x1) # answers (ps @ [f]) @ fst x2 @ Recv (snd x2) # rest)" using assms(1) by simp
  obtain q1 where q1: "qmp_run ''migrate'' ?args q = (q1, Inr (answer_value x1))" "left c q1 (answers (ps @ [f]) @ fst x2 @ Recv (snd x2) # rest)"
    by (rule run_obliged [OF l assms(3)])
  obtain q2 where q2: "waitMigration timeout q1 = (q2, Inr ())" "q_in q2 = fst x2 @ Recv (snd x2) # rest" "q_writes q2 = None"
    using waitMigration_obliged [OF assms(5,6) q1(2) assms(2)] by blast
  then have "left q2 q2 (fst x2 @ Recv (snd x2) # rest)" by (simp add: left_def)
  then obtain q3 where "qmp_run ''quit'' None q2 = (q3, Inr (answer_value x2))" "left q2 q3 rest"
    using run_obliged assms(4) by metis
  then show ?thesis unfolding save_body_def q1(1) prod.case sum.case q2(1) by (simp add: left_def)
qed

lemma restore_obliged:
  assumes "left c q (answers ([x1] @ ps @ [f, x2] @ xs) @ rest)" and "in_time c migrationSleep (length ps) timeout" and "obliging x1" and "obliging x2"
    and "list_all still_going ps" and "tells_status f ''completed''" and "decode_status (answer_value x2) = Some s"
    and "if s = ''running'' then xs = [] else \<exists>x. xs = [x] \<and> obliging x"
  shows "\<exists>q'. restore_body timeout from q = (q', Inr ()) \<and> q_in q' = rest"
proof -
  let ?args = "Some [(''uri'', JStr (''file:'' @ from))]"
  have l: "left c q (fst x1 @ Recv (snd x1) # answers (ps @ [f]) @ fst x2 @ Recv (snd x2) # answers xs @ rest)" using assms(1) by simp
  obtain q1 where q1: "qmp_run ''migrate-incoming'' ?args q = (q1, Inr (answer_value x1))"
    "left c q1 (answers (ps @ [f]) @ fst x2 @ Recv (snd x2) # answers xs @ rest)"
    by (rule run_obliged [OF l assms(3)])
  obtain q2 where q2: "waitMigration timeout q1 = (q2, Inr ())" "q_in q2 = fst x2 @ Recv (snd x2) # answers xs @ rest" "q_writes q2 = None"
    using waitMigration_obliged [OF assms(5,6) q1(2) assms(2)] by blast
  then have "left q2 q2 (fst x2 @ Recv (snd x2) # answers xs @ rest)" by (simp add: left_def)
  from run_into_obliged [where decode = decode_status and cmd = "''query-status''" and args = None, OF this assms(4,7)]
  obtain q3 where q3: "run_into decode_status ''query-status'' None q2 = (q3, Inr s)" "left q2 q3 (answers xs @ rest)" .
  have "\<exists>q'. resume q2 = (q', Inr ()) \<and> q_in q' = rest"
  proof (cases "s = ''running''")
    case True
    then show ?thesis using q3 assms(8) by (simp add: resume_def left_def)
  next
    case False
    then obtain x where x: "xs = [x]" "obliging x" using assms(8) by auto
    then have "left q2 q3 (fst x @ Recv (snd x) # rest)" using q3(2) by simp
    then obtain q4 where "qmp_run ''cont'' None q3 = (q4, Inr (answer_value x))" "left q2 q4 rest"
      using run_obliged x(2) by metis
    then show ?thesis using q3(1) False by (simp add: resume_def left_def)
  qed
  then show ?thesis unfolding restore_body_resume q1(1) prod.case sum.case q2(1) .
qed

lemma memory_obliged:
  assumes "left c q (answers ([x1] @ ps @ [f]) @ rest)" and "in_time c memorySleep (length ps) (mem_timeout o')" and "obliging x1"
    and "list_all (\<lambda>p. \<exists>w. tells_size p w \<and> w \<noteq> wantBytes (mem_sizeMB o')) ps" and "tells_size f (wantBytes (mem_sizeMB o'))"
  shows "\<exists>q' ms. memory_body o' q = (q', Inr (Plugged (inMiB (wantBytes (mem_sizeMB o'))) ms)) \<and> q_in q' = rest"
proof -
  have l: "left c q (fst x1 @ Recv (snd x1) # answers (ps @ [f]) @ rest)" using assms(1) by simp
  obtain q0 t where now: "now q = (q0, t)" "time_for q0 memorySleep (length ps) (t + mem_timeout o')"
      "left q0 q0 (fst x1 @ Recv (snd x1) # answers (ps @ [f]) @ rest)"
    by (rule in_time_now [OF l assms(2)])
  obtain q1 where q1: "qmp_run ''qom-set'' (sizeRequest (mem_sizeMB o')) q0 = (q1, Inr (answer_value x1))" "left q0 q1 (answers (ps @ [f]) @ rest)"
    by (rule run_obliged [OF now(3) assms(3)])
  have "\<exists>q' ms. memory_loop (mem_sizeMB o') (wantBytes (mem_sizeMB o')) t (t + mem_timeout o') q1
      = (q', Inr (Plugged (inMiB (wantBytes (mem_sizeMB o'))) ms)) \<and> q_in q' = rest"
    by (rule memory_loop_obliged [OF assms(4,5)]) (use now q1 in \<open>auto simp: left_def time_for_def\<close>)
  then show ?thesis using now(1) q1(1) by (simp add: memory_body_def sizeRequest_def)
qed

subsection \<open>Properties\<close>

text \<open>C16: The commands succeed when QEMU obliges. On a monitor that greets, accepts each command and sends
  any events before each answer: \<^verbatim>\<open>attach\<close> succeeds; \<^verbatim>\<open>detach\<close> succeeds if one of the events after
  \<^verbatim>\<open>device_del\<close> is the disk's deletion, whether it comes before the reply or after; \<^verbatim>\<open>save\<close> and \<^verbatim>\<open>restore\<close>
  succeed if the migration, after any number of polls, completes while the clock, with the sleeps between the polls, is within the timeout, a restored
  machine that is not running being continued; \<^verbatim>\<open>memory\<close> succeeds, and says the size, if the guest gets there
  in time. Each has then read exactly these messages.\<close>

theorem commands_succeed_when_qemu_obliges:
  assumes "dial sock = Inr c" and "sock \<noteq> []" and "obliging x1" and "obliging x2"
  shows "(at_qmp a = sock \<and> at_disk a \<noteq> [] \<and> checkTarget (at_target a) = None \<and> Abs os (at_disk a) = Inr path
        \<and> greets c (answers [x1, x2] @ rest)
      \<longrightarrow> (\<exists>q. attach os dial a = (Some q, Inr ()) \<and> q_in q = rest))
    \<and> (dt_qmp d = sock \<and> checkTarget (dt_target d) = None
        \<and> list_ex (deletion (hotplugDiskID (dt_target d))) (map Got (fst x1 @ fst x2)) \<and> greets c (answers [x1, x2] @ rest)
      \<longrightarrow> (\<exists>q. detach dial d = (Some q, Inr ()) \<and> q_in q = rest))
    \<and> (sv_qmp v = sock \<and> sv_to v \<noteq> [] \<and> Abs os (sv_to v) = Inr to \<and> in_time c migrationSleep (length ps) (sv_timeout v)
        \<and> list_all still_going ps \<and> tells_status f ''completed'' \<and> greets c (answers ([x1] @ ps @ [f, x2]) @ rest)
      \<longrightarrow> (\<exists>q. save os dial v = (Some q, Inr ()) \<and> q_in q = rest))
    \<and> (rs_qmp s = sock \<and> rs_from s \<noteq> [] \<and> Abs os (rs_from s) = Inr src \<and> in_time c migrationSleep (length ps) (rs_timeout s)
        \<and> list_all still_going ps \<and> tells_status f ''completed'' \<and> decode_status (answer_value x2) = Some st
        \<and> (if st = ''running'' then xs = [] else \<exists>x. xs = [x] \<and> obliging x) \<and> greets c (answers ([x1] @ ps @ [f, x2] @ xs) @ rest)
      \<longrightarrow> (\<exists>q. restore os dial s = (Some q, Inr ()) \<and> q_in q = rest))
    \<and> (mem_qmp m = sock \<and> 0 \<le> mem_sizeMB m \<and> mem_sizeMB m < 2 ^ 44 \<and> in_time c memorySleep (length ps) (mem_timeout m)
        \<and> list_all (\<lambda>p. \<exists>w. tells_size p w \<and> w \<noteq> wantBytes (mem_sizeMB m)) ps \<and> tells_size f (wantBytes (mem_sizeMB m))
        \<and> greets c (answers ([x1] @ ps @ [f]) @ rest)
      \<longrightarrow> (\<exists>q ms. memory_cmd dial m = (Some q, Inr (Plugged (mem_sizeMB m) ms)) \<and> q_in q = rest))"
proof (intro conjI impI; elim conjE)
  assume "at_qmp a = sock" "at_disk a \<noteq> []" "checkTarget (at_target a) = None" "Abs os (at_disk a) = Inr path"
    and g: "greets c (answers [x1, x2] @ rest)"
  then show "\<exists>q. attach os dial a = (Some q, Inr ()) \<and> q_in q = rest"
    using session_obliged [where body = "attach_body a path" and res = "\<lambda>_ :: unit. ()" and dial = dial and socket = sock, OF assms(1) g] attach_obliged [OF _ assms(3,4)] assms(2) by (simp add: attach_def)
next
  assume "dt_qmp d = sock" "checkTarget (dt_target d) = None" and del: "list_ex (deletion (hotplugDiskID (dt_target d))) (map Got (fst x1 @ fst x2))"
    and g: "greets c (answers [x1, x2] @ rest)"
  moreover have "q_deadlines c = None" using g by (simp add: greets_def)
  ultimately show "\<exists>q. detach dial d = (Some q, Inr ()) \<and> q_in q = rest"
    using session_obliged [where body = "detach_body (dt_target d)" and res = "\<lambda>_ :: unit. ()" and dial = dial and socket = sock, OF assms(1) g] detach_obliged [OF _ _ assms(3,4) del] assms(2)
    by (simp add: detach_def)
next
  assume "sv_qmp v = sock" "sv_to v \<noteq> []" "Abs os (sv_to v) = Inr to" and t: "in_time c migrationSleep (length ps) (sv_timeout v)"
    and p: "list_all still_going ps" "tells_status f ''completed''" and g: "greets c (answers ([x1] @ ps @ [f, x2]) @ rest)"
  then show "\<exists>q. save os dial v = (Some q, Inr ()) \<and> q_in q = rest"
    using session_obliged [where body = "save_body (sv_timeout v) to" and res = "\<lambda>_ :: unit. ()" and dial = dial and socket = sock, OF assms(1) g] save_obliged [OF _ t assms(3,4) p] assms(2)
    by (simp add: save_def)
next
  assume "rs_qmp s = sock" "rs_from s \<noteq> []" "Abs os (rs_from s) = Inr src" and t: "in_time c migrationSleep (length ps) (rs_timeout s)"
    and p: "list_all still_going ps" "tells_status f ''completed''" and st: "decode_status (answer_value x2) = Some st"
      "if st = ''running'' then xs = [] else \<exists>x. xs = [x] \<and> obliging x"
    and g: "greets c (answers ([x1] @ ps @ [f, x2] @ xs) @ rest)"
  then show "\<exists>q. restore os dial s = (Some q, Inr ()) \<and> q_in q = rest"
    using session_obliged [where body = "restore_body (rs_timeout s) src" and res = "\<lambda>_ :: unit. ()" and dial = dial and socket = sock, OF assms(1) g] restore_obliged [OF _ t assms(3,4) p st] assms(2)
    by (simp add: restore_def)
next
  assume m: "mem_qmp m = sock" and sz: "0 \<le> mem_sizeMB m" "mem_sizeMB m < 2 ^ 44" and t: "in_time c memorySleep (length ps) (mem_timeout m)"
    and p: "list_all (\<lambda>p. \<exists>w. tells_size p w \<and> w \<noteq> wantBytes (mem_sizeMB m)) ps" "tells_size f (wantBytes (mem_sizeMB m))"
    and g: "greets c (answers ([x1] @ ps @ [f]) @ rest)"
  have "\<exists>q v. session dial sock (memory_body m) = (Some q, Inr (Plugged (mem_sizeMB m) v)) \<and> q_in q = rest"
    using session_obliged [where body = "memory_body m" and res = "Plugged (mem_sizeMB m)" and dial = dial and socket = sock, OF assms(1) g]
      memory_obliged [OF _ t assms(3) p] by (simp add: wantBytes_exact(3) [OF sz])
  then show "\<exists>q ms. memory_cmd dial m = (Some q, Inr (Plugged (mem_sizeMB m) ms)) \<and> q_in q = rest"
    using m sz(1) assms(2) by (simp add: memory_cmd_def)
qed

text \<open>A QEMU for the witness: every answer comes after an event.\<close>

definition ok :: "json \<Rightarrow> answer" where
  "ok j = ([reports ''RESET'' []], \<lparr>qm_Event = [], qm_Device = [], qm_Return = Some j, qm_Error = None\<rparr>)"

definition gone_then_ok :: answer where
  "gone_then_ok = ([reports ''DEVICE_DELETED'' ''hd3''], snd (ok (JObj [])))"

definition monitor :: "answer list \<Rightarrow> qmpConn" where
  "monitor as = script (Recv (snd (ok JNull)) # answers (ok (JObj []) # as))"

lemma obliging_ok: "obliging (ok j)" "obliging gone_then_ok"
  by (simp_all add: obliging_def ok_def gone_then_ok_def reports_def is_event_def)

lemma monitor_greets: "greets (monitor as) (answers as @ [])" "0 \<le> t \<Longrightarrow> in_time (monitor as) gap (Suc 0) t"
proof -
  have "fresh (monitor as)" "q_writes (monitor as) = None" "q_deadlines (monitor as) = None" by (simp_all add: monitor_def fresh_def script_def)
  moreover have "q_in (monitor as) = Recv (snd (ok JNull)) # answers [ok (JObj [])] @ answers as @ []" by (simp add: monitor_def script_def)
  ultimately show "greets (monitor as) (answers as @ [])" using obliging_ok(1) unfolding greets_def by blast
qed (simp add: monitor_def in_time_def script_def)

definition hot_disk :: attachFlags where
  "hot_disk = attachFlags_register\<lparr>at_qmp := ''/q'', at_disk := ''/d'', at_target := 3\<rparr>"

definition status_ok :: "string \<Rightarrow> answer" where
  "status_ok st = ok (JObj [(''status'', JStr st)])"

lemma status_ok_tells: "tells_status (status_ok ''completed'') ''completed''" "still_going (status_ok ''active'')"
proof -
  have "decode_migration (answer_value (status_ok st)) = Some (st, [])" for st
  proof -
    have "fold_name ''status'' = ''status''" by code_simp
    then show ?thesis by (simp add: decode_migration_def decode_fields_def status_ok_def answer_value_def ok_def)
  qed
  then show "tells_status (status_ok ''completed'') ''completed''" "still_going (status_ok ''active'')"
    using obliging_ok(1) by (auto simp: tells_status_def still_going_def status_ok_def final_status_def)
qed

theorem commands_succeed_when_qemu_obliges_witness:
  "(\<exists>q. attach sample_tree (\<lambda>_. Inr (monitor [ok (JObj []), ok (JObj [])])) hot_disk = (Some q, Inr ()) \<and> q_in q = [])
   \<and> (\<exists>q. detach (\<lambda>_. Inr (monitor [ok (JObj []), gone_then_ok])) sample_detach = (Some q, Inr ()) \<and> q_in q = [])
   \<and> (\<exists>q. save sample_tree (\<lambda>_. Inr (monitor [ok (JObj []), status_ok ''active'', status_ok ''completed'', ok (JObj [])])) sample_save
        = (Some q, Inr ()) \<and> q_in q = [])
   \<and> (\<exists>q. restore sample_tree (\<lambda>_. Inr (monitor [ok (JObj []), status_ok ''active'', status_ok ''completed'', status_ok ''paused'', ok (JObj [])]))
        sample_restore = (Some q, Inr ()) \<and> q_in q = [])
   \<and> (\<exists>q ms. memory_cmd (\<lambda>_. Inr (monitor [ok (JObj []), ok (JInt 0), ok (JInt (2 ^ 30))])) sample_memory
        = (Some q, Inr (Plugged 1024 ms)) \<and> q_in q = [])"
proof (intro conjI)
  note t = commands_succeed_when_qemu_obliges [where sock = "''/q''" and rest = "[]" and os = sample_tree]
  have ok1: "obliging (ok (JObj []))" by (rule obliging_ok(1))
  have ab: "Abs sample_tree ''/d'' = Inr ''/d''" "Abs sample_tree ''/state'' = Inr ''/state''" "checkTarget 3 = None" by code_simp+
  show "\<exists>q. attach sample_tree (\<lambda>_. Inr (monitor [ok (JObj []), ok (JObj [])])) hot_disk = (Some q, Inr ()) \<and> q_in q = []"
    by (rule t [where dial = "\<lambda>_. Inr (monitor [ok (JObj []), ok (JObj [])])"
          and path = "''/d''", OF refl _ ok1 ok1, THEN conjunct1, THEN mp])
      (use ab monitor_greets(1) in \<open>simp_all add: hot_disk_def del: answers_simps\<close>)
  have del: "list_ex (deletion (hotplugDiskID 3)) (map Got (fst (ok (JObj [])) @ fst gone_then_ok))" by code_simp
  show "\<exists>q. detach (\<lambda>_. Inr (monitor [ok (JObj []), gone_then_ok])) sample_detach = (Some q, Inr ()) \<and> q_in q = []"
    by (rule t [where dial = "\<lambda>_. Inr (monitor [ok (JObj []), gone_then_ok])", OF refl _ ok1 obliging_ok(2), THEN conjunct2, THEN conjunct1, THEN mp])
      (use ab(3) del monitor_greets(1) in \<open>simp_all add: sample_detach_def del: answers_simps\<close>)
  have ps: "list_all still_going [status_ok ''active'']" using status_ok_tells by simp
  show "\<exists>q. save sample_tree (\<lambda>_. Inr (monitor [ok (JObj []), status_ok ''active'', status_ok ''completed'', ok (JObj [])])) sample_save
        = (Some q, Inr ()) \<and> q_in q = []"
    by (rule t [where dial = "\<lambda>_. Inr (monitor [ok (JObj []), status_ok ''active'', status_ok ''completed'', ok (JObj [])])"
          and to = "''/state''" and ps = "[status_ok ''active'']" and f = "status_ok ''completed''", OF refl _ ok1 ok1, THEN conjunct2, THEN conjunct2, THEN conjunct1, THEN mp])
      (use ab(2) ps status_ok_tells(1) monitor_greets in \<open>simp_all add: sample_save_def del: answers_simps\<close>)
  have st: "decode_status (answer_value (status_ok ''paused'')) = Some ''paused''" by code_simp
  have o2: "obliging (status_ok ''paused'')" by (simp add: status_ok_def obliging_ok)
  show "\<exists>q. restore sample_tree (\<lambda>_. Inr (monitor [ok (JObj []), status_ok ''active'', status_ok ''completed'', status_ok ''paused'', ok (JObj [])]))
        sample_restore = (Some q, Inr ()) \<and> q_in q = []"
    by (rule t [where dial = "\<lambda>_. Inr (monitor [ok (JObj []), status_ok ''active'', status_ok ''completed'', status_ok ''paused'', ok (JObj [])])"
          and src = "''/state''" and ps = "[status_ok ''active'']" and f = "status_ok ''completed''" and xs = "[ok (JObj [])]" and st = "''paused''",
          OF refl _ ok1 o2, THEN conjunct2, THEN conjunct2, THEN conjunct2, THEN conjunct1, THEN mp])
      (use ab(2) ps status_ok_tells(1) st obliging_ok(1) monitor_greets in \<open>simp_all add: sample_restore_def del: answers_simps\<close>)
  have w: "wantBytes 1024 = 2 ^ 30" by (simp add: wantBytes_def push_bit_eq_mult)
  have sz: "tells_size (ok (JInt 0)) 0" "tells_size (ok (JInt (2 ^ 30))) (2 ^ 30)"
    using obliging_ok(1) by (simp_all add: tells_size_def decode_uint64_def answer_value_def ok_def)
  have m: "mem_sizeMB sample_memory = 1024" "mem_qmp sample_memory = ''/q''" "mem_timeout sample_memory = 10" by (simp_all add: sample_memory_def)
  have "\<exists>q ms. memory_cmd (\<lambda>_. Inr (monitor [ok (JObj []), ok (JInt 0), ok (JInt (2 ^ 30))])) sample_memory
        = (Some q, Inr (Plugged (mem_sizeMB sample_memory) ms)) \<and> q_in q = []"
    by (rule t [where dial = "\<lambda>_. Inr (monitor [ok (JObj []), ok (JInt 0), ok (JInt (2 ^ 30))])"
          and ps = "[ok (JInt 0)]" and f = "ok (JInt (2 ^ 30))", OF refl _ ok1 ok1, THEN conjunct2, THEN conjunct2, THEN conjunct2, THEN conjunct2, THEN mp])
      (use sz w monitor_greets in \<open>auto simp add: m simp del: answers_simps intro: exI [of _ 0]\<close>)
  then show "\<exists>q ms. memory_cmd (\<lambda>_. Inr (monitor [ok (JObj []), ok (JInt 0), ok (JInt (2 ^ 30))])) sample_memory
        = (Some q, Inr (Plugged 1024 ms)) \<and> q_in q = []" by (simp add: m)
qed

end
