(* ===== verification/Qmp_Deadline.thy ===== *)
theory Qmp_Deadline
  imports Qmp_Order
begin

text \<open>
  The loops that poll QEMU are bounded by their timeouts. A \<^verbatim>\<open>qmpConn\<close> of the model holds finitely many
  messages, so every function on it returns; what the code needs is more, that the number of its
  requests is bounded by the time it was given and not by what QEMU sends. Each turn of a loop reads the
  clock and then sleeps, and a clock that does not run backwards is past the deadline after as many
  sleeps as the timeout holds. What is bounded is the number of requests: a QEMU that stops answering
  is waited for, since only the handshake and the wait for \<^verbatim>\<open>DEVICE_DELETED\<close> set a deadline on reads.
\<close>

subsection \<open>The time on the clock\<close>

definition reading :: "qmpConn \<Rightarrow> int" where
  "reading q = (case q_clock q of [] \<Rightarrow> 0 | t # _ \<Rightarrow> t) + q_slept q"

lemma now_reading:
  assumes "now q = (q', t)" and "sorted (q_clock q)"
  shows "t = reading q" "reading q \<le> reading q'" "sorted (q_clock q')" "q_trace q' = q_trace q" "q_slept q' = q_slept q"
  using assms by (auto simp: now_def reading_def split: list.splits)

lemma sleep_fields [simp]: "reading (sleep d q) = reading q + d" "q_clock (sleep d q) = q_clock q" "q_trace (sleep d q) = q_trace q"
  by (simp_all add: reading_def sleep_def)

text \<open>The polls that fit into a timeout.\<close>

definition polls_within :: "int \<Rightarrow> int \<Rightarrow> nat" where
  "polls_within timeout gap = nat (timeout div gap) + 2"

lemma past_deadline:
  assumes "0 < gap"
  shows "timeout < gap * (int (polls_within timeout gap) - 1)"
proof -
  have "timeout = gap * (timeout div gap) + timeout mod gap" by simp
  moreover have "timeout mod gap < gap" using assms by simp
  ultimately have "timeout < gap * (timeout div gap) + gap" by linarith
  then have "timeout < gap * (timeout div gap + 1)" by (simp add: distrib_left)
  also have "\<dots> \<le> gap * (int (polls_within timeout gap) - 1)"
    by (rule mult_left_mono) (use assms in \<open>simp_all add: polls_within_def\<close>)
  finally show ?thesis .
qed

subsection \<open>What one command costs\<close>

definition asked :: "qmpConn \<Rightarrow> nat" where
  "asked q = length (sent (q_trace q))"

definition clock_kept :: "qmpConn \<Rightarrow> qmpConn \<Rightarrow> nat \<Rightarrow> bool" where
  "clock_kept q q' n = (q_clock q' = q_clock q \<and> q_slept q' = q_slept q \<and> asked q' \<le> asked q + n)"

lemma clock_kept_trans: "clock_kept q q1 m \<Longrightarrow> clock_kept q1 q2 n \<Longrightarrow> clock_kept q q2 (m + n)"
  by (simp add: clock_kept_def)

lemma clock_kept_reading: "clock_kept q q' n \<Longrightarrow> reading q' = reading q \<and> q_clock q' = q_clock q"
  by (simp add: clock_kept_def reading_def)

lemma deadline_clock: "set_deadline q = Some q' \<Longrightarrow> clock_kept q q' 0"
  using set_deadline_fields [of q q'] by (simp add: clock_kept_def asked_def)

lemma clock_kept_more: "clock_kept q q1 m \<Longrightarrow> m \<le> n \<Longrightarrow> clock_kept q q1 n"
  by (simp add: clock_kept_def)

lemma recv_clock: "recv q = (q', r) \<Longrightarrow> clock_kept q q' 0"
  by (auto simp: recv_def clock_kept_def asked_def split: list.splits inbound.splits)

lemma reply_clock: "reply q = (q', r) \<Longrightarrow> clock_kept q q' 0"
proof (induction q arbitrary: q' r rule: reply.induct)
  case (1 q)
  obtain q1 res where rc: "recv q = (q1, res)" by force
  show ?case
  proof (cases res)
    case (Inl e)
    then show ?thesis using 1(3) rc recv_clock [OF rc] by (simp add: reply.simps [of q])
  next
    case (Inr m)
    have "clock_kept q1 q' 0"
      using 1(3) 1(1) [OF rc [symmetric] Inr] 1(2) [OF rc [symmetric] Inr] rc Inr
      by (auto simp: reply.simps [of q] clock_kept_def asked_def split: if_split_asm)
    then show ?thesis using recv_clock [OF rc] clock_kept_trans by fastforce
  qed
qed

lemma run_clock: "qmp_run cmd args q = (q', r) \<Longrightarrow> clock_kept q q' 1"
proof -
  assume run: "qmp_run cmd args q = (q', r)"
  show ?thesis
  proof (cases "send cmd args q")
    case None
    then show ?thesis using run by (simp add: qmp_run_def clock_kept_def)
  next
    case (Some q1)
    then have "clock_kept q q1 1" by (auto simp: send_def clock_kept_def asked_def split: option.splits nat.splits)
    moreover have "clock_kept q1 q' 0"
      using run Some by (auto simp: qmp_run_def split: prod.splits sum.splits option.splits dest: reply_clock)
    ultimately show ?thesis using clock_kept_trans by fastforce
  qed
qed

lemma run_into_clock: "run_into decode cmd args q = (q', r) \<Longrightarrow> clock_kept q q' 1"
  by (auto simp: run_into_def split: prod.splits sum.splits option.splits dest: run_clock)

lemma wait_gone_clock: "wait_gone devID q = (q', r) \<Longrightarrow> clock_kept q q' 0"
proof (induction devID q arbitrary: q' r rule: wait_gone.induct)
  case (1 devID q)
  obtain q1 res where rc: "recv q = (q1, res)" by force
  show ?case
  proof (cases res)
    case (Inl e)
    then show ?thesis using 1(2) rc recv_clock [OF rc] by (simp add: wait_gone.simps [of devID q])
  next
    case (Inr m)
    have "clock_kept q1 q' 0"
      using 1(2) 1(1) [OF rc [symmetric] Inr] rc Inr
      by (auto simp: wait_gone.simps [of devID q] clock_kept_def split: if_split_asm)
    then show ?thesis using recv_clock [OF rc] clock_kept_trans by fastforce
  qed
qed

lemma waitDeleted_clock:
  assumes "waitDeleted devID q = (q', r)"
  shows "clock_kept q q' 0"
proof (cases "devID \<in> set (q_deleted q) \<or> set_deadline q = None")
  case True
  then show ?thesis using assms by (auto simp: waitDeleted_def clock_kept_def split: if_splits)
next
  case False
  then obtain q1 where q1: "set_deadline q = Some q1" "devID \<notin> set (q_deleted q)" by blast
  obtain q2 r2 where wait: "wait_gone devID q1 = (q2, r2)" by force
  have "clock_kept q q2 0" using clock_kept_trans [OF deadline_clock [OF q1(1)] wait_gone_clock [OF wait]] by simp
  moreover have "q' = q2 \<or> set_deadline q2 = Some q'"
    using assms q1 wait by (auto simp: waitDeleted_def split: option.splits)
  ultimately show ?thesis using clock_kept_trans [OF _ deadline_clock] by fastforce
qed

lemma handshake_clock:
  assumes "handshake q = (q', r)"
  shows "clock_kept q q' 1"
proof (cases "set_deadline q")
  case None
  then show ?thesis using assms by (simp add: handshake_def clock_kept_def)
next
  case (Some q0)
  obtain q1 res where rc: "recv q0 = (q1, res)" by force
  have c: "clock_kept q q1 0" using clock_kept_trans [OF deadline_clock [OF Some] recv_clock [OF rc]] by simp
  show ?thesis
  proof (cases res)
    case (Inl e)
    then show ?thesis using assms Some rc clock_kept_more [OF c, of 1] by (simp add: handshake_def)
  next
    case (Inr m)
    obtain q2 r2 where run: "qmp_run ''qmp_capabilities'' None q1 = (q2, r2)" by force
    then have "q' = q2 \<or> set_deadline q2 = Some q'"
      using assms Some rc Inr by (auto simp: handshake_def split: sum.splits option.splits)
    moreover have "clock_kept q q2 1" using clock_kept_trans [OF c run_clock [OF run]] by simp
    ultimately show ?thesis using clock_kept_trans [OF _ deadline_clock] by fastforce
  qed
qed

subsection \<open>The two loops\<close>

text \<open>The deadline is less than \<open>k\<close> sleeps away: at most \<open>k\<close> polls and one more.\<close>

lemma migration_loop_asks:
  assumes "sorted (q_clock q)" and "deadline < reading q + migrationSleep * int k"
  shows "asked (fst (migration_loop deadline q)) \<le> asked q + k + 1"
  using assms
proof (induction k arbitrary: q)
  case (0 q)
  obtain q1 r where run: "run_into decode_migration ''query-migrate'' None q = (q1, r)" by force
  note k = run_into_clock [OF run] clock_kept_reading [OF run_into_clock [OF run]]
  obtain q2 t where now: "now q1 = (q2, t)" by force
  note n = now_reading [OF now]
  have t: "deadline < t" "asked q2 = asked q1" using k 0 n by (simp_all add: asked_def)
  show ?case
    using k(1) t by (auto simp: migration_loop.simps [of deadline q] run now clock_kept_def split: sum.splits prod.splits)
next
  case (Suc k q)
  obtain q1 r where run: "run_into decode_migration ''query-migrate'' None q = (q1, r)" by force
  note k = run_into_clock [OF run] clock_kept_reading [OF run_into_clock [OF run]]
  obtain q2 t where now: "now q1 = (q2, t)" by force
  let ?q3 = "sleep migrationSleep q2"
  have n: "sorted (q_clock ?q3)" "reading q + migrationSleep \<le> reading ?q3" "asked ?q3 = asked q1"
    using now_reading [OF now] k Suc.prems(1) by (simp_all add: asked_def)
  then have "deadline < reading ?q3 + migrationSleep * int k" using Suc.prems(2) by (simp add: distrib_left)
  then have "asked (fst (migration_loop deadline ?q3)) \<le> asked ?q3 + k + 1" by (rule Suc.IH [OF n(1)])
  then show ?case
    using k(1) n(3) by (auto simp: migration_loop.simps [of deadline q] run now clock_kept_def asked_def split: sum.splits prod.splits)
qed

lemma memory_loop_asks:
  assumes "sorted (q_clock q)" and "deadline < reading q + memorySleep * int k"
  shows "asked (fst (memory_loop sizeMB want start deadline q)) \<le> asked q + k + 1"
  using assms
proof (induction k arbitrary: q)
  case (0 q)
  obtain q1 r where run: "run_into decode_uint64 ''qom-get'' sizeQuery q = (q1, r)" by force
  note k = run_into_clock [OF run] clock_kept_reading [OF run_into_clock [OF run]]
  obtain q2 t where now: "now q1 = (q2, t)" by force
  obtain q3 t' where now': "now q2 = (q3, t')" by force
  have n: "reading q \<le> reading q2" "sorted (q_clock q2)" "asked q2 = asked q1" using now_reading [OF now] k 0(1) by (simp_all add: asked_def)
  have t: "deadline < t'" "asked q3 = asked q1" using 0(2) n now_reading [OF now'] by (simp_all add: asked_def)
  show ?case
    using k(1) t n(3) by (auto simp: memory_loop.simps [of sizeMB want start deadline q] run [unfolded sizeQuery_def] now now' clock_kept_def split: sum.splits prod.splits)
next
  case (Suc k q)
  obtain q1 r where run: "run_into decode_uint64 ''qom-get'' sizeQuery q = (q1, r)" by force
  note k = run_into_clock [OF run] clock_kept_reading [OF run_into_clock [OF run]]
  obtain q2 t where now: "now q1 = (q2, t)" by force
  obtain q3 t' where now': "now q2 = (q3, t')" by force
  let ?q4 = "sleep memorySleep q3"
  have n: "reading q \<le> reading q2" "sorted (q_clock q2)" "asked q2 = asked q1" using now_reading [OF now] k Suc.prems(1) by (simp_all add: asked_def)
  have n4: "sorted (q_clock ?q4)" "reading q + memorySleep \<le> reading ?q4" "asked q3 = asked q1" "asked ?q4 = asked q1"
    using now_reading [OF now'] n by (simp_all add: asked_def)
  then have "deadline < reading ?q4 + memorySleep * int k" using Suc.prems(2) by (simp add: distrib_left)
  then have "asked (fst (memory_loop sizeMB want start deadline ?q4)) \<le> asked ?q4 + k + 1" by (rule Suc.IH [OF n4(1)])
  then show ?case
    using k(1) n(3) n4(3,4) by (auto simp: memory_loop.simps [of sizeMB want start deadline q] run [unfolded sizeQuery_def] now now' clock_kept_def split: sum.splits prod.splits)
qed

subsection \<open>The bodies of the commands\<close>

lemma waitMigration_asks:
  assumes "sorted (q_clock q)" and "waitMigration timeout q = (q', r)"
  shows "asked q' \<le> asked q + polls_within timeout migrationSleep"
proof -
  let ?n = "polls_within timeout migrationSleep"
  obtain q1 t where now: "now q = (q1, t)" by force
  note n = now_reading [OF now assms(1)]
  have "t + timeout < reading q1 + migrationSleep * int (?n - 1)"
    using past_deadline [of migrationSleep timeout] n(1,2) by (simp add: migrationSleep_def of_nat_diff polls_within_def)
  then have "asked (fst (migration_loop (t + timeout) q1)) \<le> asked q1 + (?n - 1) + 1" by (rule migration_loop_asks [OF n(3)])
  then show ?thesis using assms(2) now n(4) by (simp add: waitMigration_def polls_within_def asked_def)
qed

lemma save_asks:
  assumes "sorted (q_clock q)"
  shows "asked (fst (save_body timeout to q)) \<le> asked q + (polls_within timeout migrationSleep + 2)"
proof -
  obtain q1 r1 where run: "qmp_run ''migrate'' (Some [(''uri'', JStr (''file:'' @ to))]) q = (q1, r1)" by force
  obtain q2 r2 where wait: "waitMigration timeout q1 = (q2, r2)" by force
  obtain q3 r3 where quit: "qmp_run ''quit'' None q2 = (q3, r3)" by force
  have c: "clock_kept q q1 1" "clock_kept q2 q3 1" by (rule run_clock [OF run], rule run_clock [OF quit])
  then have "asked q2 \<le> asked q1 + polls_within timeout migrationSleep"
    using waitMigration_asks [OF _ wait] assms by (simp add: clock_kept_def)
  then show ?thesis using c unfolding save_body_def run wait quit prod.case by (auto simp: wait quit clock_kept_def split: sum.splits)
qed

lemma resume_asks: "asked (fst (resume q)) \<le> asked q + 2"
proof -
  obtain q1 r1 where ask: "run_into decode_status ''query-status'' None q = (q1, r1)" by force
  obtain q2 r2 where run: "qmp_run ''cont'' None q1 = (q2, r2)" by force
  show ?thesis using run_into_clock [OF ask] run_clock [OF run]
    by (auto simp: resume_def ask run clock_kept_def split: sum.splits)
qed

lemma restore_asks:
  assumes "sorted (q_clock q)"
  shows "asked (fst (restore_body timeout from q)) \<le> asked q + (polls_within timeout migrationSleep + 3)"
proof -
  obtain q1 r1 where run: "qmp_run ''migrate-incoming'' (Some [(''uri'', JStr (''file:'' @ from))]) q = (q1, r1)" by force
  obtain q2 r2 where wait: "waitMigration timeout q1 = (q2, r2)" by force
  have c: "clock_kept q q1 1" by (rule run_clock [OF run])
  then have "asked q2 \<le> asked q1 + polls_within timeout migrationSleep"
    using waitMigration_asks [OF _ wait] assms by (simp add: clock_kept_def)
  then show ?thesis using c resume_asks [of q2] unfolding restore_body_resume run prod.case
    by (auto simp: wait clock_kept_def split: sum.splits)
qed

lemma memory_asks:
  assumes "sorted (q_clock q)"
  shows "asked (fst (memory_body o' q)) \<le> asked q + (polls_within (mem_timeout o') memorySleep + 1)"
proof -
  let ?n = "polls_within (mem_timeout o') memorySleep"
  obtain q0 t where now: "now q = (q0, t)" by force
  note n = now_reading [OF now assms]
  obtain q1 r1 where run: "qmp_run ''qom-set'' (sizeRequest (mem_sizeMB o')) q0 = (q1, r1)" by force
  note c = run_clock [OF run] clock_kept_reading [OF run_clock [OF run]]
  have "t + mem_timeout o' < reading q1 + memorySleep * int (?n - 1)"
    using past_deadline [of memorySleep "mem_timeout o'"] c n(1,2) by (simp add: memorySleep_def of_nat_diff polls_within_def)
  moreover have "sorted (q_clock q1)" using c n(3) by simp
  ultimately have "asked (fst (memory_loop (mem_sizeMB o') (wantBytes (mem_sizeMB o')) t (t + mem_timeout o') q1)) \<le> asked q1 + (?n - 1) + 1"
    by (intro memory_loop_asks)
  then show ?thesis
    using c(1) n(4) now run by (auto simp: memory_body_def sizeRequest_def clock_kept_def polls_within_def asked_def split: sum.splits)
qed

lemma attach_asks: "asked (fst (attach_body o' path q)) \<le> asked q + 3"
proof -
  obtain q1 r1 where run1: "qmp_run ''blockdev-add'' (blockdev_add o' path) q = (q1, r1)" by force
  obtain q2 r2 where run2: "qmp_run ''device_add'' (device_add o') q1 = (q2, r2)" by force
  obtain q3 r3 where run3: "qmp_run ''blockdev-del'' (blockdev_del (at_target o')) q2 = (q3, r3)" by force
  show ?thesis using run_clock [OF run1] run_clock [OF run2] run_clock [OF run3]
    by (auto simp: attach_body_def run1 run2 run3 clock_kept_def split: sum.splits)
qed

lemma detach_asks: "asked (fst (detach_body target q)) \<le> asked q + 2"
proof -
  obtain q1 r1 where run1: "qmp_run ''device_del'' (Some [(''id'', JStr (hotplugDiskID target))]) q = (q1, r1)" by force
  obtain q2 r2 where wait: "waitDeleted (hotplugDiskID target) q1 = (q2, r2)" by force
  obtain q3 r3 where run3: "qmp_run ''blockdev-del'' (blockdev_del target) q2 = (q3, r3)" by force
  show ?thesis using run_clock [OF run1] waitDeleted_clock [OF wait] run_clock [OF run3]
    by (auto simp: detach_body_def run1 wait run3 clock_kept_def split: sum.splits)
qed

lemma session_asks:
  assumes "session dial socket body = (Some q, r)" and "dial socket = Inr c" and "fresh c"
    and "\<And>q0. q_clock q0 = q_clock c \<Longrightarrow> asked (fst (body q0)) \<le> asked q0 + n"
  shows "asked q \<le> n + 1"
proof -
  obtain q0 r0 where hs: "handshake c = (q0, r0)" by force
  have c: "asked c = 0" "clock_kept c q0 1" using assms(3) handshake_clock [OF hs] by (simp_all add: fresh_def asked_def)
  then have "asked (fst (body q0)) \<le> asked q0 + n" using assms(4) by (simp add: clock_kept_def)
  then show ?thesis using assms(1,2) hs c
    by (auto simp: session_def newQMP_def clock_kept_def asked_def close_def split: sum.splits prod.splits)
qed

subsection \<open>Properties\<close>

text \<open>C17: The polls of a command are bounded by its timeout, whatever QEMU answers and however long it goes on
  answering. Of a clock that does not run backwards, a save or a restore sends at most one
  \<^verbatim>\<open>query-migrate\<close> for each 2 ms of its timeout and two more, \<^verbatim>\<open>memory\<close> at most one \<^verbatim>\<open>qom-get\<close> for each 10 ms and
  two more, for they sleep that long between two polls; beside its polls a save sends at most three
  requests, a restore four and \<^verbatim>\<open>memory\<close> two. \<^verbatim>\<open>attach\<close> and \<^verbatim>\<open>detach\<close>, which do not poll, send at most four
  and three.\<close>

theorem polls_are_bounded_by_the_timeout:
  assumes "dial sock = Inr c" and "fresh c" and "sorted (q_clock c)"
  shows "(sv_qmp v = sock \<and> fst (save os dial v) = Some q
      \<longrightarrow> length (sent (q_trace q)) \<le> polls_within (sv_timeout v) migrationSleep + 3)
    \<and> (rs_qmp s = sock \<and> fst (restore os dial s) = Some q
      \<longrightarrow> length (sent (q_trace q)) \<le> polls_within (rs_timeout s) migrationSleep + 4)
    \<and> (mem_qmp m = sock \<and> fst (memory_cmd dial m) = Some q
      \<longrightarrow> length (sent (q_trace q)) \<le> polls_within (mem_timeout m) memorySleep + 2)
    \<and> (at_qmp a = sock \<and> fst (attach os dial a) = Some q \<longrightarrow> length (sent (q_trace q)) \<le> 4)
    \<and> (dt_qmp d = sock \<and> fst (detach dial d) = Some q \<longrightarrow> length (sent (q_trace q)) \<le> 3)"
proof -
  have bound: "length (sent (q_trace q)) \<le> n + 1"
    if ran: "\<exists>r. session dial sock body = (Some q, r)" and cost: "\<And>q0. sorted (q_clock q0) \<Longrightarrow> asked (fst (body q0)) \<le> asked q0 + n"
    for n and body :: "qmpConn \<Rightarrow> qmpConn \<times> (cmd_error, 'b) result"
  proof -
    obtain r where r: "session dial sock body = (Some q, r)" using ran by blast
    show ?thesis using session_asks [OF r assms(1,2)] cost assms(3) by (simp add: asked_def)
  qed
  have run: "\<exists>r. x = (Some q, r)" if "fst x = Some q" for x :: "'c outcome" using that by (cases x) auto
  have "length (sent (q_trace q)) \<le> (polls_within (sv_timeout v) migrationSleep + 2) + 1"
    if h: "sv_qmp v = sock" "fst (save os dial v) = Some q"
  proof -
    obtain to where "\<exists>r. session dial sock (save_body (sv_timeout v) to) = (Some q, r)"
      using run [OF h(2)] save_session_of h(1) by blast
    then show ?thesis by (rule bound) (rule save_asks)
  qed
  moreover have "length (sent (q_trace q)) \<le> (polls_within (rs_timeout s) migrationSleep + 3) + 1"
    if h: "rs_qmp s = sock" "fst (restore os dial s) = Some q"
  proof -
    obtain "from" where "\<exists>r. session dial sock (restore_body (rs_timeout s) from) = (Some q, r)"
      using run [OF h(2)] restore_session_of h(1) by blast
    then show ?thesis by (rule bound) (rule restore_asks)
  qed
  moreover have "length (sent (q_trace q)) \<le> (polls_within (mem_timeout m) memorySleep + 1) + 1"
    if h: "mem_qmp m = sock" "fst (memory_cmd dial m) = Some q"
  proof -
    have "\<exists>r. session dial sock (memory_body m) = (Some q, r)" using run [OF h(2)] memory_session_of h(1) by blast
    then show ?thesis by (rule bound) (rule memory_asks)
  qed
  moreover have "length (sent (q_trace q)) \<le> 3 + 1" if h: "at_qmp a = sock" "fst (attach os dial a) = Some q"
  proof -
    obtain path where "\<exists>r. session dial sock (attach_body a path) = (Some q, r)"
      using run [OF h(2)] attach_session_of h(1) by blast
    then show ?thesis by (rule bound) (rule attach_asks)
  qed
  moreover have "length (sent (q_trace q)) \<le> 2 + 1" if h: "dt_qmp d = sock" "fst (detach dial d) = Some q"
  proof -
    have "\<exists>r. session dial sock (detach_body (dt_target d)) = (Some q, r)"
      using run [OF h(2)] detach_session_of h(1) by blast
    then show ?thesis by (rule bound) (rule detach_asks)
  qed
  ultimately show ?thesis by auto
qed

text \<open>A QEMU that answers every poll with active for longer than it is asked, in no time at all.\<close>

definition never_done :: qmpConn where
  "never_done = script (replicate 3 (returns (JObj [])) @ replicate 20 (status_reply ''active''))"

theorem polls_are_bounded_by_the_timeout_witness:
  "\<exists>q. save sample_tree (\<lambda>_. Inr never_done) (sample_save\<lparr>sv_timeout := 6000000\<rparr>) = (Some q, Inl (TheSave NotFinished))
     \<and> length (sent (q_trace q)) \<le> 8"
proof -
  let ?v = "sample_save\<lparr>sv_timeout := 6000000\<rparr>"
  let ?run = "save sample_tree (\<lambda>_. Inr never_done) ?v"
  have "fst ?run \<noteq> None" "snd ?run = Inl (TheSave NotFinished)" by code_simp+
  then obtain q where q: "?run = (Some q, Inl (TheSave NotFinished))" by (metis option.exhaust prod.collapse)
  have c: "fresh never_done" "sorted (q_clock never_done)" by (simp_all add: never_done_def fresh_def script_def)
  have r: "polls_within (sv_timeout ?v) migrationSleep = 5" by (simp add: migrationSleep_def polls_within_def)
  show ?thesis
    using polls_are_bounded_by_the_timeout [where dial = "\<lambda>_. Inr never_done" and sock = "sv_qmp ?v" and v = ?v and q = q and os = sample_tree, OF refl c] r q
    by simp
qed

end
