(* ===== verification/Qmp_Lockstep.thy ===== *)
theory Qmp_Lockstep
  imports Qmp_Order
begin

text \<open>
  The client as a state machine. \<^verbatim>\<open>qmpConn\<close> is the smallest client the commands need, one command at a
  time: \<open>lockstep\<close> is that protocol as a step relation, on the stage of the conversation and the messages
  still to come, and \<open>path\<close> its runs. Every operation of the client and every command is shown to be a run
  of it, whatever QEMU sends; what the protocol promises is then shown of its runs by rule induction: a
  request is sent only when the one before it was answered, or when reading had already failed, and
  after the connection is closed there is nothing.
\<close>

subsection \<open>The protocol\<close>

datatype stage = Idle | Waiting | Broken | Shut

type_synonym conf = "stage \<times> inbound list"

inductive lockstep :: "conf \<Rightarrow> qevent \<Rightarrow> conf \<Rightarrow> bool" where
  ask: "lockstep (Idle, is) (Sent c a) (Waiting, is)"
| event: "is_event i \<Longrightarrow> lockstep (Waiting, i # is) (Got i) (Waiting, is)"
| replied: "qm_Event m = [] \<Longrightarrow> lockstep (Waiting, Recv m # is) (Got (Recv m)) (Idle, is)"
| hear: "lockstep (Idle, Recv m # is) (Got (Recv m)) (Idle, is)"
| fails: "s \<noteq> Shut \<Longrightarrow> lockstep (s, RecvFail e # is) (Got (RecvFail e)) (Broken, is)"
| ask_blindly: "lockstep (Broken, is) (Sent c a) (Broken, is)"
| hear_blindly: "lockstep (Broken, Recv m # is) (Got (Recv m)) (Broken, is)"
| shut: "s \<noteq> Shut \<Longrightarrow> lockstep (s, is) Closed (Shut, is)"

text \<open>The end of the stream is no event: a read then fails, and the conversation is broken.\<close>

inductive path :: "conf \<Rightarrow> qevent list \<Rightarrow> conf \<Rightarrow> bool" where
  stay: "path c [] c"
| ended: "path (Broken, []) t c \<Longrightarrow> path (Waiting, []) t c"
| go: "lockstep c e c' \<Longrightarrow> path c' t c'' \<Longrightarrow> path c (e # t) c''"

inductive_cases askE: "lockstep (s, is) (Sent c a) c'"
inductive_cases gotE: "lockstep (s, is) (Got i) c'"
inductive_cases shutE: "lockstep (s, is) Closed c'"
inductive_cases from_shutE: "lockstep (Shut, is) e c'"

lemma path_trans: "path c t c' \<Longrightarrow> path c' u c'' \<Longrightarrow> path c (t @ u) c''"
  by (induction rule: path.induct) (auto intro: path.intros)

lemma path_one: "lockstep c e c' \<Longrightarrow> path c [e] c'"
  by (rule path.go [OF _ path.stay])

lemma path_split: "path c (a @ e # b) c'' \<Longrightarrow> \<exists>c1 c2. path c a c1 \<and> lockstep c1 e c2 \<and> path c2 b c''"
proof (induction c "a @ e # b" c'' arbitrary: a rule: path.induct)
  case (ended t c)
  then show ?case using path.ended by blast
next
  case (go c e' c' t c'')
  show ?case
  proof (cases a)
    case Nil
    then have "lockstep c e c'" "path c' b c''" using go by simp_all
    then show ?thesis using Nil path.stay by blast
  next
    case (Cons f a')
    then show ?thesis using go path.go by (metis append_Cons list.inject)
  qed
qed simp

subsection \<open>What the protocol promises\<close>

text \<open>Whether the last request is still unanswered, and whether a read failed.\<close>

fun pending :: "bool \<Rightarrow> qevent list \<Rightarrow> bool" where
  "pending p [] = p"
| "pending p (Sent _ _ # t) = pending True t"
| "pending p (Got (Recv m) # t) = pending (p \<and> qm_Event m \<noteq> []) t"
| "pending p (_ # t) = pending p t"

definition failed :: "qevent \<Rightarrow> bool" where
  "failed e = (case e of Got (RecvFail _) \<Rightarrow> True | _ \<Rightarrow> False)"

lemma pending_append: "pending p (a @ b) = pending (pending p a) b"
  by (induction p a rule: pending.induct) simp_all

definition conf_inv :: "inbound list \<Rightarrow> qevent list \<Rightarrow> conf \<Rightarrow> bool" where
  "conf_inv start t c = (start = received t @ snd c \<and> (fst c = Idle \<longrightarrow> \<not> pending False t)
     \<and> (fst c = Broken \<longrightarrow> list_ex failed t \<or> snd c = [])
     \<and> (if fst c = Shut then t \<noteq> [] \<and> last t = Closed \<and> Closed \<notin> set (butlast t) else Closed \<notin> set t))"

lemma lockstep_inv: "lockstep c e c' \<Longrightarrow> conf_inv start t c \<Longrightarrow> conf_inv start (t @ [e]) c'"
  by (induction rule: lockstep.induct) (auto simp: conf_inv_def pending_append failed_def)

lemma path_inv: "path c u c' \<Longrightarrow> conf_inv start t c \<Longrightarrow> conf_inv start (t @ u) c'"
proof (induction arbitrary: t rule: path.induct)
  case (ended u c)
  have "conf_inv start t (Broken, [])" using ended.prems by (simp add: conf_inv_def)
  then show ?case by (rule ended.IH)
next
  case (go c e c' u c'')
  then show ?case using lockstep_inv [OF go(1) go(4)] go(3) [of "t @ [e]"] by simp
qed simp

lemma start_inv: "path (Idle, start) u c \<Longrightarrow> conf_inv start u c"
  using path_inv [of "(Idle, start)" u c start "[]"] by (simp add: conf_inv_def)

text \<open>A request follows an answer, or a read that failed.\<close>

lemma asks_in_turn:
  assumes "path (Idle, start) (a @ Sent cmd args # b) c"
  shows "\<not> pending False a \<or> list_ex failed a \<or> received a = start"
proof -
  obtain s "is" c2 where p: "path (Idle, start) a (s, is)" and l: "lockstep (s, is) (Sent cmd args) c2"
    using path_split [OF assms] by auto
  from l have "s = Idle \<or> s = Broken" by (rule askE) simp_all
  then show ?thesis using start_inv [OF p] by (auto simp: conf_inv_def)
qed

subsection \<open>The client follows it\<close>

definition follows :: "stage \<Rightarrow> qmpConn \<Rightarrow> stage \<Rightarrow> qmpConn \<Rightarrow> bool" where
  "follows s q s' q' = (\<exists>t. q_trace q' = q_trace q @ t \<and> path (s, q_in q) t (s', q_in q'))"

definition live :: "stage \<Rightarrow> bool" where
  "live s = (s = Idle \<or> s = Broken)"

text \<open>The contract of an operation: from a live stage it follows the protocol to a live stage.\<close>

locale in_turn =
  fixes step :: "qmpConn \<Rightarrow> qmpConn \<times> 'r"
  assumes in_turn: "live s \<Longrightarrow> \<exists>s'. live s' \<and> follows s q s' (fst (step q))"
begin

lemma step_follows: "live s \<Longrightarrow> step q = (q', r) \<Longrightarrow> \<exists>s'. live s' \<and> follows s q s' q'"
  using in_turn [of s q] by simp

end

lemma follows_refl: "follows s q s q"
  using path.stay by (auto simp: follows_def)

lemma follows_trans: "follows s q s1 q1 \<Longrightarrow> follows s1 q1 s2 q2 \<Longrightarrow> follows s q s2 q2"
  using path_trans by (fastforce simp: follows_def)

lemma follows_same [simp]: "follows s q s' (q'\<lparr>q_clock := c\<rparr>) = follows s q s' q'" "follows s (q\<lparr>q_clock := c\<rparr>) s' q' = follows s q s' q'"
  "follows s q s' (q'\<lparr>q_deleted := d\<rparr>) = follows s q s' q'"
  by (simp_all add: follows_def)

lemma follows_sleep [simp]: "follows s q s' (sleep d q') = follows s q s' q'" "follows s (sleep d q) s' q' = follows s q s' q'"
  by (simp_all add: follows_def sleep_def)

lemma deadline_follows: "set_deadline q = Some q' \<Longrightarrow> follows s q s q'"
  using follows_refl [of s q] set_deadline_fields(1,6) [of q q'] by (simp add: follows_def)

lemma follows_now: "follows s q s' q' \<Longrightarrow> now q' = (q'', t) \<Longrightarrow> follows s q s' q''"
  by (auto simp: now_def split: list.splits)

lemma recv_follows:
  assumes "recv q = (q', r)"
  shows "follows Broken q Broken q'"
    and "case r of Inl _ \<Rightarrow> follows Waiting q Broken q' | Inr m \<Rightarrow> follows Waiting q (if qm_Event m = [] then Idle else Waiting) q'"
    and "\<exists>s'. live s' \<and> follows Idle q s' q'"
proof -
  have one: "follows s q s' (q\<lparr>q_in := is, q_trace := q_trace q @ [Got i]\<rparr>)"
    if "q_in q = i # is" and "lockstep (s, i # is) (Got i) (s', is)" for s s' i "is"
    using path_one [OF that(2)] that(1) by (auto simp: follows_def)
  have got: "lockstep (Waiting, Recv m # is) (Got (Recv m)) (if qm_Event m = [] then Idle else Waiting, is)" for m "is"
    using lockstep.replied lockstep.event [of "Recv m"] by (simp add: is_event_def)
  consider (eof) "q_in q = []" "q' = q" "isl r"
    | (msg) m "is" where "q_in q = Recv m # is" "q' = q\<lparr>q_in := is, q_trace := q_trace q @ [Got (Recv m)]\<rparr>" "r = Inr m"
    | (bad) e "is" where "q_in q = RecvFail e # is" "q' = q\<lparr>q_in := is, q_trace := q_trace q @ [Got (RecvFail e)]\<rparr>" "isl r"
    using assms by (auto simp: recv_def split: list.splits inbound.splits)
  then have "follows Broken q Broken q'
    \<and> (case r of Inl _ \<Rightarrow> follows Waiting q Broken q' | Inr m \<Rightarrow> follows Waiting q (if qm_Event m = [] then Idle else Waiting) q')
    \<and> (\<exists>s'. live s' \<and> follows Idle q s' q')"
  proof cases
    case eof
    have "follows Waiting q Broken q" using eof(1) path.ended [OF path.stay] by (auto simp: follows_def)
    then show ?thesis using eof follows_refl by (auto simp: live_def split: sum.splits)
  next
    case msg
    then show ?thesis using one [OF msg(1) lockstep.hear_blindly] one [OF msg(1) got] one [OF msg(1) lockstep.hear] by (auto simp: live_def)
  next
    case bad
    have f: "lockstep (s, RecvFail e # is) (Got (RecvFail e)) (Broken, is)" if "s \<noteq> Shut" for s
      by (rule lockstep.fails [OF that])
    show ?thesis using bad one [OF bad(1) f] by (auto simp: live_def split: sum.splits)
  qed
  then show "follows Broken q Broken q'"
    and "case r of Inl _ \<Rightarrow> follows Waiting q Broken q' | Inr m \<Rightarrow> follows Waiting q (if qm_Event m = [] then Idle else Waiting) q'"
    and "\<exists>s'. live s' \<and> follows Idle q s' q'" by blast+
qed

lemma reply_follows:
  assumes "reply q = (q', r)"
  shows "follows Broken q Broken q'" and "follows Waiting q (if isl r then Broken else Idle) q'"
proof -
  have "follows Broken q Broken q' \<and> follows Waiting q (if isl r then Broken else Idle) q'"
    using assms
  proof (induction q arbitrary: q' r rule: reply.induct)
    case (1 q)
    obtain q1 res where rc: "recv q = (q1, res)" by force
    note one = recv_follows [OF rc]
    show ?case
    proof (cases res)
      case (Inl e)
      then show ?thesis using 1(3) rc one by (auto simp: reply.simps [of q])
    next
      case (Inr m)
      let ?q1 = "if qm_Event m = ''DEVICE_DELETED'' then q1\<lparr>q_deleted := q_deleted q1 @ [qm_Device m]\<rparr> else q1"
      show ?thesis
      proof (cases "qm_Event m = []")
        case True
        then show ?thesis using 1(3) rc Inr one by (auto simp: reply.simps [of q])
      next
        case False
        then have r: "reply ?q1 = (q', r)" using 1(3) rc Inr by (simp add: reply.simps [of q] split: if_split_asm)
        have "follows Broken ?q1 Broken q' \<and> follows Waiting ?q1 (if isl r then Broken else Idle) q'"
          using 1(1) [OF rc [symmetric] Inr] 1(2) [OF rc [symmetric] Inr] r False by (simp split: if_splits)
        moreover have "follows Broken q Broken ?q1" "follows Waiting q Waiting ?q1" using one(1,2) Inr False by simp_all
        ultimately show ?thesis using follows_trans by blast
      qed
    qed
  qed
  then show "follows Broken q Broken q'" and "follows Waiting q (if isl r then Broken else Idle) q'" by blast+
qed

lemma send_follows:
  assumes "send c a q = Some q'"
  shows "follows Idle q Waiting q'" and "follows Broken q Broken q'"
proof -
  have q': "q_trace q' = q_trace q @ [Sent c a]" "q_in q' = q_in q" using assms by (auto simp: send_def split: option.splits nat.splits)
  then show "follows Idle q Waiting q'" "follows Broken q Broken q'"
    using path_one [OF lockstep.ask] path_one [OF lockstep.ask_blindly] by (auto simp: follows_def)
qed

interpretation run_turn: in_turn "qmp_run cmd args" for cmd args
proof
  fix s q
  assume s: "live s"
  show "\<exists>s'. live s' \<and> follows s q s' (fst (qmp_run cmd args q))"
  proof (cases "send cmd args q")
    case None
    then show ?thesis using s follows_refl by (auto simp: qmp_run_def)
  next
    case (Some q1)
    obtain q2 r where rep: "reply q1 = (q2, r)" by force
    have "fst (qmp_run cmd args q) = q2" using Some rep by (auto simp: qmp_run_def split: sum.splits option.splits)
    then show ?thesis
      using s follows_trans [OF send_follows(1) [OF Some] reply_follows(2) [OF rep]]
        follows_trans [OF send_follows(2) [OF Some] reply_follows(1) [OF rep]] by (auto simp: live_def split: if_splits)
  qed
qed

interpretation run_into_turn: in_turn "run_into decode cmd args" for decode cmd args
proof
  fix s q
  assume s: "live s"
  have "fst (run_into decode cmd args q) = fst (qmp_run cmd args q)"
    by (auto simp: run_into_def split: prod.splits sum.splits option.splits)
  then show "\<exists>s'. live s' \<and> follows s q s' (fst (run_into decode cmd args q))" using run_turn.in_turn [OF s] by simp
qed

lemma recv_live: "live s \<Longrightarrow> recv q = (q', r) \<Longrightarrow> \<exists>s'. live s' \<and> follows s q s' q'"
  using recv_follows(1,3) by (auto simp: live_def)

lemma wait_gone_live: "wait_gone d q = (q', r) \<Longrightarrow> live s \<Longrightarrow> \<exists>s'. live s' \<and> follows s q s' q'"
proof (induction d q arbitrary: q' r s rule: wait_gone.induct)
  case (1 d q)
  obtain q1 res where rc: "recv q = (q1, res)" by force
  obtain s1 where s1: "live s1" "follows s q s1 q1" using recv_live [OF 1(3) rc] by blast
  show ?case
  proof (cases "\<exists>m. res = Inr m \<and> \<not> (qm_Event m = ''DEVICE_DELETED'' \<and> qm_Device m = d)")
    case True
    then obtain m where m: "res = Inr m" "\<not> (qm_Event m = ''DEVICE_DELETED'' \<and> qm_Device m = d)" by blast
    then have "wait_gone d q1 = (q', r)" using 1(2) rc by (auto simp: wait_gone.simps [of d q] split: if_split_asm)
    then show ?thesis using 1(1) [OF rc [symmetric] m(1) m(2) _ s1(1)] s1(2) follows_trans by blast
  next
    case False
    then have "q' = q1" using 1(2) rc by (cases res) (auto simp: wait_gone.simps [of d q] split: if_split_asm)
    then show ?thesis using s1 by blast
  qed
qed

interpretation waitDeleted_turn: in_turn "waitDeleted d" for d
proof
  fix s q
  assume s: "live s"
  show "\<exists>s'. live s' \<and> follows s q s' (fst (waitDeleted d q))"
  proof (cases "d \<in> set (q_deleted q) \<or> set_deadline q = None")
    case True
    then have "fst (waitDeleted d q) = q" by (auto simp: waitDeleted_def)
    then show ?thesis using s follows_refl by auto
  next
    case False
    then obtain q1 where q1: "set_deadline q = Some q1" "d \<notin> set (q_deleted q)" by blast
    obtain q2 r where wait: "wait_gone d q1 = (q2, r)" by force
    obtain s' where s': "live s'" "follows s q1 s' q2" using wait_gone_live [OF wait s] by blast
    have "follows s' q2 s' (fst (waitDeleted d q))"
      using q1 wait follows_refl deadline_follows by (auto simp: waitDeleted_def split: option.splits)
    then show ?thesis using s'(1) follows_trans [OF follows_trans [OF deadline_follows [OF q1(1)] s'(2)]] by blast
  qed
qed

lemma now_live: "live s \<Longrightarrow> now q = (q', t) \<Longrightarrow> follows s q s q'"
  using follows_now [OF follows_refl] .

lemma migration_loop_live: "live s \<Longrightarrow> \<exists>s'. live s' \<and> follows s q s' (fst (migration_loop deadline q))"
proof (induction deadline q arbitrary: s rule: migration_loop.induct)
  case (1 deadline q)
  obtain q1 res where run: "run_into decode_migration ''query-migrate'' None q = (q1, res)" by force
  obtain s1 where s1: "live s1" "follows s q s1 q1" using run_into_turn.step_follows [OF 1(2) run] by blast
  show ?case
  proof (cases res)
    case (Inl e)
    then show ?thesis using s1 by (auto simp: migration_loop.simps [of deadline q] run)
  next
    case (Inr p)
    obtain status desc where p: "p = (status, desc)" by force
    obtain q2 t where now: "now q1 = (q2, t)" by force
    have s2: "follows s q s1 q2" by (rule follows_now [OF s1(2) now])
    show ?thesis
    proof (cases "final_status status \<or> t > deadline")
      case True
      then have "fst (migration_loop deadline q) \<in> {q1, q2}"
        by (auto simp: migration_loop.simps [of deadline q] run Inr p now final_status_def)
      then show ?thesis using s1 s2 by auto
    next
      case False
      then have e: "migration_loop deadline q = migration_loop deadline (sleep migrationSleep q2)"
        by (simp add: migration_loop.simps [of deadline q] run Inr p now final_status_def)
      obtain s3 where "live s3" "follows s1 q2 s3 (fst (migration_loop deadline (sleep migrationSleep q2)))"
        using 1(1) [OF run [symmetric] Inr p [symmetric] _ _ now [symmetric] _ s1(1)] False by (auto simp: final_status_def)
      then show ?thesis using follows_trans [OF s2] e by auto
    qed
  qed
qed

interpretation waitMigration_turn: in_turn "waitMigration timeout" for timeout
proof
  fix s q
  assume s: "live s"
  obtain q1 t where now: "now q = (q1, t)" by force
  obtain s' where "live s'" "follows s q1 s' (fst (migration_loop (t + timeout) q1))" using migration_loop_live [OF s] by blast
  then show "\<exists>s'. live s' \<and> follows s q s' (fst (waitMigration timeout q))"
    using follows_trans [OF now_live [OF s now]] now by (auto simp: waitMigration_def)
qed

subsection \<open>The commands follow it\<close>

text \<open>Code made of operations that keep the contract keeps it.\<close>

lemma in_turn_return: "in_turn (\<lambda>q. (q, r))"
  by (rule in_turn.intro) (use follows_refl in auto)

lemma in_turn_bind:
  assumes "in_turn f" and "\<And>r. in_turn (g r)"
  shows "in_turn (\<lambda>q. case f q of (q1, r) \<Rightarrow> g r q1)"
proof
  fix s q
  assume s: "live s"
  obtain q1 r where f: "f q = (q1, r)" by force
  obtain s1 where s1: "live s1" "follows s q s1 q1" using in_turn.step_follows [OF assms(1) s f] by blast
  obtain s2 where "live s2" "follows s1 q1 s2 (fst (g r q1))" using in_turn.in_turn [OF assms(2) s1(1)] by blast
  then show "\<exists>s'. live s' \<and> follows s q s' (fst (case f q of (q1, r) \<Rightarrow> g r q1))"
    using follows_trans [OF s1(2)] f by auto
qed

lemma in_turn_sum:
  "(\<And>e. in_turn (f e)) \<Longrightarrow> (\<And>v. in_turn (g v)) \<Longrightarrow> in_turn (\<lambda>q. case r of Inl e \<Rightarrow> f e q | Inr v \<Rightarrow> g v q)"
  by (cases r) simp_all

lemma in_turn_if: "in_turn f \<Longrightarrow> in_turn g \<Longrightarrow> in_turn (\<lambda>q. if b q then f q else g q)"
  by (simp add: in_turn_def)

lemma in_turn_fst: "in_turn f \<Longrightarrow> in_turn (\<lambda>q. (fst (f q), r))"
  by (simp add: in_turn_def)

lemma in_turn_now: "in_turn now"
proof
  fix s q
  assume s: "live s"
  obtain q1 t where now: "now q = (q1, t)" by force
  then show "\<exists>s'. live s' \<and> follows s q s' (fst (now q))" using s now_live [OF s now] by auto
qed

lemma in_turn_recv: "in_turn recv"
proof
  fix s q
  assume s: "live s"
  obtain q1 r where rc: "recv q = (q1, r)" by force
  then show "\<exists>s'. live s' \<and> follows s q s' (fst (recv q))" using recv_live [OF s rc] by auto
qed

lemma in_turn_deadline:
  assumes "in_turn f" and "in_turn g"
  shows "in_turn (\<lambda>q. case set_deadline q of None \<Rightarrow> f q | Some q1 \<Rightarrow> g q1)"
proof
  fix s q
  assume s: "live s"
  show "\<exists>s'. live s' \<and> follows s q s' (fst (case set_deadline q of None \<Rightarrow> f q | Some q1 \<Rightarrow> g q1))"
  proof (cases "set_deadline q")
    case None
    then show ?thesis using in_turn.in_turn [OF assms(1) s] by simp
  next
    case (Some q1)
    then show ?thesis using in_turn.in_turn [OF assms(2) s] follows_trans [OF deadline_follows [OF Some]] by fastforce
  qed
qed

lemmas turns = in_turn_return in_turn_deadline in_turn_bind in_turn_sum in_turn_if in_turn_fst in_turn_now in_turn_recv
  run_turn.in_turn_axioms run_into_turn.in_turn_axioms waitDeleted_turn.in_turn_axioms waitMigration_turn.in_turn_axioms

interpretation handshake_turn: in_turn handshake
  unfolding handshake_def by (intro turns)

interpretation attach_turn: in_turn "attach_body o' path" for o' path
  unfolding attach_body_def by (intro turns)

interpretation detach_turn: in_turn "detach_body target" for target
  unfolding detach_body_def by (intro turns)

interpretation save_turn: in_turn "save_body timeout to" for timeout to
  unfolding save_body_def by (intro turns)

interpretation restore_turn: in_turn "restore_body timeout from" for timeout "from"
  unfolding restore_body_def by (intro turns)

lemma memory_loop_live: "live s \<Longrightarrow> \<exists>s'. live s' \<and> follows s q s' (fst (memory_loop sizeMB want start deadline q))"
proof (induction sizeMB want start deadline q arbitrary: s rule: memory_loop.induct)
  case (1 sizeMB want start deadline q)
  obtain q1 res where run: "run_into decode_uint64 ''qom-get'' (Some [(''path'', JStr memPath), (''property'', JStr ''size'')]) q = (q1, res)"
    by force
  obtain s1 where s1: "live s1" "follows s q s1 q1" using run_into_turn.step_follows [OF 1(2) run] by blast
  obtain q2 t where now: "now q1 = (q2, t)" by force
  obtain q3 t' where now': "now q2 = (q3, t')" by force
  note s2 = follows_now [OF s1(2) now]
  note s3 = follows_now [OF s2 now']
  note unfold = memory_loop.simps [of sizeMB want start deadline q] run now now'
  show ?case
  proof (cases "\<exists>sz. res = Inr sz \<and> sz \<noteq> want \<and> \<not> t' > deadline")
    case True
    then obtain sz where sz: "res = Inr sz" "sz \<noteq> want" "\<not> t' > deadline" by blast
    then have e: "memory_loop sizeMB want start deadline q = memory_loop sizeMB want start deadline (sleep memorySleep q3)" by (simp add: unfold)
    obtain s4 where "live s4" "follows s1 q3 s4 (fst (memory_loop sizeMB want start deadline (sleep memorySleep q3)))"
      using 1(1) [OF run [symmetric] sz(1) now [symmetric] sz(2) now' [symmetric] sz(3) s1(1)] by auto
    then show ?thesis using follows_trans [OF s3] e by auto
  next
    case False
    then have "fst (memory_loop sizeMB want start deadline q) \<in> {q1, q2, q3}" by (cases res) (auto simp: unfold)
    then show ?thesis using s1 s2 s3 by auto
  qed
qed

interpretation memory_loop_turn: in_turn "memory_loop sizeMB want start deadline" for sizeMB want start deadline
  by (rule in_turn.intro) (rule memory_loop_live)

interpretation memory_turn: in_turn "memory_body o'" for o'
  unfolding memory_body_def by (intro turns memory_loop_turn.in_turn_axioms)

lemma session_path:
  assumes "in_turn body" and "session dial socket body = (Some q, r)" and "dial socket = Inr c" and "fresh c"
  shows "path (Idle, q_in c) (q_trace q) (Shut, q_in q)"
proof -
  have shut: "path (s, q_in q0) [Closed] (Shut, q_in q0)" if "live s" for s q0
    using path_one [OF lockstep.shut [of s "q_in q0"]] that by (auto simp: live_def)
  have closed: "path (Idle, q_in c) (q_trace (close q0)) (Shut, q_in (close q0))" if "live s" and "follows Idle c s q0" for s q0
    using that(2) path_trans [OF _ shut [OF that(1)]] assms(4) by (auto simp: follows_def fresh_def close_def)
  obtain q0 res where hs: "handshake c = (q0, res)" by force
  have idle: "live Idle" by (simp add: live_def)
  obtain s0 where s0: "live s0" "follows Idle c s0 q0" using handshake_turn.step_follows [OF idle hs] by blast
  show ?thesis
  proof (cases res)
    case (Inl e)
    then have "q = close q0" using assms(2,3) hs by (simp add: session_def newQMP_def)
    then show ?thesis using closed [OF s0] by simp
  next
    case (Inr u)
    obtain q1 where b: "body q0 = (q1, r)" "q = close q1"
      using assms(2,3) hs Inr by (auto simp: session_def newQMP_def split: prod.splits)
    obtain s1 where "live s1" "follows s0 q0 s1 q1" using in_turn.step_follows [OF assms(1) s0(1) b(1)] by blast
    then show ?thesis using closed follows_trans [OF s0(2)] b(2) by blast
  qed
qed

subsection \<open>Properties\<close>

text \<open>C13: The client speaks in turn. Whatever QEMU sends, the conversation of each of the five commands is
  a run of the protocol that takes what it heard from the front of the stream and ends with the
  connection shut: it is closed once and last, and a request goes out only when the one before it has
  been answered, or after a read that failed or found the stream at its end.\<close>

theorem client_speaks_in_turn:
  assumes "\<And>s c. dial s = Inr c \<Longrightarrow> fresh c \<and> q_in c = start"
    and "Some q \<in> {fst (attach os dial a), fst (detach dial d), fst (memory_cmd dial m), fst (save os dial v), fst (restore os dial rs)}"
  shows "path (Idle, start) (q_trace q) (Shut, q_in q) \<and> closed_once q
    \<and> (\<forall>before cmd args rest. q_trace q = before @ Sent cmd args # rest \<longrightarrow>
         \<not> pending False before \<or> list_ex failed before \<or> received before = start)"
proof -
  have p: "path (Idle, start) (q_trace q) (Shut, q_in q)" if turn: "in_turn body" and run: "session dial socket body = (Some q, r)"
    for socket r and body :: "qmpConn \<Rightarrow> qmpConn \<times> (cmd_error, 'b) result"
  proof -
    obtain c where c: "dial socket = Inr c" using session_dialled [OF run] by blast
    show ?thesis using session_path [OF turn run c] assms(1) [OF c] by simp
  qed
  have "path (Idle, start) (q_trace q) (Shut, q_in q)"
    using assms(2)
  proof (elim insertE emptyE)
    assume "Some q = fst (attach os dial a)"
    then obtain r where "attach os dial a = (Some q, r)" by (metis prod.collapse)
    then show ?thesis using attach_session_of p [OF attach_turn.in_turn_axioms] by blast
  next
    assume "Some q = fst (detach dial d)"
    then obtain r where "detach dial d = (Some q, r)" by (metis prod.collapse)
    then show ?thesis using detach_session_of p [OF detach_turn.in_turn_axioms] by blast
  next
    assume "Some q = fst (memory_cmd dial m)"
    then obtain r where "memory_cmd dial m = (Some q, r)" by (metis prod.collapse)
    then show ?thesis using memory_session_of p [OF memory_turn.in_turn_axioms] by blast
  next
    assume "Some q = fst (save os dial v)"
    then obtain r where "save os dial v = (Some q, r)" by (metis prod.collapse)
    then show ?thesis using save_session_of p [OF save_turn.in_turn_axioms] by blast
  next
    assume "Some q = fst (restore os dial rs)"
    then obtain r where "restore os dial rs = (Some q, r)" by (metis prod.collapse)
    then show ?thesis using restore_session_of p [OF restore_turn.in_turn_axioms] by blast
  qed
  then show ?thesis using start_inv asks_in_turn by (fastforce simp: conf_inv_def closed_once_def)
qed

theorem client_speaks_in_turn_witness:
  "\<exists>q. detach (\<lambda>_. Inr detach_script) sample_detach = (Some q, Inr ())
     \<and> path (Idle, q_in detach_script) (q_trace q) (Shut, q_in q) \<and> closed_once q"
proof -
  let ?run = "detach (\<lambda>_. Inr detach_script) sample_detach"
  have "fst ?run \<noteq> None" "snd ?run = Inr ()" by code_simp+
  then obtain q where q: "?run = (Some q, Inr ())" by (metis option.exhaust prod.collapse)
  have d: "fresh c \<and> q_in c = q_in detach_script" if "(\<lambda>_. Inr detach_script) s = Inr c" for s :: string and c
    using that fresh_script by (auto simp: detach_script_def)
  note turn = client_speaks_in_turn [of "\<lambda>_. Inr detach_script" "q_in detach_script" q sample_tree attachFlags_register
      sample_detach memoryFlags_register saveFlags_register restoreFlags_register]
  have "path (Idle, q_in detach_script) (q_trace q) (Shut, q_in q) \<and> closed_once q"
    by (rule conjI [OF turn [THEN conjunct1] turn [THEN conjunct2, THEN conjunct1]]) (use d q in auto)
  then show ?thesis using q by blast
qed

end
