(* ===== verification/Qmp_Messages.thy ===== *)
theory Qmp_Messages
  imports Qmp_Order
begin

text \<open>
  What \<^verbatim>\<open>cmd/spin-machine\<close> makes of the bytes QEMU writes: \<^verbatim>\<open>json.Decoder\<close> on a monitor's socket, with
  \<^verbatim>\<open>qmpMessage\<close> and \<^verbatim>\<open>qmpError\<close> as what it decodes into. The connections of \<open>Qmp\<close> hold the outcome of
  each \<^verbatim>\<open>Decode\<close>; here that outcome is computed from the text.

  A struct is filled key by key, in the order of the text: a key that comes twice is read twice into
  the same place, so that the members of two \<^verbatim>\<open>data\<close> objects mix; null leaves a string or a struct as
  it is and takes the error back; a value of another type is an error once the whole text is read,
  and the next value follows. A text that is no JSON is an error from there on.
\<close>

subsection \<open>A message\<close>

fun data_field :: "string \<Rightarrow> (string \<times> json) list \<Rightarrow> string option" where
  "data_field dev [] = Some dev"
| "data_field dev ((k, j) # kvs) =
     (if fold_name k = ''data'' then
        (case j of
           JObj ms \<Rightarrow> (case str_field ''device'' dev ms of None \<Rightarrow> None | Some d \<Rightarrow> data_field d kvs)
         | JNull \<Rightarrow> data_field dev kvs
         | _ \<Rightarrow> None)
      else data_field dev kvs)"

definition decode_error :: "(string \<times> string) option \<Rightarrow> (string \<times> json) list \<Rightarrow> (string \<times> string) option" where
  "decode_error e ms = (case (case e of None \<Rightarrow> ([], []) | Some p \<Rightarrow> p) of (cls, desc) \<Rightarrow>
     (case str_field ''class'' cls ms of None \<Rightarrow> None | Some c \<Rightarrow> map_option (Pair c) (str_field ''desc'' desc ms)))"

fun error_field :: "(string \<times> string) option \<Rightarrow> (string \<times> json) list \<Rightarrow> (string \<times> string) option option" where
  "error_field e [] = Some e"
| "error_field e ((k, j) # kvs) =
     (if fold_name k = ''error'' then
        (case j of
           JObj ms \<Rightarrow> (case decode_error e ms of None \<Rightarrow> None | Some p \<Rightarrow> error_field (Some p) kvs)
         | JNull \<Rightarrow> error_field None kvs
         | _ \<Rightarrow> None)
      else error_field e kvs)"

fun return_field :: "json option \<Rightarrow> (string \<times> json) list \<Rightarrow> json option" where
  "return_field r [] = r"
| "return_field r ((k, j) # kvs) = return_field (if fold_name k = ''return'' then Some j else r) kvs"

definition zero_message :: qmpMessage where
  "zero_message = \<lparr>qm_Event = [], qm_Device = [], qm_Return = None, qm_Error = None\<rparr>"

definition decode_message :: "json \<Rightarrow> qmpMessage option" where
  "decode_message j = (case j of
      JObj kvs \<Rightarrow>
        (case (str_field ''event'' [] kvs, data_field [] kvs, error_field None kvs) of
           (Some ev, Some dev, Some err) \<Rightarrow>
             Some \<lparr>qm_Event = ev, qm_Device = dev, qm_Return = return_field None kvs, qm_Error = err\<rparr>
         | _ \<Rightarrow> None)
    | JNull \<Rightarrow> Some zero_message
    | _ \<Rightarrow> None)"

text \<open>The greeting is decoded into a \<^verbatim>\<open>json.RawMessage\<close>, which takes any value and is not looked at.\<close>

definition raw_message :: "json \<Rightarrow> qmpMessage option" where
  "raw_message j = Some zero_message"

text \<open>The outcomes of one \<^verbatim>\<open>Decode\<close> after another, for what each decodes into; \<open>words\<close> is what the
  package says of a text it could not decode.\<close>

fun decodes :: "(string \<Rightarrow> string) \<Rightarrow> (json \<Rightarrow> qmpMessage option) list \<Rightarrow> string \<Rightarrow> inbound list" where
  "decodes words [] s = []"
| "decodes words (f # fs) s =
     (if skip s = [] then map (\<lambda>_. RecvFail eof) (f # fs)
      else (case read_value (Suc (length s)) s of
          None \<Rightarrow> map (\<lambda>_. RecvFail (RecvOther (words s))) (f # fs)
        | Some (j, r) \<Rightarrow> (case f j of Some m \<Rightarrow> Recv m | None \<Rightarrow> RecvFail (RecvOther (words s))) # decodes words fs r))"

subsection \<open>What QEMU says\<close>

text \<open>What a monitor says after its greeting: an event, with the device it is about if any, the return
  value of a command, or the class and description of its refusal. Whatever else is in the
  object, and in whatever order, its names are in lower case and each is there once.\<close>

datatype qmp_line = EventLine string string | ReturnLine json | ErrorLine string string

definition object_member :: "(string \<times> json) list \<Rightarrow> string \<Rightarrow> (string \<times> json) list option" where
  "object_member kvs k = (case map_of kvs k of Some (JObj ms) \<Rightarrow> if plain_keys ms then Some ms else None | _ \<Rightarrow> None)"

fun says_members :: "qmp_line \<Rightarrow> (string \<times> json) list \<Rightarrow> bool" where
  "says_members (EventLine ev dev) kvs = (text_member kvs ''event'' = Some ev
     \<and> (map_of kvs ''data'' = None \<and> dev = []
        \<or> (case object_member kvs ''data'' of None \<Rightarrow> False
           | Some ms \<Rightarrow> map_of ms ''device'' = None \<and> dev = [] \<or> text_member ms ''device'' = Some dev))
     \<and> map_of kvs ''return'' = None \<and> map_of kvs ''error'' = None)"
| "says_members (ReturnLine v) kvs = (map_of kvs ''return'' = Some v
     \<and> map_of kvs ''event'' = None \<and> map_of kvs ''data'' = None \<and> map_of kvs ''error'' = None)"
| "says_members (ErrorLine cls desc) kvs = ((case object_member kvs ''error'' of None \<Rightarrow> False
       | Some ms \<Rightarrow> text_member ms ''class'' = Some cls \<and> text_member ms ''desc'' = Some desc)
     \<and> map_of kvs ''event'' = None \<and> map_of kvs ''data'' = None \<and> map_of kvs ''return'' = None)"

definition says :: "qmp_line \<Rightarrow> json \<Rightarrow> bool" where
  "says l j = (case j of JObj kvs \<Rightarrow> plain_keys kvs \<and> says_members l kvs | _ \<Rightarrow> False)"

fun understood :: "qmp_line \<Rightarrow> qmpMessage" where
  "understood (EventLine ev dev) = zero_message\<lparr>qm_Event := ev, qm_Device := dev\<rparr>"
| "understood (ReturnLine v) = zero_message\<lparr>qm_Return := Some v\<rparr>"
| "understood (ErrorLine cls desc) = zero_message\<lparr>qm_Error := Some (cls, desc)\<rparr>"

subsection \<open>Fields and members\<close>

lemma data_field_member:
  "plain_keys kvs \<Longrightarrow> data_field dev kvs =
     (case map_of kvs ''data'' of None \<Rightarrow> Some dev | Some (JObj ms) \<Rightarrow> str_field ''device'' dev ms | Some JNull \<Rightarrow> Some dev | _ \<Rightarrow> None)"
proof (induction kvs arbitrary: dev)
  case (Cons p kvs)
  obtain k j where p: "p = (k, j)" by force
  then have k: "fold_name k = k" "map_of kvs k = None" and IH: "\<And>dev. data_field dev kvs = (case map_of kvs ''data'' of
      None \<Rightarrow> Some dev | Some (JObj ms) \<Rightarrow> str_field ''device'' dev ms | Some JNull \<Rightarrow> Some dev | _ \<Rightarrow> None)"
    using Cons by (simp_all only: plain_keys_Cons)
  show ?case
  proof (cases "k = ''data''")
    case True
    then show ?thesis unfolding p data_field.simps k(1) IH using k(2) by (simp split: json.split option.split)
  next
    case False
    then show ?thesis unfolding p data_field.simps k(1) IH by simp
  qed
qed simp

lemma error_field_member:
  "plain_keys kvs \<Longrightarrow> error_field e kvs =
     (case map_of kvs ''error'' of None \<Rightarrow> Some e | Some (JObj ms) \<Rightarrow> map_option Some (decode_error e ms) | Some JNull \<Rightarrow> Some None | _ \<Rightarrow> None)"
proof (induction kvs arbitrary: e)
  case (Cons p kvs)
  obtain k j where p: "p = (k, j)" by force
  then have k: "fold_name k = k" "map_of kvs k = None" and IH: "\<And>e. error_field e kvs = (case map_of kvs ''error'' of
      None \<Rightarrow> Some e | Some (JObj ms) \<Rightarrow> map_option Some (decode_error e ms) | Some JNull \<Rightarrow> Some None | _ \<Rightarrow> None)"
    using Cons by (simp_all only: plain_keys_Cons)
  show ?case
  proof (cases "k = ''error''")
    case True
    then show ?thesis unfolding p error_field.simps k(1) IH using k(2) by (simp split: json.split option.split)
  next
    case False
    then show ?thesis unfolding p error_field.simps k(1) IH by simp
  qed
qed simp

lemma return_field_member:
  "plain_keys kvs \<Longrightarrow> return_field r kvs = (case map_of kvs ''return'' of None \<Rightarrow> r | Some v \<Rightarrow> Some v)"
  by (induction kvs arbitrary: r) (auto simp: plain_keys_Cons)

lemma decode_says:
  assumes "says l j"
  shows "decode_message j = Some (understood l)"
proof -
  obtain kvs where j: "j = JObj kvs" and plain: "plain_keys kvs" and l: "says_members l kvs"
    using assms by (auto simp: says_def split: json.splits)
  note fields = str_field_member [OF plain] data_field_member [OF plain] error_field_member [OF plain] return_field_member [OF plain]
  show ?thesis
  proof (cases l)
    case (EventLine ev dev)
    then show ?thesis using l unfolding j
      by (auto simp: decode_message_def fields text_member_def object_member_def str_field_member zero_message_def
          split: option.splits json.splits if_splits)
  next
    case (ReturnLine v)
    then show ?thesis using l unfolding j by (simp add: decode_message_def fields zero_message_def)
  next
    case (ErrorLine cls desc)
    then show ?thesis using l unfolding j
      by (auto simp: decode_message_def fields text_member_def object_member_def str_field_member zero_message_def decode_error_def
          split: option.splits json.splits if_splits)
  qed
qed

subsection \<open>A stream of messages\<close>

text \<open>A message on the wire: what it says, the white space before it and its text, which is any text
  read as an object that says it.\<close>

type_synonym spoken = "qmp_line \<times> string \<times> string"

definition written :: "spoken \<Rightarrow> bool" where
  "written = (\<lambda>(l, w, t). (\<exists>j. reads t j \<and> says l j) \<and> spaces w \<and> w \<noteq> [])"

definition bytes :: "spoken list \<Rightarrow> string" where
  "bytes ls = concat (map (\<lambda>(l, w, t). w @ t) ls)"

definition parted :: "string \<Rightarrow> bool" where
  "parted s = (s = [] \<or> \<not> number_char (hd s))"

lemma bytes_simps [simp]: "bytes [] = []" "bytes ((l, w, t) # ls) = w @ t @ bytes ls" "bytes (ls @ ks) = bytes ls @ bytes ks"
  by (simp_all add: bytes_def)

lemma parted_bytes: "list_all written ls \<Longrightarrow> parted s \<Longrightarrow> parted (bytes ls @ s)"
  by (cases ls) (auto simp: parted_def written_def spaces_def json_space_def number_char_def is_digit_def neq_Nil_conv)

lemma decodes_value:
  assumes "reads t j" and "spaces w" and "parted s"
  shows "decodes words (f # fs) (w @ t @ s) =
    (case f j of Some m \<Rightarrow> Recv m | None \<Rightarrow> RecvFail (RecvOther (words (w @ t @ s)))) # decodes words fs s"
proof -
  let ?n = "Suc (length (w @ t @ s))"
  have "read_value ?n (t @ s) = Some (j, s)" using assms(1,3) unfolding reads_def parted_def by (metis length_append less_Suc_eq_le trans_le_add1 trans_le_add2 le_refl)
  then have "read_value ?n (w @ t @ s) = Some (j, s)" unfolding read_value_space [OF assms(2)] .
  moreover have "skip (w @ t @ s) \<noteq> []" using assms(1,2) by (simp add: reads_def)
  ultimately show ?thesis by simp
qed

lemma decodes_written:
  "list_all written ls \<Longrightarrow> parted s \<Longrightarrow>
     decodes words (replicate (length ls) decode_message @ fs) (bytes ls @ s) = map (\<lambda>l. Recv (understood (fst l))) ls @ decodes words fs s"
proof (induction ls)
  case (Cons x ls)
  obtain l w t where x: "x = (l, w, t)" by (cases x)
  with Cons obtain j where j: "reads t j" "says l j" "spaces w" by (auto simp: written_def)
  have "parted (bytes ls @ s)" using Cons by (intro parted_bytes) simp_all
  then show ?case
    using decodes_value [OF j(1,3), of "bytes ls @ s" words decode_message] decode_says [OF j(2)] Cons x by simp
qed simp

definition event_line :: "qmp_line \<Rightarrow> bool" where
  "event_line l = (case l of EventLine ev dev \<Rightarrow> ev \<noteq> [] | _ \<Rightarrow> False)"

definition reply_line :: "qmp_line \<Rightarrow> bool" where
  "reply_line l = (case l of EventLine _ _ \<Rightarrow> False | _ \<Rightarrow> True)"

definition heard :: "string \<Rightarrow> qmp_line \<Rightarrow> (qmp_error, json option) result" where
  "heard cmd l = (case l of ErrorLine cls desc \<Rightarrow> Inl (Refused cmd cls desc) | ReturnLine v \<Rightarrow> Inr (Some v) | EventLine _ _ \<Rightarrow> Inr None)"

fun devices_gone :: "qmp_line list \<Rightarrow> string list" where
  "devices_gone [] = []"
| "devices_gone (EventLine ev dev # ls) = (if ev = ''DEVICE_DELETED'' then [dev] else []) @ devices_gone ls"
| "devices_gone (_ # ls) = devices_gone ls"

lemma understood_events:
  "list_all (\<lambda>l. event_line (fst l)) ls \<Longrightarrow> list_all is_event (map (\<lambda>l. Recv (understood (fst l))) ls)
     \<and> deleted_ids (map (\<lambda>l. Recv (understood (fst l))) ls) = devices_gone (map fst ls)"
  by (induction ls) (auto simp: event_line_def is_event_def split: qmp_line.splits)

lemma run_hears:
  assumes "list_all written (evs @ [a])" and "list_all (\<lambda>l. event_line (fst l)) evs" and "reply_line (fst a)" and "parted s"
    and "q_writes q = None" and "q_in q = decodes words (replicate (Suc (length evs)) decode_message @ fs) (bytes (evs @ [a]) @ s)"
  shows "\<exists>q'. qmp_run cmd args q = (q', heard cmd (fst a)) \<and> q_deleted q' = q_deleted q @ devices_gone (map fst evs)
    \<and> q_in q' = decodes words fs s \<and> q_deadlines q' = q_deadlines q"
proof -
  let ?es = "map (\<lambda>l. Recv (understood (fst l))) evs"
  have "q_in q = ?es @ Recv (understood (fst a)) # decodes words fs s"
    using decodes_written [OF assms(1,4), of words fs] assms(6) by simp
  moreover have "qm_Event (understood (fst a)) = []" using assms(3) by (cases "fst a") (simp_all add: reply_line_def zero_message_def)
  moreover have "(case qm_Error (understood (fst a)) of Some (cls, desc) \<Rightarrow> Inl (Refused cmd cls desc) | None \<Rightarrow> Inr (qm_Return (understood (fst a))))
      = heard cmd (fst a)"
    using assms(3) by (cases "fst a") (simp_all add: reply_line_def heard_def zero_message_def)
  ultimately show ?thesis
    using run_stream [of q ?es "understood (fst a)" _ cmd args] understood_events [OF assms(2)] assms(5) by simp
qed

subsection \<open>Samples\<close>

definition crlf :: string where
  "crlf = [CHR 0x0D, CHR 0x0A]"

definition gone_event :: json where
  "gone_event = JObj [(''timestamp'', JObj [(''seconds'', JInt 1), (''microseconds'', JInt 2)]), (''event'', JStr ''DEVICE_DELETED''),
     (''data'', JObj [(''device'', JStr ''hd3''), (''path'', JStr ''/machine/peripheral/hd3'')])]"

definition done_reply :: json where
  "done_reply = JObj [(''return'', JObj [])]"

definition greeting_sample :: json where
  "greeting_sample = JObj [(''QMP'', JObj [(''version'', JObj []), (''capabilities'', JArr [JStr ''oob''])])]"

definition sample_events :: "spoken list" where
  "sample_events = [(EventLine ''DEVICE_DELETED'' ''hd3'', crlf, json_text gone_event)]"

definition sample_answer :: spoken where
  "sample_answer = (ReturnLine (JObj []), crlf, json_text done_reply)"

lemma json_text_written: "no_other j \<Longrightarrow> utf8_json j \<Longrightarrow> says l j \<Longrightarrow> written (l, crlf, json_text j)"
  using utf8_reads [of j] by (auto simp: written_def crlf_def spaces_def json_space_def)

lemma sample_written: "list_all written (sample_events @ [sample_answer])"
proof -
  have "no_other gone_event" "utf8_json gone_event" "says (EventLine ''DEVICE_DELETED'' ''hd3'') gone_event" by code_simp+
  moreover have "no_other done_reply" "utf8_json done_reply" "says (ReturnLine (JObj [])) done_reply" by code_simp+
  ultimately show ?thesis by (simp add: sample_events_def sample_answer_def json_text_written)
qed

subsection \<open>Properties\<close>

text \<open>C19: What QEMU writes is what \<^verbatim>\<open>run\<close> hears. However QEMU lays out its JSON, in whatever order
  and with whatever else is in it, the bytes of some events and a reply are decoded, message by
  message, into what they say: \<^verbatim>\<open>run\<close> passes over the events, keeps the ids of the devices reported
  deleted, returns the value of a return or the class and description of an error, and leaves
  what comes after for the next. The handshake takes any greeting, whatever it holds, and then
  the reply to its own command.\<close>

theorem run_hears_what_qemu_wrote:
  assumes "list_all written (evs @ [a])" and "list_all (\<lambda>l. event_line (fst l)) evs" and "reply_line (fst a)" and "parted s"
    and "q_writes q = None"
  shows "(q_in q = decodes words (replicate (Suc (length evs)) decode_message @ fs) (bytes (evs @ [a]) @ s)
      \<longrightarrow> (\<exists>q'. qmp_run cmd args q = (q', heard cmd (fst a)) \<and> q_deleted q' = q_deleted q @ devices_gone (map fst evs)
             \<and> q_in q' = decodes words fs s))
    \<and> (q_in q = decodes words (raw_message # replicate (Suc (length evs)) decode_message @ fs) (g @ bytes (evs @ [a]) @ s)
         \<and> reads g j \<and> fst a = ReturnLine v \<and> q_deadlines q = None
      \<longrightarrow> (\<exists>q'. handshake q = (q', Inr ()) \<and> q_in q' = decodes words fs s))"
proof (intro conjI impI; (elim conjE)?)
  assume "q_in q = decodes words (replicate (Suc (length evs)) decode_message @ fs) (bytes (evs @ [a]) @ s)"
  from run_hears [OF assms this] show "\<exists>q'. qmp_run cmd args q = (q', heard cmd (fst a))
      \<and> q_deleted q' = q_deleted q @ devices_gone (map fst evs) \<and> q_in q' = decodes words fs s" by blast
next
  let ?rest = "decodes words (replicate (Suc (length evs)) decode_message @ fs) (bytes (evs @ [a]) @ s)"
  assume ins: "q_in q = decodes words (raw_message # replicate (Suc (length evs)) decode_message @ fs) (g @ bytes (evs @ [a]) @ s)"
    and g: "reads g j" and a: "fst a = ReturnLine v" and d: "q_deadlines q = None"
  have "q_in q = Recv zero_message # ?rest"
    unfolding ins using decodes_value [OF g nothing_spaces parted_bytes [OF assms(1,4)], of words raw_message]
    by (simp add: raw_message_def)
  then obtain q1 where q1: "recv q = (q1, Inr zero_message)" "q_in q1 = ?rest" "q_writes q1 = None" "q_deadlines q1 = None"
    using assms(5) d by (simp add: recv_def)
  from run_hears [OF assms(1-4) q1(3,2)] obtain q2 where "qmp_run ''qmp_capabilities'' None q1 = (q2, Inr (Some v))"
    "q_in q2 = decodes words fs s" "q_deadlines q2 = None"
    using a q1(4) by (auto simp: heard_def)
  then show "\<exists>q'. handshake q = (q', Inr ()) \<and> q_in q' = decodes words fs s" using q1(1) d by (simp add: handshake_def)
qed

theorem run_hears_what_qemu_wrote_witness:
  "(\<exists>q'. qmp_run ''device_del'' None (script (decodes id [decode_message, decode_message] (bytes (sample_events @ [sample_answer]))))
        = (q', Inr (Some (JObj []))) \<and> q_deleted q' = [''hd3''] \<and> q_in q' = [])
   \<and> (\<exists>q'. handshake (script (decodes id [raw_message, decode_message, decode_message]
          (json_text greeting_sample @ bytes (sample_events @ [sample_answer])))) = (q', Inr ()) \<and> q_in q' = [])"
proof -
  let ?b = "bytes (sample_events @ [sample_answer])"
  let ?q = "script (decodes id [decode_message, decode_message] ?b)"
  let ?c = "script (decodes id [raw_message, decode_message, decode_message] (json_text greeting_sample @ ?b))"
  have sample: "list_all (\<lambda>l. event_line (fst l)) sample_events" "reply_line (fst sample_answer)" "fst sample_answer = ReturnLine (JObj [])"
    "devices_gone (map fst sample_events) = [''hd3'']" "length sample_events = 1"
    by (simp_all add: sample_events_def sample_answer_def event_line_def reply_line_def)
  have p: "parted []" by (simp add: parted_def)
  have w: "q_writes (script is) = None" "q_in (script is) = is" "q_deleted (script is) = []" "q_deadlines (script is) = None" for "is"
    by (simp_all add: script_def)
  have "no_other greeting_sample" by code_simp
  note g = json_text_reads [OF this]
  note heard = run_hears_what_qemu_wrote [OF sample_written sample(1,2) p w(1), where fs = "[]" and words = id]
  have "\<exists>q'. qmp_run ''device_del'' None ?q = (q', Inr (Some (JObj []))) \<and> q_deleted q' = [''hd3''] \<and> q_in q' = []"
    using heard [THEN conjunct1, of "decodes id [decode_message, decode_message] ?b" "''device_del''" None] sample(3-5) w by (simp add: heard_def)
  moreover have "\<exists>q'. handshake ?c = (q', Inr ()) \<and> q_in q' = []"
    using heard [THEN conjunct2, of "decodes id [raw_message, decode_message, decode_message] (json_text greeting_sample @ ?b)" "json_text greeting_sample"]
      g sample(3,5) w by simp
  ultimately show ?thesis by blast
qed

end
