(* ===== verification/Boot_Phases.thy ===== *)
theory Boot_Phases
  imports Go_Strings
begin

text \<open>
  What a boot cost, from its console: \<^verbatim>\<open>boot/phases.go\<close>.

  \<open>Watch\<close> takes the reads of a console one by one, each the bytes it returned, the clock after
  it and its error, and records for each phase the time of the first read after which its marker
  is in the window: the end of what was read before, one byte shorter than the longest marker,
  and the new bytes. \<open>Watch_spec\<close> is the same search over everything read so far. They are
  shown equal: the window finds a marker exactly when the whole output has it, however the
  console's bytes are split into reads.
\<close>

datatype phase = Firmware | Kernel | PID1 | Started | Usable

definition phases :: "phase list" where
  "phases = [Firmware, Kernel, PID1, Started, Usable]"

fun Phase_String :: "phase \<Rightarrow> string" where
  "Phase_String Firmware = ''firmware''"
| "Phase_String Kernel = ''kernel''"
| "Phase_String PID1 = ''pid1''"
| "Phase_String Started = ''started''"
| "Phase_String Usable = ''usable''"

fun markers :: "phase \<Rightarrow> string list" where
  "markers Firmware = [''SeaBIOS'']"
| "markers Kernel = [''Linux version'']"
| "markers PID1 = [''Run /sbin/init as init process'']"
| "markers Started = [''Startup finished'']"
| "markers Usable = [''login:'']"

definition overlap :: nat where
  "overlap = fold (\<lambda>m n. max n (length m - 1)) (concat (map markers phases)) 0"

record run_result =
  run_At :: "phase \<rightharpoonup> int"
  run_Output :: string

definition Reached :: "run_result \<Rightarrow> phase \<Rightarrow> bool" where
  "Reached r p = (run_At r p \<noteq> None)"

datatype console_error = EOF | ConsoleError string

record console_read =
  rd_bytes :: string
  rd_now :: int
  rd_err :: "console_error option"

text \<open>The loop over the phases after a read: those not reached yet whose marker is there.\<close>

definition stamp :: "(string \<Rightarrow> bool) \<Rightarrow> int \<Rightarrow> run_result \<Rightarrow> run_result" where
  "stamp found at r = r\<lparr>run_At := (\<lambda>p. if Reached r p then run_At r p
     else if list_ex found (markers p) then Some at else None)\<rparr>"

definition keep_end :: "nat \<Rightarrow> string \<Rightarrow> string" where
  "keep_end n s = (if length s > n then drop (length s - n) s else s)"

text \<open>The loop of \<^verbatim>\<open>Watch\<close>. A console with no more reads has ended.\<close>

fun watch_from :: "int \<Rightarrow> phase \<Rightarrow> run_result \<Rightarrow> string \<Rightarrow> console_read list \<Rightarrow> run_result \<times> console_error option" where
  "watch_from t0 until r window [] = (r, None)"
| "watch_from t0 until r window (rd # rds) =
     (let n = length (rd_bytes rd);
          at = rd_now rd - t0;
          w = (if n > 0 then window @ rd_bytes rd else window);
          r' = (if n > 0 then stamp (Contains w) at (r\<lparr>run_Output := run_Output r @ rd_bytes rd\<rparr>) else r)
      in if n > 0 \<and> Reached r' until then (r', None)
         else (let w' = (if n > 0 then keep_end overlap w else w) in
               case rd_err rd of
                 Some EOF \<Rightarrow> (r', None)
               | Some e \<Rightarrow> (r', Some e)
               | None \<Rightarrow> watch_from t0 until r' w' rds))"

definition no_run :: run_result where
  "no_run = \<lparr>run_At = Map.empty, run_Output = []\<rparr>"

definition Watch :: "console_read list \<Rightarrow> int \<Rightarrow> phase \<Rightarrow> run_result \<times> console_error option" where
  "Watch rds t0 until = watch_from t0 until no_run [] rds"

text \<open>The same, looking at all that was read.\<close>

fun watch_all :: "int \<Rightarrow> phase \<Rightarrow> run_result \<Rightarrow> console_read list \<Rightarrow> run_result \<times> console_error option" where
  "watch_all t0 until r [] = (r, None)"
| "watch_all t0 until r (rd # rds) =
     (if rd_bytes rd = [] then
        (case rd_err rd of Some EOF \<Rightarrow> (r, None) | Some e \<Rightarrow> (r, Some e) | None \<Rightarrow> watch_all t0 until r rds)
      else (let out = run_Output r @ rd_bytes rd;
                r' = stamp (Contains out) (rd_now rd - t0) (r\<lparr>run_Output := out\<rparr>)
            in if Reached r' until then (r', None)
               else (case rd_err rd of
                       Some EOF \<Rightarrow> (r', None) | Some e \<Rightarrow> (r', Some e) | None \<Rightarrow> watch_all t0 until r' rds)))"

definition Watch_spec :: "console_read list \<Rightarrow> int \<Rightarrow> phase \<Rightarrow> run_result \<times> console_error option" where
  "Watch_spec rds t0 until = watch_all t0 until no_run rds"

subsection \<open>The window loses nothing\<close>

lemma keep_end_suffix: "\<exists>a. s = a @ keep_end n s"
  by (auto simp: keep_end_def intro: exI [of _ "take (length s - n) s"] exI [of _ "[]"])

lemma Contains_keep_end:
  assumes "\<not> Contains out m" and "length m \<le> n + 1"
  shows "Contains (keep_end n out @ s) m \<longleftrightarrow> Contains (out @ s) m"
proof
  assume "Contains (keep_end n out @ s) m"
  moreover obtain a where "out = a @ keep_end n out" using keep_end_suffix by blast
  ultimately show "Contains (out @ s) m" by (metis Contains_mono append_assoc)
next
  assume "Contains (out @ s) m"
  then obtain a b where ab: "out @ s = a @ m @ b" by (auto simp: Contains_iff)
  have short: "length a + length m > length out"
  proof (rule ccontr)
    assume "\<not> length a + length m > length out"
    then have "out = take (length out) (a @ m @ b)" and "length (a @ m) \<le> length out" using ab [symmetric] by simp_all
    then have "out = a @ m @ take (length out - length a - length m) b" by simp
    then show False using assms(1) by (auto simp: Contains_iff)
  qed
  show "Contains (keep_end n out @ s) m"
  proof (cases "length out > n")
    case True
    then have "keep_end n out @ s = drop (length out - n) (a @ m @ b)"
      using ab [symmetric] by (simp add: keep_end_def)
    also have "\<dots> = drop (length out - n) a @ m @ b"
      using short assms(2) True by simp
    finally show ?thesis by (auto simp: Contains_iff)
  next
    case False
    then show ?thesis using \<open>Contains (out @ s) m\<close> by (simp add: keep_end_def)
  qed
qed

lemma markers_fit: "m \<in> set (markers p) \<Longrightarrow> length m \<le> overlap + 1"
proof -
  have "overlap = 29" by code_simp
  then show "m \<in> set (markers p) \<Longrightarrow> length m \<le> overlap + 1" by (cases p) auto
qed

lemma keep_end_append: "keep_end n (keep_end n s @ t) = keep_end n (s @ t)"
  by (auto simp: keep_end_def add.commute)

text \<open>What the loop keeps true: the window is the end of the output, and the marker of a phase not
  reached is not in the output.\<close>

definition watch_inv :: "run_result \<Rightarrow> string \<Rightarrow> bool" where
  "watch_inv r w = (w = keep_end overlap (run_Output r)
     \<and> (\<forall>p. \<not> Reached r p \<longrightarrow> \<not> list_ex (Contains (run_Output r)) (markers p)))"

lemma watch_inv_init: "watch_inv no_run []"
proof -
  have "\<not> list_ex (Contains []) (markers p)" for p by (cases p) simp_all
  then show ?thesis by (simp add: watch_inv_def no_run_def keep_end_def)
qed

lemma stamp_window:
  assumes "watch_inv r w"
  shows "stamp (Contains (w @ s)) at (r\<lparr>run_Output := run_Output r @ s\<rparr>)
    = stamp (Contains (run_Output r @ s)) at (r\<lparr>run_Output := run_Output r @ s\<rparr>)"
proof -
  have "list_ex (Contains (w @ s)) (markers p) = list_ex (Contains (run_Output r @ s)) (markers p)"
    if "\<not> Reached r p" for p
  proof -
    have "Contains (w @ s) m = Contains (run_Output r @ s) m" if "m \<in> set (markers p)" for m
      using assms \<open>\<not> Reached r p\<close> that markers_fit
      by (auto simp: watch_inv_def list_ex_iff intro!: Contains_keep_end)
    then show ?thesis by (auto simp: list_ex_iff)
  qed
  then show ?thesis by (simp add: stamp_def Reached_def fun_eq_iff)
qed

lemma stamp_inv:
  assumes "watch_inv r w"
  shows "watch_inv (stamp (Contains (run_Output r @ s)) at (r\<lparr>run_Output := run_Output r @ s\<rparr>)) (keep_end overlap (w @ s))"
  using assms by (auto simp: watch_inv_def stamp_def Reached_def keep_end_append)

lemma watch_from_all: "watch_inv r w \<Longrightarrow> watch_from t0 until r w rds = watch_all t0 until r rds"
proof (induction t0 until r rds arbitrary: w rule: watch_all.induct)
  case (1 t0 until r)
  then show ?case by simp
next
  case (2 t0 until r rd rds)
  show ?case
  proof (cases "rd_bytes rd = []")
    case True
    then show ?thesis using 2(1) [OF True] 2(3) by (simp split: option.splits console_error.splits)
  next
    case False
    let ?r' = "stamp (Contains (run_Output r @ rd_bytes rd)) (rd_now rd - t0) (r\<lparr>run_Output := run_Output r @ rd_bytes rd\<rparr>)"
    have "watch_from t0 until ?r' (keep_end overlap (w @ rd_bytes rd)) rds = watch_all t0 until ?r' rds"
      if "\<not> Reached ?r' until" "rd_err rd = None"
      by (rule 2(2) [OF False refl refl that]) (rule stamp_inv [OF 2(3)])
    then show ?thesis using False stamp_window [OF 2(3)] by (simp add: Let_def split: option.splits console_error.splits)
  qed
qed

definition seen_iff_reached :: "run_result \<Rightarrow> bool" where
  "seen_iff_reached r = (\<forall>p. Reached r p \<longleftrightarrow> list_ex (Contains (run_Output r)) (markers p))"

lemma stamp_seen:
  assumes "seen_iff_reached r"
  shows "seen_iff_reached (stamp (Contains (run_Output r @ s)) at (r\<lparr>run_Output := run_Output r @ s\<rparr>))"
proof -
  have "list_ex (Contains (run_Output r @ s)) (markers p)" if "list_ex (Contains (run_Output r)) (markers p)" for p
    using that Contains_mono_right by (auto simp: list_ex_iff)
  then show ?thesis using assms by (auto simp: seen_iff_reached_def stamp_def Reached_def)
qed

lemma watch_all_seen: "seen_iff_reached r \<Longrightarrow> seen_iff_reached (fst (watch_all t0 until r rds))"
proof (induction t0 until r rds rule: watch_all.induct)
  case (1 t0 until r)
  then show ?case by simp
next
  case (2 t0 until r rd rds)
  show ?case
  proof (cases "rd_bytes rd = []")
    case True
    then show ?thesis using 2(1) [OF True] 2(3) by (simp split: option.splits console_error.splits)
  next
    case False
    show ?thesis
      using 2(2) [OF False refl refl] stamp_seen [OF 2(3), of "rd_bytes rd" "rd_now rd - t0"] False
      by (simp add: Let_def split: option.splits console_error.splits)
  qed
qed

lemma seen_init: "seen_iff_reached no_run"
proof -
  have "\<not> list_ex (Contains []) (markers p)" for p by (cases p) simp_all
  then show ?thesis by (simp add: seen_iff_reached_def no_run_def Reached_def)
qed

subsection \<open>Properties\<close>

text \<open>C26: The watcher of a boot misses nothing and invents nothing. However the console's bytes are
  split into reads, \<^verbatim>\<open>Watch\<close>, which looks only at a window of the stream, records the same phases
  at the same times, keeps the same output and ends in the same way as a search of everything
  read so far after every read.\<close>

theorem watch_sees_the_whole_console: "Watch rds t0 until = Watch_spec rds t0 until"
  unfolding Watch_def Watch_spec_def by (rule watch_from_all) (rule watch_inv_init)

text \<open>A phase counts as reached exactly when its marker is on the console. In whatever \<^verbatim>\<open>Watch\<close>
  returns, early, at the end of the console or with a read error, a phase has a time if and only
  if the output it returned contains that phase's marker.\<close>

theorem phase_reached_iff_on_the_console:
  "Reached (fst (Watch rds t0 until)) p \<longleftrightarrow>
     list_ex (Contains (run_Output (fst (Watch rds t0 until)))) (markers p)"
  using watch_all_seen [OF seen_init, of t0 until rds] watch_from_all [OF watch_inv_init, of t0 until rds]
  by (simp add: Watch_def seen_iff_reached_def)

end
