(* ===== verification/Boot_Report.thy ===== *)
theory Boot_Report
  imports Boot_Phases Go_Float Go_Sort
begin

text \<open>
  Reports of the feature matrix and what changed between two of them: \<^verbatim>\<open>boot/report.go\<close> and
  \<^verbatim>\<open>Percentile\<close> of \<^verbatim>\<open>boot/phases.go\<close>.

  A Go map is the list of its entries, each key once; a \<^verbatim>\<open>float64\<close> of a report is the rational
  number it stands for, and the arithmetic on it rounds as \<open>Go_Float\<close> says. A row's \<^verbatim>\<open>Shape\<close>,
  which is only carried from one JSON file to another, is left out. \<open>section_changes\<close> is what a
  section says of each row, before \<open>change_line\<close> writes it as a line of a Markdown table.

  Shown here: a percentile is the nearest-rank one for the two fractions the reports use, with
  the rounding of \<^verbatim>\<open>float64\<close> in account; and a section accounts for every row of both reports.
\<close>

subsection \<open>Percentiles\<close>

definition percentile_index :: "rat \<Rightarrow> nat \<Rightarrow> nat" where
  "percentile_index p n =
     (let c = int_Ceil (fmul p (fl (of_nat n)));
          i = (if c = - (2 ^ 63) then 2 ^ 63 - 1 else c - 1)
      in nat (min (max i 0) (int n - 1)))"

definition Percentile :: "'a :: linorder list \<Rightarrow> rat \<Rightarrow> 'a option" where
  "Percentile ds p = (if ds = [] then None else Some (sort ds ! percentile_index p (length ds)))"

text \<open>The constants 0.5 and 0.95.\<close>

definition p50 :: rat where
  "p50 = round53 (1 / 2)"

definition p95 :: rat where
  "p95 = round53 (95 / 100)"

subsection \<open>Reports\<close>

record summary =
  sum_P50 :: rat
  sum_P95 :: rat
  sum_N :: int

record boot_result =
  boot_Boots :: int
  boot_Failed :: int
  boot_Error :: string
  boot_Phases :: "(string \<times> summary) list"

record row =
  row_ID :: string
  row_Features :: "(string \<times> string) list"
  row_Args :: "string list"
  row_Fingerprint :: string
  row_Boot :: boot_result

record host =
  host_CPU :: string
  host_Kernel :: string
  host_CPUs :: int

record skipped =
  skip_ID :: string
  skip_Why :: string

record report =
  rep_Release :: string
  rep_Artifacts :: "(string \<times> string) list"
  rep_Host :: host
  rep_Reps :: int
  rep_Flags :: "string list"
  rep_Only :: string
  rep_Login :: string
  rep_Specs :: "row list"
  rep_Variants :: "row list"
  rep_Skipped :: "skipped list"

subsection \<open>Summaries\<close>

text \<open>A duration is nanoseconds, \<^verbatim>\<open>Microseconds\<close> drops what is below one. No division here leaves
  the finite numbers.\<close>

definition rnd :: "rat \<Rightarrow> rat" where
  "rnd x = (if x < 0 then - round53 (- x) else round53 x)"

definition Microseconds :: "int \<Rightarrow> int" where
  "Microseconds d = sgn d * (\<bar>d\<bar> div 1000)"

definition ms :: "int \<Rightarrow> rat" where
  "ms d = rnd (of_int (Round (rnd (rnd (of_int (Microseconds d)) / 10))) / 100)"

definition phase_times :: "run_result list \<Rightarrow> phase \<Rightarrow> int list" where
  "phase_times runs p = List.map_filter (\<lambda>r. run_At r p) runs"

definition phase_summary :: "run_result list \<Rightarrow> phase \<Rightarrow> (string \<times> summary) option" where
  "phase_summary runs p = (let ds = phase_times runs p in
     case Percentile ds p50 of
       None \<Rightarrow> None
     | Some a \<Rightarrow> Some (Phase_String p, \<lparr>sum_P50 = ms a, sum_P95 = ms (the (Percentile ds p95)), sum_N = int (length ds)\<rparr>))"

definition Summarise :: "run_result list \<Rightarrow> string \<Rightarrow> boot_result" where
  "Summarise runs failure =
     (let failed = int (length (filter (\<lambda>r. \<not> Reached r Usable) runs)) in
      \<lparr>boot_Boots = int (length runs), boot_Failed = failed, boot_Error = if failed > 0 then failure else [],
       boot_Phases = List.map_filter (phase_summary runs) phases\<rparr>)"

subsection \<open>Rows that stand for each other\<close>

definition sameAxes :: "row \<Rightarrow> row \<Rightarrow> bool" where
  "sameAxes a b = (if (row_Features a = []) \<noteq> (row_Features b = []) then False
     else list_all (\<lambda>(k, v). case map_of (row_Features b) k of Some w \<Rightarrow> w = v | None \<Rightarrow> True) (row_Features a))"

definition distance :: "string list \<Rightarrow> string list \<Rightarrow> int" where
  "distance a b = sum_list (map (\<lambda>s. let n = int (count_list a s) - int (count_list b s) in max n (- n)) (remdups (a @ b)))"

text \<open>One candidate of \<^verbatim>\<open>nearest\<close>: the best so far, how far it is and whether another is as near.\<close>

definition nearest_step :: "row \<Rightarrow> row \<Rightarrow> (row \<times> int \<times> bool) option \<Rightarrow> (row \<times> int \<times> bool) option" where
  "nearest_step r c st =
     (if \<not> sameAxes r c then st
      else let d = distance (row_Args r) (row_Args c) in
        if row_Features r = [] \<and> d \<noteq> 0 then st
        else (case st of
                None \<Rightarrow> Some (c, d, False)
              | Some (best, n, tie) \<Rightarrow> if d < n then Some (c, d, False) else if d = n then Some (best, n, True) else st))"

definition nearest :: "row \<Rightarrow> row list \<Rightarrow> row option" where
  "nearest r among = (case fold (nearest_step r) among None of Some (best, _, False) \<Rightarrow> Some best | _ \<Rightarrow> None)"

definition only_in :: "row list \<Rightarrow> row list \<Rightarrow> row list" where
  "only_in xs ys = filter (\<lambda>r. row_ID r \<notin> row_ID ` set ys) xs"

definition rename_step :: "row list \<Rightarrow> row list \<Rightarrow> row \<Rightarrow> (string \<rightharpoonup> row) \<Rightarrow> (string \<rightharpoonup> row)" where
  "rename_step olds news r out = (case nearest r olds of
      None \<Rightarrow> out
    | Some ol \<Rightarrow> (case nearest ol news of
          Some back \<Rightarrow> if row_ID back = row_ID r then out(row_ID r \<mapsto> ol) else out
        | None \<Rightarrow> out))"

definition renames :: "row list \<Rightarrow> row list \<Rightarrow> (string \<rightharpoonup> row)" where
  "renames old new = (let olds = only_in old new; news = only_in new old in
     fold (rename_step olds news) news Map.empty)"

subsection \<open>What changed\<close>

definition arrow :: string where
  "arrow = [CHR '' '', CHR 0xE2, CHR 0x86, CHR 0x92, CHR '' '']"

definition outcome :: "row \<Rightarrow> string" where
  "outcome r = (if boot_Boots (row_Boot r) > 0 \<and> boot_Failed (row_Boot r) = boot_Boots (row_Boot r) then ''none'' else ''some'')"

definition usable :: "row \<Rightarrow> string" where
  "usable r = (case map_of (boot_Phases (row_Boot r)) ''usable'' of
      None \<Rightarrow> ''-''
    | Some s \<Rightarrow> decimals 1 (sum_P50 s) @ '' / '' @ decimals 1 (sum_P95 s))"

definition usable_change :: "row \<Rightarrow> row \<Rightarrow> float64 \<Rightarrow> string list" where
  "usable_change ol r threshold =
     (case (map_of (boot_Phases (row_Boot ol)) ''usable'', map_of (boot_Phases (row_Boot r)) ''usable'') of
        (Some a, Some b) \<Rightarrow>
          (let diff = fsub (sum_P50 b) (sum_P50 a) in
           if sum_P50 a > 0 \<and> fgt (fdiv (fabs diff) (sum_P50 a)) threshold
           then [''usable p50 '' @ format_plus 1 (fdiv (fmul 100 diff) (sum_P50 a)) @ ''%''] else [])
      | _ \<Rightarrow> [])"

definition changes :: "row \<Rightarrow> row \<Rightarrow> float64 \<Rightarrow> string list" where
  "changes ol r threshold =
     (if row_Fingerprint ol \<noteq> row_Fingerprint r then [''fingerprint''] else [])
     @ (if row_Args ol \<noteq> row_Args r then [''command line''] else [])
     @ (if (boot_Failed (row_Boot ol) = boot_Boots (row_Boot ol)) \<noteq> (boot_Failed (row_Boot r) = boot_Boots (row_Boot r))
        then [''boots: '' @ outcome ol @ arrow @ outcome r] else [])
     @ usable_change ol r threshold"

text \<open>What a section says of a row: that it is new, that it is gone, or what changed in it.\<close>

datatype change = NewRow row | Changed row row "string list" | GoneRow row

definition before :: "row list \<Rightarrow> (string \<rightharpoonup> row)" where
  "before old = fold (\<lambda>r m. m(row_ID r \<mapsto> r)) old Map.empty"

text \<open>The old row a new row is compared with, and the words its line starts with.\<close>

definition counterpart :: "row list \<Rightarrow> row list \<Rightarrow> row \<Rightarrow> (row \<times> string list) option" where
  "counterpart old new r = (case before old (row_ID r) of
      Some ol \<Rightarrow> Some (ol, [])
    | None \<Rightarrow> (case renames old new (row_ID r) of
          Some ol \<Rightarrow> Some (ol, [''was '' @ row_ID ol])
        | None \<Rightarrow> None))"

definition new_change :: "row list \<Rightarrow> row list \<Rightarrow> float64 \<Rightarrow> row \<Rightarrow> change list" where
  "new_change old new threshold r = (case counterpart old new r of
      None \<Rightarrow> [NewRow r]
    | Some (ol, was) \<Rightarrow> (let what = was @ changes ol r threshold in if what = [] then [] else [Changed ol r what]))"

text \<open>The ids a section has seen: those of the new rows and of the old rows they were.\<close>

definition seen_ids :: "row list \<Rightarrow> row list \<Rightarrow> string set" where
  "seen_ids old new = row_ID ` set new
     \<union> row_ID ` set (List.map_filter (\<lambda>r. if before old (row_ID r) = None then renames old new (row_ID r) else None) new)"

definition section_changes :: "row list \<Rightarrow> row list \<Rightarrow> float64 \<Rightarrow> bool \<Rightarrow> change list" where
  "section_changes old new threshold partial =
     concat (map (new_change old new threshold) new)
     @ map GoneRow (filter (\<lambda>r. row_ID r \<notin> seen_ids old new \<and> \<not> partial) old)"

subsection \<open>Writing it\<close>

fun change_line :: "change \<Rightarrow> string" where
  "change_line (NewRow r) = ''| '' @ row_ID r @ '' | new row | '' @ usable r @ '' |''"
| "change_line (GoneRow r) = ''| '' @ row_ID r @ '' | row gone | '' @ usable r @ '' |''"
| "change_line (Changed ol r what) = ''| '' @ row_ID r @ '' | '' @ Join what '', '' @ '' | '' @ usable ol @ arrow @ usable r @ '' |''"

definition report_section :: "string \<Rightarrow> row list \<Rightarrow> row list \<Rightarrow> float64 \<Rightarrow> bool \<Rightarrow> string" where
  "report_section heading old new threshold partial =
     (let ls = map change_line (section_changes old new threshold partial) in
      newline # ''### '' @ heading @ [newline, newline]
      @ (if ls = [] then ''No row changed beyond '' @ format_f 0 (fmul 100 threshold) @ ''%.'' @ [newline]
         else unlines ([''| row | what changed | usable p50 / p95 (ms) |'', ''|---|---|---|''] @ ls)))"

definition report_name :: "report \<Rightarrow> string" where
  "report_name r = (if rep_Release r = [] then ''an unreleased tree'' else rep_Release r)
     @ (if rep_Flags r \<noteq> [] then '' with '' @ Join (rep_Flags r) '' '' else [])"

definition short_hash :: "string \<Rightarrow> string" where
  "short_hash h = (if length h > 12 then take 12 h else h)"

definition sortedKeys :: "(string \<times> string) list \<Rightarrow> (string \<times> string) list \<Rightarrow> string list" where
  "sortedKeys a b = Sort (map fst a @ filter (\<lambda>k. map_of a k = None) (map fst b))"

definition lookup :: "(string \<times> string) list \<Rightarrow> string \<Rightarrow> string" where
  "lookup m k = (case map_of m k of Some v \<Rightarrow> v | None \<Rightarrow> [])"

definition artifact_line :: "report \<Rightarrow> report \<Rightarrow> string \<Rightarrow> string" where
  "artifact_line old new k = (let a = lookup (rep_Artifacts old) k; b = lookup (rep_Artifacts new) k in
     if a = b then [] else ''- `'' @ k @ ''` changed: `'' @ short_hash a @ ''`'' @ arrow @ ''`'' @ short_hash b @ ''`'' @ [newline])"

definition Diff :: "report \<Rightarrow> report \<Rightarrow> float64 \<Rightarrow> string" where
  "Diff old new threshold =
     ''## '' @ report_name new @ '' against '' @ report_name old @ [newline, newline]
     @ (if rep_Host old \<noteq> rep_Host new then
          ''Measured on different hosts ('' @ host_CPU (rep_Host old) @ '', '' @ decz (host_CPUs (rep_Host old)) @ '' CPUs; ''
          @ host_CPU (rep_Host new) @ '', '' @ decz (host_CPUs (rep_Host new))
          @ '' CPUs): the times below compare two machines, not two releases.'' @ [newline, newline]
        else [])
     @ (if rep_Login old \<noteq> rep_Login new then
          ''The login prompt was reached differently ('' @ rep_Login old @ '', '' @ rep_Login new
          @ ''): the usable column moves by agetty's second for that reason alone.'' @ [newline, newline]
        else [])
     @ concat (map (artifact_line old new) (sortedKeys (rep_Artifacts old) (rep_Artifacts new)))
     @ (let partial = rep_Only new \<noteq> [] in
        report_section ''Feature matrix'' (rep_Specs old) (rep_Specs new) threshold partial
        @ report_section ''Image variants'' (rep_Variants old) (rep_Variants new) threshold partial)"

subsection \<open>Ranks\<close>

lemma p95_value: "p95 = 4278419646001971 / 4503599627370496"
  by code_simp

lemma p50_value: "p50 = 1 / 2"
  by code_simp

text \<open>A product that lies in a unit interval, and not just above its lower end, rounds to a number
  with the same ceiling.\<close>

lemma Ceil_rounded:
  assumes "of_int k - 31 / 32 \<le> x" "x \<le> of_int k" "1 \<le> k" "k < 2 ^ 47"
  shows "int_Ceil (fl x) = k"
proof -
  have k: "of_nat (nat k) = (of_int k :: rat)" "nat k < 2 ^ 47" using assms(3,4) by (simp_all add: of_nat_nat)
  have up: "round53 (of_int k) = of_int k"
    using round53_fixed [of "nat k" 0] k by simp
  let ?m = "32 * (nat k - 1) + 1"
  have m: "(of_nat ?m :: rat) * 2 powi (- 5) = of_int k - 31 / 32"
    using assms(3) k(1) by (simp add: of_nat_diff power_int_minus field_simps)
  have low: "round53 (of_int k - 31 / 32) = of_int k - 31 / 32"
    using round53_fixed [of ?m "- 5"] k(2) unfolding m by simp
  have pos: "0 \<le> of_int k - (31 / 32 :: rat)" using assms(3) by simp
  have "of_int k - 31 / 32 \<le> round53 x" using round53_mono [OF pos assms(1)] low by simp
  moreover have "round53 x \<le> of_int k" using round53_mono [of x "of_int k"] up pos assms(1,2) by simp
  ultimately have c: "\<lceil>round53 x\<rceil> = k" by (simp add: ceiling_eq_iff)
  have "(of_int k :: rat) \<le> of_int (2 ^ 47)" using assms(4) by (simp only: of_int_le_iff)
  also have "\<dots> \<le> 2 ^ 1023" by simp
  finally have "fl x = Fin (round53 x)" using fl_small [of x] pos assms(1,2) by simp
  then show ?thesis using c assms(3,4) by simp
qed

lemma fl_of_nat: "n < 2 ^ 47 \<Longrightarrow> fl (of_nat n) = Fin (of_nat n)"
proof -
  assume n: "n < 2 ^ 47"
  have "(of_nat n :: rat) \<le> of_nat (2 ^ 47)" using n by (simp only: of_nat_le_iff)
  also have "\<dots> \<le> 2 ^ 1023" by simp
  finally have "fl (of_nat n) = Fin (round53 (of_nat n))" using fl_small by simp
  then show ?thesis using round53_fixed [of n 0] n by simp
qed

definition fractions :: "(rat \<times> rat) set" where
  "fractions = {(p50, 1 / 2), (p95, 19 / 20)}"

lemma percentile_index_ceil:
  "int_Ceil (fmul p (fl (of_nat n))) = c \<Longrightarrow> 1 \<le> c \<Longrightarrow> c \<le> int n \<Longrightarrow> percentile_index p n = nat (c - 1)"
  by (simp add: percentile_index_def Let_def)

lemma percentile_index_rank:
  assumes "(p, q) \<in> fractions" "0 < n" "n < 2 ^ 47"
  shows "int (percentile_index p n) + 1 = \<lceil>q * of_nat n\<rceil>" "percentile_index p n < n"
proof -
  let ?k = "\<lceil>q * of_nat n\<rceil>"
  have pq: "p = p50 \<and> q = 1 / 2 \<or> p = p95 \<and> q = 19 / 20" using assms(1) by (simp only: fractions_def insert_iff prod.inject empty_iff simp_thms)
  then have q: "0 < q" "q \<le> 1" by auto
  have "20 * q = of_int (if q = 1 / 2 then 10 else 19)" using pq by auto
  then have q20: "20 * q \<in> \<int>" by (metis Ints_of_int)
  have n: "(0 :: rat) < of_nat n" "(of_nat n :: rat) < 140737488355328" using assms(2,3) by simp_all
  have "q * of_nat n \<le> of_nat n" using q(1,2) n(1) by (simp add: mult_left_le_one_le)
  then have kn: "?k \<le> int n" by (metis ceiling_mono ceiling_of_nat)
  have k1: "1 \<le> ?k" using q(1) n(1) by (simp add: one_le_ceiling)
  have "\<exists>i. 20 * (q * of_nat n) = (of_int i :: rat)" using q20 by (metis Ints_cases Ints_mult Ints_of_nat mult.assoc)
  then obtain i where i: "q * of_nat n = of_int i / (20 :: rat)" by (metis nonzero_mult_div_cancel_left zero_neq_numeral)
  have "of_int (20 * (?k - 1)) < (of_int i :: rat)" using i ceiling_correct [of "q * of_nat n"] by (simp add: field_simps)
  then have "20 * (?k - 1) + 1 \<le> i" by linarith
  then have "(of_int (20 * (?k - 1) + 1) :: rat) \<le> of_int i" by (simp only: of_int_le_iff)
  then have "20 * of_int ?k \<le> (of_int i :: rat) + 19" by simp
  then have up: "of_int ?k - 1 + 1 / 20 \<le> q * of_nat n" using i by linarith
  have p: "q * of_nat n - 1 / 160 \<le> p * of_nat n" "p * of_nat n \<le> q * of_nat n"
    using pq n unfolding p50_value p95_value by (elim disjE conjE; hypsubst; linarith)+
  have "int_Ceil (fl (p * of_nat n)) = ?k"
  proof (rule Ceil_rounded)
    show "of_int ?k - 31 / 32 \<le> p * of_nat n" using up p(1) by simp
    show "p * of_nat n \<le> of_int ?k" using p(2) le_of_int_ceiling order_trans by blast
    show "1 \<le> ?k" by (rule k1)
    show "?k < 2 ^ 47" using kn assms(3) by (metis of_nat_less_iff of_nat_numeral of_nat_power order_le_less_trans)
  qed
  then have "int_Ceil (fmul p (fl (of_nat n))) = ?k" by (simp add: fl_of_nat [OF assms(3)])
  then have "percentile_index p n = nat (?k - 1)" by (rule percentile_index_ceil) (fact k1 kn)+
  then show "int (percentile_index p n) + 1 = ?k" "percentile_index p n < n" using k1 kn by linarith+
qed

lemma sorted_ranks:
  fixes s :: "'a :: linorder list"
  assumes "sorted s" "k < length s"
  shows "k < length (filter (\<lambda>d. d \<le> s ! k) s)" "length (filter (\<lambda>d. d < s ! k) s) \<le> k"
proof -
  have s: "s = take (Suc k) s @ drop (Suc k) s" "s = take k s @ drop k s" by simp_all
  have "\<forall>d \<in> set (take (Suc k) s). d \<le> s ! k"
    using assms by (auto simp: in_set_conv_nth less_Suc_eq_le sorted_iff_nth_mono)
  then have "length (filter (\<lambda>d. d \<le> s ! k) (take (Suc k) s)) = Suc k" using assms(2) by (simp add: filter_True)
  then show "k < length (filter (\<lambda>d. d \<le> s ! k) s)"
    using arg_cong [OF s(1), of "\<lambda>s'. length (filter (\<lambda>d. d \<le> s ! k) s')"] by (simp only: filter_append length_append)
  have "\<forall>d \<in> set (drop k s). \<not> d < s ! k"
    using assms by (auto simp: in_set_conv_nth not_less sorted_iff_nth_mono)
  then have "filter (\<lambda>d. d < s ! k) (drop k s) = []" by (simp add: filter_empty_conv)
  moreover have "length (filter (\<lambda>d. d < s ! k) (take k s)) \<le> k" by (rule order_trans [OF length_filter_le]) simp
  ultimately show "length (filter (\<lambda>d. d < s ! k) s) \<le> k"
    using arg_cong [OF s(2), of "\<lambda>s'. length (filter (\<lambda>d. d < s ! k) s')"] by (simp only: filter_append length_append list.size)
qed

lemma length_filter_sort: "length (filter P (sort xs)) = length (filter P xs)"
  by (metis mset_filter mset_sort size_mset)

subsection \<open>Pairs of rows\<close>

lemma distance_commute: "distance a b = distance b a"
proof -
  have "mset (remdups (a @ b)) = mset (remdups (b @ a))" by (rule set_eq_iff_mset_remdups_eq [THEN iffD1]) auto
  then have "mset (map f (remdups (a @ b))) = mset (map f (remdups (b @ a)))" for f :: "string \<Rightarrow> int" by simp
  then have "sum_list (map f (remdups (a @ b))) = sum_list (map f (remdups (b @ a)))" for f :: "string \<Rightarrow> int" by (metis sum_mset_sum_list)
  moreover have "(\<lambda>s. let n = int (count_list a s) - int (count_list b s) in max n (- n))
      = (\<lambda>s. let n = int (count_list b s) - int (count_list a s) in max n (- n))" by (auto simp: fun_eq_iff Let_def max_def)
  ultimately show ?thesis unfolding distance_def by simp
qed

lemma distance_zero: "distance a b = 0 \<longleftrightarrow> mset a = mset b"
proof -
  define f where "f = (\<lambda>s. let n = int (count_list a s) - int (count_list b s) in max n (- n))"
  have f: "f s \<ge> 0" "f s = 0 \<longleftrightarrow> count_list a s = count_list b s" for s by (auto simp: f_def Let_def max_def)
  have "distance a b = sum_list (map f (remdups (a @ b)))" by (simp add: distance_def f_def)
  also have "\<dots> = 0 \<longleftrightarrow> (\<forall>x \<in> set (map f (remdups (a @ b))). x = 0)"
    using f(1) by (intro sum_list_nonneg_eq_0_iff) auto
  also have "\<dots> \<longleftrightarrow> (\<forall>s \<in> set (a @ b). count_list a s = count_list b s)" using f(2) by auto
  also have "\<dots> \<longleftrightarrow> mset a = mset b"
    by (auto simp: multiset_eq_iff count_mset count_list_0_iff)
  finally show ?thesis .
qed

definition candidate :: "row \<Rightarrow> row \<Rightarrow> bool" where
  "candidate r c = (sameAxes r c \<and> (row_Features r = [] \<longrightarrow> distance (row_Args r) (row_Args c) = 0))"

lemma nearest_fold:
  "case fold (nearest_step r) cs None of
     None \<Rightarrow> (\<forall>c \<in> set cs. \<not> candidate r c)
   | Some (b, n, tie) \<Rightarrow> b \<in> set cs \<and> candidate r b \<and> n = distance (row_Args r) (row_Args b)
       \<and> (\<forall>c \<in> set cs. candidate r c \<longrightarrow> n \<le> distance (row_Args r) (row_Args c)
            \<and> (\<not> tie \<and> c \<noteq> b \<longrightarrow> n < distance (row_Args r) (row_Args c)))"
proof (induction cs rule: rev_induct)
  case Nil
  then show ?case by simp
next
  case (snoc c cs)
  let ?d = "distance (row_Args r) (row_Args c)"
  show ?case
  proof (cases "candidate r c")
    case False
    then have "nearest_step r c st = st" for st by (auto simp: nearest_step_def candidate_def Let_def)
    then show ?thesis using snoc False by (auto split: option.splits)
  next
    case True
    then have step: "nearest_step r c st = (case st of None \<Rightarrow> Some (c, ?d, False)
        | Some (best, n, tie) \<Rightarrow> if ?d < n then Some (c, ?d, False) else if ?d = n then Some (best, n, True) else st)" for st
      by (auto simp: nearest_step_def candidate_def Let_def)
    show ?thesis
    proof (cases "fold (nearest_step r) cs None")
      case None
      then show ?thesis using snoc True step by auto
    next
      case (Some bnt)
      then show ?thesis using snoc True step by (cases bnt) auto
    qed
  qed
qed

lemma nearest_Some:
  assumes "nearest r cs = Some b"
  shows "b \<in> set cs \<and> candidate r b \<and>
    (\<forall>c \<in> set cs. candidate r c \<and> c \<noteq> b \<longrightarrow> distance (row_Args r) (row_Args b) < distance (row_Args r) (row_Args c))"
  using assms nearest_fold [where r = r and cs = cs] unfolding nearest_def
  by (auto split: option.splits prod.splits bool.splits)

lemma renames_fold:
  "fold (rename_step olds news) rs out t = Some ol \<Longrightarrow>
     out t = Some ol \<or> (\<exists>r \<in> set rs. row_ID r = t \<and> nearest r olds = Some ol \<and> (\<exists>back. nearest ol news = Some back \<and> row_ID back = t))"
proof (induction rs arbitrary: out)
  case Nil
  then show ?case by simp
next
  case (Cons r rs)
  then have "fold (rename_step olds news) rs (rename_step olds news r out) t = Some ol" by simp
  from Cons.IH [OF this] show ?case
    by (auto simp: rename_step_def split: option.splits if_splits)
qed

lemma renames_Some:
  assumes "renames old new t = Some ol"
  obtains r bk where "r \<in> set (only_in new old)" "row_ID r = t" "nearest r (only_in old new) = Some ol"
    "nearest ol (only_in new old) = Some bk" "row_ID bk = t"
  using renames_fold [where out = Map.empty] assms unfolding renames_def Let_def by fastforce

lemma before_Some:
  assumes "distinct (map row_ID old)"
  shows "before old t = Some ol \<longleftrightarrow> ol \<in> set old \<and> row_ID ol = t"
  using assms
proof (induction old rule: rev_induct)
  case Nil
  then show ?case by (simp add: before_def)
next
  case (snoc r old)
  have "before (old @ [r]) = (before old)(row_ID r \<mapsto> r)" by (simp add: before_def)
  then show ?case using snoc by (auto simp: image_iff)
qed

lemma before_None: "distinct (map row_ID old) \<Longrightarrow> before old t = None \<longleftrightarrow> t \<notin> row_ID ` set old"
  using before_Some [of old t] by (cases "before old t") (auto simp: image_iff, metis)

text \<open>What two rows a section compares have to do with each other: the same id, or ids of one report
  each and command lines nearest to each other among the rows of the same choices.\<close>

definition stands_for :: "row list \<Rightarrow> row list \<Rightarrow> row \<Rightarrow> row \<Rightarrow> bool" where
  "stands_for old new ol r = (row_ID ol = row_ID r
     \<or> row_ID ol \<notin> row_ID ` set new \<and> row_ID r \<notin> row_ID ` set old \<and> sameAxes r ol
       \<and> (\<forall>c \<in> set (only_in old new). candidate r c \<and> c \<noteq> ol
            \<longrightarrow> distance (row_Args r) (row_Args ol) < distance (row_Args r) (row_Args c)))"

lemma id_inj: "distinct (map row_ID rs) \<Longrightarrow> a \<in> set rs \<Longrightarrow> b \<in> set rs \<Longrightarrow> row_ID a = row_ID b \<Longrightarrow> a = b"
  by (auto simp: distinct_map dest: inj_onD)

lemma only_in_iff: "r \<in> set (only_in xs ys) \<longleftrightarrow> r \<in> set xs \<and> row_ID r \<notin> row_ID ` set ys"
  by (simp add: only_in_def)

lemma counterpart_cases:
  assumes "distinct (map row_ID old)" "counterpart old new r = Some (ol, w)"
  shows "ol \<in> set old \<and> (row_ID ol = row_ID r \<and> w = [] \<or>
    row_ID r \<notin> row_ID ` set old \<and> renames old new (row_ID r) = Some ol \<and> row_ID ol \<notin> row_ID ` set new \<and> w = [''was '' @ row_ID ol])"
proof (cases "before old (row_ID r)")
  case None
  then have rn: "renames old new (row_ID r) = Some ol" "w = [''was '' @ row_ID ol]"
    using assms(2) by (auto simp: counterpart_def split: option.splits)
  from rn(1) obtain r' where "nearest r' (only_in old new) = Some ol" by (rule renames_Some)
  then have "ol \<in> set (only_in old new)" using nearest_Some by blast
  then show ?thesis using rn None before_None [OF assms(1)] by (simp add: only_in_iff)
next
  case (Some o')
  then have "o' = ol" "w = []" using assms(2) by (simp_all add: counterpart_def)
  then show ?thesis using Some before_Some [OF assms(1), of "row_ID r" ol] by simp
qed

lemma counterpart_stands_for:
  assumes "distinct (map row_ID old)" "distinct (map row_ID new)" "r \<in> set new" "counterpart old new r = Some (ol, w)"
  shows "stands_for old new ol r"
proof (cases "row_ID ol = row_ID r")
  case True
  then show ?thesis by (simp add: stands_for_def)
next
  case False
  then have c: "row_ID r \<notin> row_ID ` set old" "renames old new (row_ID r) = Some ol" "row_ID ol \<notin> row_ID ` set new"
    using counterpart_cases [OF assms(1,4)] by auto
  from c(2) obtain r' where r': "r' \<in> set (only_in new old)" "row_ID r' = row_ID r" "nearest r' (only_in old new) = Some ol" by (rule renames_Some)
  then have "r' = r" using id_inj [OF assms(2)] assms(3) by (auto simp: only_in_iff)
  then show ?thesis using nearest_Some [OF r'(3)] c by (auto simp: stands_for_def candidate_def)
qed

lemma counterpart_inj:
  assumes "distinct (map row_ID old)" "distinct (map row_ID new)" "r \<in> set new" "r' \<in> set new"
    "counterpart old new r = Some (ol, w)" "counterpart old new r' = Some (ol, w')"
  shows "r = r'"
proof -
  have "row_ID r = row_ID r'"
  proof (cases "row_ID ol \<in> row_ID ` set new")
    case True
    then show ?thesis using counterpart_cases [OF assms(1,5)] counterpart_cases [OF assms(1,6)] by auto
  next
    case False
    then have "row_ID ol \<noteq> row_ID r" "row_ID ol \<noteq> row_ID r'" using assms(3,4) by force+
    then have "renames old new (row_ID r) = Some ol" "renames old new (row_ID r') = Some ol"
      using counterpart_cases [OF assms(1,5)] counterpart_cases [OF assms(1,6)] by auto
    then obtain b b' where "nearest ol (only_in new old) = Some b" "row_ID b = row_ID r"
      "nearest ol (only_in new old) = Some b'" "row_ID b' = row_ID r'" by (metis renames_Some)
    then show ?thesis by simp
  qed
  then show ?thesis using id_inj [OF assms(2-4)] by blast
qed

lemma seen_iff:
  assumes "distinct (map row_ID old)" "ol \<in> set old"
  shows "row_ID ol \<in> seen_ids old new \<longleftrightarrow> (\<exists>r \<in> set new. \<exists>w. counterpart old new r = Some (ol, w))"
proof
  assume "row_ID ol \<in> seen_ids old new"
  then consider r where "r \<in> set new" "row_ID ol = row_ID r"
    | r o' where "r \<in> set new" "before old (row_ID r) = None" "renames old new (row_ID r) = Some o'" "row_ID o' = row_ID ol"
    unfolding seen_ids_def by (auto simp: map_filter_def split: if_splits)
  then show "\<exists>r \<in> set new. \<exists>w. counterpart old new r = Some (ol, w)"
  proof cases
    case 1
    then have "counterpart old new r = Some (ol, [])" using before_Some [OF assms(1), of "row_ID r" ol] assms(2) by (simp add: counterpart_def)
    then show ?thesis using 1(1) by blast
  next
    case 2
    then have c: "counterpart old new r = Some (o', [''was '' @ row_ID o'])" by (simp add: counterpart_def)
    then have "o' = ol" using counterpart_cases [OF assms(1) c] id_inj [OF assms(1)] assms(2) 2(4) by blast
    then show ?thesis using c 2(1) by blast
  qed
next
  assume "\<exists>r \<in> set new. \<exists>w. counterpart old new r = Some (ol, w)"
  then obtain r w where r: "r \<in> set new" "counterpart old new r = Some (ol, w)" by blast
  show "row_ID ol \<in> seen_ids old new"
  proof (cases "row_ID ol = row_ID r")
    case True
    then show ?thesis using r(1) by (auto simp: seen_ids_def)
  next
    case False
    then have "before old (row_ID r) = None" "renames old new (row_ID r) = Some ol"
      using counterpart_cases [OF assms(1) r(2)] before_None [OF assms(1)] by auto
    then show ?thesis using r(1) by (force simp: seen_ids_def map_filter_def)
  qed
qed

text \<open>The row's own test of whether nothing booted does not ask that anything was tried, and \<open>outcome\<close>
  does: a row with no boots against one that booted reads as a change from some to some.\<close>

lemma unbooted_row_reads_some_to_some:
  assumes "boot_Boots (row_Boot ol) = 0" and "boot_Failed (row_Boot ol) = 0"
    and "boot_Failed (row_Boot r) < boot_Boots (row_Boot r)"
  shows "''boots: '' @ ''some'' @ arrow @ ''some'' \<in> set (changes ol r threshold)"
proof -
  have "outcome ol = ''some''" "outcome r = ''some''" using assms by (simp_all add: outcome_def)
  then show ?thesis using assms by (simp add: changes_def)
qed

subsection \<open>Properties\<close>

text \<open>C35: A percentile is the nearest-rank one. For the fractions 0.5 and 0.95 as the program writes
  them and fewer than \<open>2^47\<close> samples, \<^verbatim>\<open>Percentile\<close> returns one of the samples, such that at least
  that fraction of them is no larger and less than that fraction is smaller; the rounding of
  \<^verbatim>\<open>0.95\<close> and of its product with the number of samples never moves the rank.\<close>

theorem percentile_is_nearest_rank:
  fixes ds :: "int list"
  assumes "ds \<noteq> []" and "length ds < 2 ^ 47" and "(p, q) \<in> fractions"
  shows "\<exists>v. Percentile ds p = Some v \<and> v \<in> set ds
    \<and> q * of_nat (length ds) \<le> of_nat (length (filter (\<lambda>d. d \<le> v) ds))
    \<and> of_nat (length (filter (\<lambda>d. d < v) ds)) < q * of_nat (length ds)"
proof -
  let ?n = "length ds" and ?k = "percentile_index p (length ds)"
  have k: "int ?k + 1 = \<lceil>q * of_nat ?n\<rceil>" "?k < ?n" using percentile_index_rank [OF assms(3)] assms(1,2) by simp_all
  have r: "?k < length (filter (\<lambda>d. d \<le> sort ds ! ?k) ds)" "length (filter (\<lambda>d. d < sort ds ! ?k) ds) \<le> ?k"
    using sorted_ranks [of "sort ds" ?k] k(2) by (simp_all add: length_filter_sort)
  have "q * of_nat ?n \<le> of_int (int ?k + 1)" using k(1) by (simp add: ceiling_le_iff [symmetric])
  moreover have "of_int (int ?k) < q * of_nat ?n" using k(1) ceiling_correct [of "q * of_nat ?n"] by linarith
  moreover have "sort ds ! ?k \<in> set ds" using k(2) nth_mem [of ?k "sort ds"] by simp
  moreover have "(of_nat (length (filter (\<lambda>d. d < sort ds ! ?k) ds)) :: rat) \<le> of_nat ?k" using r(2) by simp
  moreover have "(of_nat (?k + 1) :: rat) \<le> of_nat (length (filter (\<lambda>d. d \<le> sort ds ! ?k) ds))" using r(1) by (simp only: of_nat_le_iff)
  ultimately show ?thesis using assms(1) by (intro exI [of _ "sort ds ! ?k"]) (simp add: Percentile_def)
qed

text \<open>C33: A comparison of two reports loses no row. In a section over rows with different ids: a row
  of the new report is called new exactly when it is compared with no old row; an old row is
  called gone exactly when no new row is compared with it, and never in a partial report; the old
  row a new row is compared with is one of the old report's, it stands for it, by its id or as
  the nearest row of the same choices, it is no other row's, and what is said of the two is what
  changed between them, unless nothing did.\<close>

theorem comparison_accounts_for_every_row:
  assumes "distinct (map row_ID old)" and "distinct (map row_ID new)"
  shows "(\<forall>r \<in> set new. NewRow r \<in> set (section_changes old new th partial) \<longleftrightarrow> counterpart old new r = None)
    \<and> (\<forall>ol \<in> set old. GoneRow ol \<in> set (section_changes old new th partial) \<longleftrightarrow>
         \<not> partial \<and> (\<forall>r \<in> set new. \<forall>w. counterpart old new r \<noteq> Some (ol, w)))
    \<and> (\<forall>r \<in> set new. \<forall>ol w. counterpart old new r = Some (ol, w) \<longrightarrow>
         ol \<in> set old \<and> stands_for old new ol r
         \<and> (\<forall>r' \<in> set new. \<forall>w'. counterpart old new r' = Some (ol, w') \<longrightarrow> r' = r)
         \<and> (\<forall>what. Changed ol r what \<in> set (section_changes old new th partial) \<longleftrightarrow> what = w @ changes ol r th \<and> what \<noteq> []))"
proof (intro conjI)
  have mem: "c \<in> set (section_changes old new th partial) \<longleftrightarrow>
      (\<exists>r \<in> set new. c \<in> set (new_change old new th r)) \<or> (\<exists>ol \<in> set old. c = GoneRow ol \<and> row_ID ol \<notin> seen_ids old new \<and> \<not> partial)" for c
    by (auto simp: section_changes_def)
  have nc: "c \<in> set (new_change old new th r) \<longleftrightarrow> c = NewRow r \<and> counterpart old new r = None
      \<or> (\<exists>ol w. counterpart old new r = Some (ol, w) \<and> c = Changed ol r (w @ changes ol r th) \<and> w @ changes ol r th \<noteq> [])" for c r
    by (auto simp: new_change_def Let_def split: option.splits prod.splits)
  show "\<forall>r \<in> set new. NewRow r \<in> set (section_changes old new th partial) \<longleftrightarrow> counterpart old new r = None"
    unfolding mem nc by blast
  show "\<forall>ol \<in> set old. GoneRow ol \<in> set (section_changes old new th partial) \<longleftrightarrow>
      \<not> partial \<and> (\<forall>r \<in> set new. \<forall>w. counterpart old new r \<noteq> Some (ol, w))"
    unfolding mem nc using seen_iff [OF assms(1)] by blast
  show "\<forall>r \<in> set new. \<forall>ol w. counterpart old new r = Some (ol, w) \<longrightarrow>
      ol \<in> set old \<and> stands_for old new ol r
      \<and> (\<forall>r' \<in> set new. \<forall>w'. counterpart old new r' = Some (ol, w') \<longrightarrow> r' = r)
      \<and> (\<forall>what. Changed ol r what \<in> set (section_changes old new th partial) \<longleftrightarrow> what = w @ changes ol r th \<and> what \<noteq> [])"
  proof (intro ballI allI impI)
    fix r ol w
    assume r: "r \<in> set new" "counterpart old new r = Some (ol, w)"
    have "\<forall>what. Changed ol r what \<in> set (section_changes old new th partial) \<longleftrightarrow> what = w @ changes ol r th \<and> what \<noteq> []"
      unfolding mem nc using r by auto
    then show "ol \<in> set old \<and> stands_for old new ol r
      \<and> (\<forall>r' \<in> set new. \<forall>w'. counterpart old new r' = Some (ol, w') \<longrightarrow> r' = r)
      \<and> (\<forall>what. Changed ol r what \<in> set (section_changes old new th partial) \<longleftrightarrow> what = w @ changes ol r th \<and> what \<noteq> [])"
      using counterpart_cases [OF assms(1) r(2)] counterpart_stands_for [OF assms r] counterpart_inj [OF assms _ r(1) _ r(2)] by blast
  qed
qed

definition sample_row :: "string \<Rightarrow> string \<Rightarrow> row" where
  "sample_row name arg = \<lparr>row_ID = name, row_Features = [(''cpus'', ''2'')], row_Args = [''-smp'', arg], row_Fingerprint = [],
     row_Boot = \<lparr>boot_Boots = 1, boot_Failed = 0, boot_Error = [], boot_Phases = []\<rparr>\<rparr>"

theorem percentile_is_nearest_rank_witness:
  "[30, 10, 20 :: int] \<noteq> [] \<and> length [30, 10, 20 :: int] < 2 ^ 47 \<and> (p95, 19 / 20) \<in> fractions
   \<and> (\<exists>v. Percentile [30, 10, 20 :: int] p95 = Some v \<and> v \<in> set [30, 10, 20]
    \<and> 19 / 20 * of_nat (length [30, 10, 20 :: int]) \<le> (of_nat (length (filter (\<lambda>d. d \<le> v) [30, 10, 20])) :: rat)
    \<and> of_nat (length (filter (\<lambda>d. d < v) [30, 10, 20])) < 19 / 20 * (of_nat (length [30, 10, 20 :: int]) :: rat))"
proof -
  have 1: "[30, 10, 20 :: int] \<noteq> []" "length [30, 10, 20 :: int] < 2 ^ 47" by simp_all
  have 2: "(p95, 19 / 20) \<in> fractions" by (simp add: fractions_def)
  show ?thesis using percentile_is_nearest_rank [OF 1 2] 1 2 by (intro conjI)
qed

theorem comparison_accounts_for_every_row_witness:
  "distinct (map row_ID [sample_row ''a'' ''2'']) \<and> distinct (map row_ID [sample_row ''b'' ''2''])
   \<and> map_option snd (counterpart [sample_row ''a'' ''2''] [sample_row ''b'' ''2''] (sample_row ''b'' ''2'')) = Some [''was a'']
   \<and> GoneRow (sample_row ''a'' ''2'') \<notin> set (section_changes [sample_row ''a'' ''2''] [sample_row ''b'' ''2''] (Fin (1 / 20)) False)"
proof -
  have d: "distinct (map row_ID [sample_row ''a'' ''2''])" "distinct (map row_ID [sample_row ''b'' ''2''])" by simp_all
  have w: "map_option snd (counterpart [sample_row ''a'' ''2''] [sample_row ''b'' ''2''] (sample_row ''b'' ''2'')) = Some [''was a'']"
    by code_simp
  then obtain z where z: "counterpart [sample_row ''a'' ''2''] [sample_row ''b'' ''2''] (sample_row ''b'' ''2'') = Some z"
    unfolding map_option_eq_Some by blast
  then have c: "counterpart [sample_row ''a'' ''2''] [sample_row ''b'' ''2''] (sample_row ''b'' ''2'') = Some (fst z, snd z)" by simp
  have a: "fst z = sample_row ''a'' ''2''" using counterpart_cases [OF d(1) c, THEN conjunct1] by simp
  note gone = comparison_accounts_for_every_row [OF d, of "Fin (1 / 20)" False, THEN conjunct2, THEN conjunct1, THEN bspec, of "sample_row ''a'' ''2''"]
  have "GoneRow (sample_row ''a'' ''2'') \<notin> set (section_changes [sample_row ''a'' ''2''] [sample_row ''b'' ''2''] (Fin (1 / 20)) False)"
    using gone c unfolding a list.set by blast
  then show ?thesis using d w by (intro conjI)
qed

end
