(* ===== verification/Boot_Summary.thy ===== *)
theory Boot_Summary
  imports Boot_Report
begin

text \<open>
  From consoles to a row of the report: \<^verbatim>\<open>Watch\<close> of \<^verbatim>\<open>boot/phases.go\<close> on each boot of a row, then
  \<^verbatim>\<open>Summarise\<close> of \<^verbatim>\<open>boot/report.go\<close> over what it returned. What the row says is a statement about what
  the consoles showed, and its two times are in order: the median is no later than the 95th
  percentile, through every rounding between a duration and the number in the report.
\<close>

subsection \<open>Rounding keeps the order\<close>

lemma rnd_mono:
  assumes "x \<le> y"
  shows "rnd x \<le> rnd y"
proof (cases "x < 0")
  case True
  show ?thesis
  proof (cases "y < 0")
    case True
    then show ?thesis using \<open>x < 0\<close> assms round53_mono [of "- y" "- x"] by (simp add: rnd_def)
  next
    case False
    then show ?thesis using \<open>x < 0\<close> round53_nonneg [of "- x"] round53_nonneg [of y] by (simp add: rnd_def)
  qed
next
  case False
  then show ?thesis using assms round53_mono [of x y] by (simp add: rnd_def)
qed

lemma Round_mono:
  assumes "x \<le> y"
  shows "Round x \<le> Round y"
proof (cases "x < 0 \<and> \<not> y < 0")
  case True
  then have "0 \<le> \<lfloor>- x + 1 / 2\<rfloor>" "0 \<le> \<lfloor>y + 1 / 2\<rfloor>" by simp_all
  then have "- \<lfloor>- x + 1 / 2\<rfloor> \<le> \<lfloor>y + 1 / 2\<rfloor>" by linarith
  then show ?thesis unfolding Round_def using True by (simp only: if_True if_False)
next
  case False
  have "\<lfloor>- y + 1 / 2\<rfloor> \<le> \<lfloor>- x + 1 / 2\<rfloor>" "\<lfloor>x + 1 / 2\<rfloor> \<le> \<lfloor>y + 1 / 2\<rfloor>" using assms by (simp_all add: floor_mono)
  then show ?thesis using False assms by (auto simp: Round_def)
qed

lemma Microseconds_mono:
  assumes "d \<le> e"
  shows "Microseconds d \<le> Microseconds e"
proof (cases "0 \<le> d")
  case True
  then show ?thesis using assms zdiv_mono1 [of d e 1000] by (auto simp: Microseconds_def sgn_if)
next
  case False
  have d: "0 \<le> (- d) div 1000" using False by (simp add: pos_imp_zdiv_nonneg_iff)
  show ?thesis
  proof (cases "e < 0")
    case True
    then show ?thesis using False assms zdiv_mono1 [of "- e" "- d" 1000] by (simp add: Microseconds_def sgn_if)
  next
    case e: False
    then have "0 \<le> e div 1000" by (simp add: pos_imp_zdiv_nonneg_iff)
    then show ?thesis using False e d by (simp add: Microseconds_def sgn_if)
  qed
qed

lemma ms_mono:
  assumes "d \<le> e"
  shows "ms d \<le> ms e"
proof -
  have "(of_int (Microseconds d) :: rat) \<le> of_int (Microseconds e)" using Microseconds_mono [OF assms] by simp
  then have "rnd (of_int (Microseconds d)) / 10 \<le> rnd (of_int (Microseconds e)) / 10" using rnd_mono by (simp add: divide_right_mono)
  then have "(of_int (Round (rnd (rnd (of_int (Microseconds d)) / 10))) :: rat) \<le> of_int (Round (rnd (rnd (of_int (Microseconds e)) / 10)))"
    using rnd_mono Round_mono by simp
  then show ?thesis unfolding ms_def by (intro rnd_mono divide_right_mono) simp_all
qed

lemma percentiles_in_order:
  fixes ds :: "int list"
  assumes "Percentile ds p50 = Some a" and "Percentile ds p95 = Some b" and "length ds < 2 ^ 47"
  shows "a \<le> b"
proof -
  have ds: "ds \<noteq> []" using assms(1) by (auto simp: Percentile_def)
  then have n: "0 < length ds" by simp
  have f: "(p50, 1 / 2) \<in> fractions" "(p95, 19 / 20) \<in> fractions" by (simp_all add: fractions_def)
  note r = percentile_index_rank [OF f(1) n assms(3)] percentile_index_rank [OF f(2) n assms(3)]
  have "\<lceil>1 / 2 * (of_nat (length ds) :: rat)\<rceil> \<le> \<lceil>19 / 20 * (of_nat (length ds) :: rat)\<rceil>" by (intro ceiling_mono) simp
  then have "percentile_index p50 (length ds) \<le> percentile_index p95 (length ds)" using r by linarith
  then show ?thesis using assms(1,2) ds r(4) sorted_sort [of ds] by (auto simp: Percentile_def sorted_iff_nth_mono)
qed

subsection \<open>A row's boots\<close>

text \<open>A boot is the reads of its console and when it was started; it is watched up to the login prompt.\<close>

type_synonym console = "console_read list \<times> int"

definition watched :: "console \<Rightarrow> run_result" where
  "watched c = fst (Watch (fst c) (snd c) Usable)"

definition shows_phase :: "phase \<Rightarrow> console \<Rightarrow> bool" where
  "shows_phase p c = list_ex (Contains (run_Output (watched c))) (markers p)"

lemma Reached_watched: "Reached (watched c) p \<longleftrightarrow> shows_phase p c"
  using watch_all_seen [OF seen_init, of "snd c" Usable "fst c"] watch_from_all [OF watch_inv_init, of "snd c" Usable "fst c"]
  by (simp add: watched_def shows_phase_def Watch_def seen_iff_reached_def)

lemma length_phase_times: "length (phase_times (map watched cs) p) = length (filter (shows_phase p) cs)"
proof -
  have "length (phase_times rs p) = length (filter (\<lambda>r. Reached r p) rs)" for rs
    by (induction rs) (auto simp: phase_times_def map_filter_simps Reached_def split: option.splits)
  then show ?thesis by (simp add: filter_map comp_def Reached_watched)
qed

lemma Phase_String_inj: "Phase_String p = Phase_String q \<longleftrightarrow> p = q"
  by (cases p; cases q) simp_all

lemma map_of_map_filter:
  assumes "distinct ps" and "\<And>p kv. f p = Some kv \<Longrightarrow> fst kv = k p" and "\<And>p q. k p = k q \<longleftrightarrow> p = q"
  shows "p \<in> set ps \<Longrightarrow> map_of (List.map_filter f ps) (k p) = map_option snd (f p)"
  using assms(1)
proof (induction ps)
  case Nil
  then show ?case by simp
next
  case (Cons q ps)
  have none: "map_of (List.map_filter f ps) (k q) = None" if "q \<notin> set ps"
  proof -
    have "fst kv \<noteq> k q" if kv: "kv \<in> set (List.map_filter f ps)" for kv
    proof -
      obtain x where x: "x \<in> set ps" "f x = Some kv" using kv by (auto simp: map_filter_def)
      then show ?thesis using assms(2) [OF x(2)] assms(3) \<open>q \<notin> set ps\<close> by auto
    qed
    then show ?thesis unfolding map_of_eq_None_iff by fastforce
  qed
  show ?case
  proof (cases "f q")
    case None
    then show ?thesis using Cons none by (cases "p = q") (auto simp: map_filter_simps)
  next
    case (Some kv)
    have "fst kv = k q" by (rule assms(2) [OF Some])
    then show ?thesis using Cons Some assms(3) by (cases kv) (auto simp: map_filter_simps)
  qed
qed

lemma Summarise_phase: "map_of (boot_Phases (Summarise runs failure)) (Phase_String p) = map_option snd (phase_summary runs p)"
  unfolding Summarise_def Let_def boot_result.simps
proof (rule map_of_map_filter [where k = Phase_String])
  show "p \<in> set phases" by (cases p) (simp_all add: phases_def)
qed (auto simp: phases_def phase_summary_def Let_def Phase_String_inj split: option.splits)

subsection \<open>Properties\<close>

text \<open>C39: A row of the report counts what the consoles showed. For the boots of a row, each watched up to its
  login prompt: the row has as many boots as there were consoles, as many failed ones as showed no
  \<^verbatim>\<open>login:\<close>, and the error exactly if there is one; a phase is in it exactly if a console showed the
  phase's marker, with the number of those that did, and its median is no later than its 95th
  percentile.\<close>

theorem report_counts_what_the_consoles_show:
  assumes "length cs < 2 ^ 47" and "b = Summarise (map watched cs) failure"
  shows "boot_Boots b = int (length cs)
    \<and> boot_Failed b = int (length (filter (\<lambda>c. \<not> Contains (run_Output (watched c)) ''login:'') cs))
    \<and> boot_Error b = (if \<forall>c \<in> set cs. Contains (run_Output (watched c)) ''login:'' then [] else failure)
    \<and> (\<forall>p. map_of (boot_Phases b) (Phase_String p) = None \<longleftrightarrow> (\<forall>c \<in> set cs. \<not> shows_phase p c))
    \<and> (\<forall>p s. map_of (boot_Phases b) (Phase_String p) = Some s \<longrightarrow>
         sum_N s = int (length (filter (shows_phase p) cs)) \<and> sum_P50 s \<le> sum_P95 s)"
proof -
  have login: "Reached (watched c) Usable \<longleftrightarrow> Contains (run_Output (watched c)) ''login:''" for c
    by (simp add: Reached_watched shows_phase_def)
  have failed: "boot_Failed b = int (length (filter (\<lambda>c. \<not> Contains (run_Output (watched c)) ''login:'') cs))"
    by (simp add: assms(2) Summarise_def Let_def filter_map comp_def login)
  then have "boot_Error b = (if \<forall>c \<in> set cs. Contains (run_Output (watched c)) ''login:'' then [] else failure)"
    by (auto simp: assms(2) Summarise_def Let_def filter_empty_conv)
  moreover have "map_of (boot_Phases b) (Phase_String p) = None \<longleftrightarrow> (\<forall>c \<in> set cs. \<not> shows_phase p c)" for p
  proof -
    have "phase_times (map watched cs) p = [] \<longleftrightarrow> (\<forall>c \<in> set cs. \<not> shows_phase p c)"
      unfolding length_0_conv [symmetric] length_phase_times by (simp add: filter_empty_conv)
    then show ?thesis unfolding assms(2) Summarise_phase by (simp add: phase_summary_def Let_def Percentile_def)
  qed
  moreover have "sum_N s = int (length (filter (shows_phase p) cs)) \<and> sum_P50 s \<le> sum_P95 s"
    if s: "map_of (boot_Phases b) (Phase_String p) = Some s" for p s
  proof -
    let ?ds = "phase_times (map watched cs) p"
    obtain x where x: "Percentile ?ds p50 = Some x" and s': "s = \<lparr>sum_P50 = ms x, sum_P95 = ms (the (Percentile ?ds p95)), sum_N = int (length ?ds)\<rparr>"
      using s unfolding assms(2) Summarise_phase by (auto simp: phase_summary_def Let_def split: option.splits)
    have "?ds \<noteq> []" using x by (auto simp: Percentile_def)
    then obtain y where y: "Percentile ?ds p95 = Some y" by (simp add: Percentile_def)
    have "length ?ds \<le> length cs" by (simp add: length_phase_times)
    then have "x \<le> y" using percentiles_in_order [OF x y] assms(1) by simp
    then show ?thesis using s' y ms_mono by (simp add: length_phase_times)
  qed
  moreover have "boot_Boots b = int (length cs)" by (simp add: assms(2) Summarise_def Let_def)
  ultimately show ?thesis using failed by blast
qed

definition console_of :: "string list \<Rightarrow> console" where
  "console_of parts = (map (\<lambda>s. \<lparr>rd_bytes = s, rd_now = 5000000, rd_err = None\<rparr>) parts, 0)"

theorem report_counts_what_the_consoles_show_witness:
  "let b = Summarise (map watched [console_of [''Linux ver'', ''sion 6 log'', ''in:''], console_of [''Linux version 6'']]) ''no login'' in
     boot_Boots b = 2 \<and> boot_Failed b = 1 \<and> boot_Error b = ''no login''"
proof -
  let ?cs = "[console_of [''Linux ver'', ''sion 6 log'', ''in:''], console_of [''Linux version 6'']]"
  have l: "length ?cs < 2 ^ 47" by simp
  have f: "length (filter (\<lambda>c. \<not> Contains (run_Output (watched c)) ''login:'') ?cs) = 1" by code_simp
  then have "\<not> (\<forall>c \<in> set ?cs. Contains (run_Output (watched c)) ''login:'')" by (auto split: if_splits)
  then show ?thesis using report_counts_what_the_consoles_show [OF l refl, of "''no login''"] f by (simp add: Let_def)
qed

end
