(* ===== verification/Apk_Lock.thy ===== *)
theory Apk_Lock
  imports Go_Sort
begin

text \<open>
  The lock of an Alpine builder: \<^verbatim>\<open>hack/apklock/main.go\<close>.

  \<open>Lock\<close> turns an apk installed database into sorted \<^verbatim>\<open>name=version\<close> lines; \<open>Listed\<close> reads the
  names of an \<^verbatim>\<open>apk.list\<close>; \<open>run_apklock\<close> is the command, with its exit status and what it writes
  on its standard output. \<open>apk_db\<close> writes a database of packages, and the lock is shown to pin
  exactly the packages of the database it was made from, each once and in order.
\<close>

datatype lock_error = HalfPackage string string | NoPackage

text \<open>One line of a block: the loop body with its switch on the key.\<close>

definition lock_line :: "string \<Rightarrow> string \<times> string \<Rightarrow> string \<times> string" where
  "lock_line line nv = (case Cut line CHR '':'' of (k, v, _) \<Rightarrow>
     if k = ''P'' then (v, snd nv) else if k = ''V'' then (fst nv, v) else nv)"

definition lock_block :: "string \<Rightarrow> string \<times> string" where
  "lock_block block = fold lock_line (Split block newline) ([], [])"

fun lock_pins :: "string list \<Rightarrow> (lock_error, string list) result" where
  "lock_pins [] = Inr []"
| "lock_pins (block # blocks) =
     (case lock_block block of (name, version) \<Rightarrow>
        if name = [] \<and> version = [] then lock_pins blocks
        else if name = [] \<or> version = [] then Inl (HalfPackage name version)
        else (case lock_pins blocks of
                Inl e \<Rightarrow> Inl e
              | Inr pins \<Rightarrow> Inr ((name @ ''='' @ version) # pins)))"

definition Lock :: "string \<Rightarrow> (lock_error, string) result" where
  "Lock db = (case lock_pins (SplitAt db [newline, newline]) of
      Inl e \<Rightarrow> Inl e
    | Inr pins \<Rightarrow> if pins = [] then Inl NoPackage else Inr (Join (Sort pins) [newline] @ [newline]))"

definition Listed :: "string \<Rightarrow> string list" where
  "Listed lst = concat (map (\<lambda>line. Fields (fst (Cut line CHR ''#''))) (Split lst newline))"

text \<open>\<^verbatim>\<open>run\<close>: the exit status and the standard output. A database that cannot be read whole is an
  error of \<^verbatim>\<open>os.ReadFile\<close>.\<close>

definition run_apklock :: "os_env \<Rightarrow> string list \<Rightarrow> int \<times> string" where
  "run_apklock os args = (case args of
      [path] \<Rightarrow> (case os_open os path of
          Inl _ \<Rightarrow> (2, [])
        | Inr (_, Some _) \<Rightarrow> (2, [])
        | Inr (raw, None) \<Rightarrow> (case Lock raw of Inl _ \<Rightarrow> (2, []) | Inr lock \<Rightarrow> (0, lock)))
    | _ \<Rightarrow> (2, []))"

subsection \<open>Databases\<close>

text \<open>A package of a database: the lines before its name, between its name and its version, and
  after it, none of them a name or a version themselves.\<close>

record apk_package =
  apk_before :: "string list"
  apk_name :: string
  apk_between :: "string list"
  apk_version :: string
  apk_after :: "string list"

definition other_line :: "string \<Rightarrow> bool" where
  "other_line l = (l \<noteq> [] \<and> newline \<notin> set l \<and> fst (Cut l CHR '':'') \<notin> {''P'', ''V''})"

definition apk_lines :: "apk_package \<Rightarrow> string list" where
  "apk_lines p = apk_before p @ [''P:'' @ apk_name p] @ apk_between p @ [''V:'' @ apk_version p] @ apk_after p"

definition apk_wf :: "apk_package \<Rightarrow> bool" where
  "apk_wf p = (apk_name p \<noteq> [] \<and> newline \<notin> set (apk_name p) \<and> apk_version p \<noteq> [] \<and> newline \<notin> set (apk_version p)
     \<and> list_all other_line (apk_before p @ apk_between p @ apk_after p))"

definition apk_db :: "apk_package list \<Rightarrow> string" where
  "apk_db ps = blocks_text (map apk_lines ps)"

definition apk_pin :: "apk_package \<Rightarrow> string" where
  "apk_pin p = apk_name p @ ''='' @ apk_version p"

lemma Cut_P: "Cut (''P:'' @ s) CHR '':'' = (''P'', s, True)"
  using Cut_found [of "CHR '':''" "''P''" s] by simp

lemma Cut_V: "Cut (''V:'' @ s) CHR '':'' = (''V'', s, True)"
  using Cut_found [of "CHR '':''" "''V''" s] by simp

lemma lock_line_P: "lock_line (''P:'' @ s) nv = (s, snd nv)" and lock_line_V: "lock_line (''V:'' @ s) nv = (fst nv, s)"
  by (simp_all only: lock_line_def Cut_P Cut_V) simp_all

lemma lock_line_other: "other_line l \<Longrightarrow> lock_line l nv = nv"
  unfolding lock_line_def other_line_def by (cases "Cut l CHR '':''") simp

lemma fold_lock_other: "list_all other_line ls \<Longrightarrow> fold lock_line ls nv = nv"
  by (induction ls arbitrary: nv) (simp_all add: lock_line_other)

lemma apk_lines_block: "apk_wf p \<Longrightarrow> block_lines (apk_lines p)"
  by (auto simp: apk_wf_def apk_lines_def block_lines_def list_all_iff other_line_def)

lemma lock_block_apk: "apk_wf p \<Longrightarrow> lock_block (block_text (apk_lines p)) = (apk_name p, apk_version p)"
  unfolding lock_block_def
  by (simp only: Split_block [OF apk_lines_block]) (simp only: apk_lines_def apk_wf_def list_all_append fold_append comp_apply
      fold.simps id_apply fold_lock_other lock_line_P lock_line_V fst_conv snd_conv)

lemma lock_block_empty: "lock_block [] = ([], [])"
  by code_simp

lemma lock_pins_apk:
  "list_all apk_wf ps \<Longrightarrow> lock_pins (map (\<lambda>p. block_text (apk_lines p)) ps @ [[]]) = Inr (map apk_pin ps)"
proof (induction ps)
  case Nil
  then show ?case by (simp add: lock_block_empty)
next
  case (Cons p ps)
  then have "apk_name p \<noteq> []" "apk_version p \<noteq> []" by (simp_all add: apk_wf_def)
  then show ?case using Cons by (simp add: lock_block_apk apk_pin_def)
qed

lemma pins_of_db: "list_all apk_wf ps \<Longrightarrow> lock_pins (SplitAt (apk_db ps) [newline, newline]) = Inr (map apk_pin ps)"
  unfolding apk_db_def
  by (subst SplitAt_blocks) (auto simp: list_all_iff apk_lines_block lock_pins_apk comp_def)

text \<open>The lines of a written lock, read back at the line ends.\<close>

lemma lock_text_lines:
  assumes "list_all (\<lambda>l. newline \<notin> set l) ls" and "ls \<noteq> []"
  shows "Split (Join ls [newline] @ [newline]) newline = ls @ [[]]"
  using assms Split_sep [of "Join ls [newline]" newline "[]"] Split_Join [of ls newline] by (simp add: list_all_iff)

lemma apk_pin_no_newline: "apk_wf p \<Longrightarrow> newline \<notin> set (apk_pin p)"
  by (simp add: apk_wf_def apk_pin_def)

definition block_ok :: "string \<Rightarrow> bool" where
  "block_ok b = ((fst (lock_block b) = []) = (snd (lock_block b) = []))"

definition block_pins :: "string list \<Rightarrow> string list" where
  "block_pins bs = map (\<lambda>b. fst (lock_block b) @ ''='' @ snd (lock_block b)) (filter (\<lambda>b. fst (lock_block b) \<noteq> []) bs)"

lemma lock_pins_ok: "list_all block_ok bs \<Longrightarrow> lock_pins bs = Inr (block_pins bs)"
proof (induction bs)
  case Nil
  then show ?case by (simp add: block_pins_def)
next
  case (Cons b bs)
  then show ?case by (cases "lock_block b") (simp add: block_ok_def block_pins_def)
qed

lemma lock_pins_bad: "\<not> list_all block_ok bs \<Longrightarrow> \<exists>e. lock_pins bs = Inl e"
proof (induction bs)
  case Nil
  then show ?case by simp
next
  case (Cons b bs)
  show ?case
  proof (cases "block_ok b")
    case True
    then obtain e where "lock_pins bs = Inl e" using Cons by auto
    then show ?thesis using True by (cases "lock_block b") (simp add: block_ok_def)
  next
    case False
    then show ?thesis by (cases "lock_block b") (simp add: block_ok_def)
  qed
qed

subsection \<open>Properties\<close>

text \<open>C29: The lock of a database pins exactly the packages installed. For a database of one or more
  packages, each a block of lines among which one names it and one gives its version, \<^verbatim>\<open>Lock\<close>
  succeeds, and the lines of the lock are sorted and are the packages' \<^verbatim>\<open>name=version\<close>, each as
  often as the database has it, with nothing else; written to the command's standard output
  they are what it leaves there, with exit status 0.\<close>

theorem lock_pins_what_is_installed:
  assumes "list_all apk_wf ps" and "ps \<noteq> []" and "os_open os path = Inr (apk_db ps, None)"
  shows "\<exists>pins. Lock (apk_db ps) = Inr (unlines pins) \<and> Split (unlines pins) newline = pins @ [[]]
    \<and> sorted pins \<and> mset pins = mset (map apk_pin ps) \<and> run_apklock os [path] = (0, unlines pins)"
proof -
  let ?pins = "Sort (map apk_pin ps)"
  have ne: "?pins \<noteq> []" using assms(2) by (metis Sort_length length_0_conv length_map)
  have nl: "list_all (\<lambda>l. newline \<notin> set l) ?pins"
    using assms(1) by (auto simp: list_all_iff apk_pin_no_newline)
  have joined: "Join ls [newline] @ [newline] = unlines ls" if "ls \<noteq> []" for ls :: "string list"
    using that by (induction ls rule: list_nonempty_induct) (simp_all add: unlines_def Join_Cons)
  have lock: "Lock (apk_db ps) = Inr (unlines ?pins)"
    using assms(1,2) joined [OF ne] by (simp add: Lock_def pins_of_db)
  show ?thesis
    using lock lock_text_lines [OF nl ne] joined [OF ne] assms(3) by (intro exI [of _ ?pins]) (simp add: run_apklock_def)
qed

text \<open>C30: A lock is refused, rather than written short, when a block of the database is half a
  package. \<^verbatim>\<open>Lock\<close> succeeds exactly when every block has both a name and a version or neither,
  and some block has both.\<close>

theorem lock_refuses_half_a_package:
  "(\<exists>lock. Lock db = Inr lock) \<longleftrightarrow>
     list_all (\<lambda>b. (fst (lock_block b) = []) = (snd (lock_block b) = [])) (SplitAt db [newline, newline])
     \<and> list_ex (\<lambda>b. fst (lock_block b) \<noteq> []) (SplitAt db [newline, newline])"
proof (cases "list_all block_ok (SplitAt db [newline, newline])")
  case True
  then show ?thesis
    by (auto simp: Lock_def lock_pins_ok block_pins_def filter_empty_conv list_ex_iff simp flip: block_ok_def)
next
  case False
  then obtain e where "lock_pins (SplitAt db [newline, newline]) = Inl e" using lock_pins_bad by blast
  then show ?thesis using False by (simp add: Lock_def flip: block_ok_def)
qed

definition sample_packages :: "apk_package list" where
  "sample_packages = [
     \<lparr>apk_before = [''C:Q1=''], apk_name = ''zlib-static'', apk_between = [], apk_version = ''1.3.1-r2'', apk_after = [''A:x86_64'']\<rparr>,
     \<lparr>apk_before = [], apk_name = ''glib-static'', apk_between = [], apk_version = ''2.82'', apk_after = []\<rparr>]"

definition sample_os :: os_env where
  "sample_os = \<lparr>os_stat = (\<lambda>_. Inl ErrNotExist), os_open = (\<lambda>_. Inr (apk_db sample_packages, None)), os_getwd = Inl ErrNotExist\<rparr>"

theorem lock_pins_what_is_installed_witness:
  "list_all apk_wf sample_packages \<and> sample_packages \<noteq> [] \<and> os_open sample_os ''db'' = Inr (apk_db sample_packages, None)
   \<and> (\<exists>pins. Lock (apk_db sample_packages) = Inr (unlines pins) \<and> Split (unlines pins) newline = pins @ [[]]
        \<and> sorted pins \<and> mset pins = mset (map apk_pin sample_packages) \<and> run_apklock sample_os [''db''] = (0, unlines pins))"
proof -
  have 1: "list_all apk_wf sample_packages" by code_simp
  have 2: "sample_packages \<noteq> []" by (simp add: sample_packages_def)
  have 3: "os_open sample_os ''db'' = Inr (apk_db sample_packages, None)" by (simp add: sample_os_def)
  show ?thesis using lock_pins_what_is_installed [OF 1 2 3] 1 2 3 by (intro conjI)
qed

end
