(* ===== verification/Machine_Types.thy ===== *)
theory Machine_Types
  imports Go_Sort Machine_Spec
begin

text \<open>
  The watch on the pinned machine type: \<^verbatim>\<open>hack/machinetype/main.go\<close>.

  \<open>Check\<close> reads QEMU's list of machine types and \<open>Compat\<close> quotes the arrays of QEMU's source that
  say what a newer type changes; \<open>run_machinetype\<close> is the command, its QEMU a function from a
  binary to the list it prints. The regular expressions are matched the way the pattern's
  leftmost-first match does it: the lazy \<^verbatim>\<open>.*?\<close> of a line's tail takes one more byte only when
  what follows does not match. Versions have the order of their numbers, which \<^verbatim>\<open>newer\<close> is shown to follow.
\<close>

datatype version = Version (major: nat) (minor: nat)

definition newer :: "version \<Rightarrow> version \<Rightarrow> bool" where
  "newer v than = (major v > major than \<or> major v = major than \<and> minor v > minor than)"

text \<open>The order of versions as their numbers have it: by X, and by Y among those of the same X.\<close>

instantiation version :: linorder
begin

definition less_eq_version :: "version \<Rightarrow> version \<Rightarrow> bool" where
  "less_eq_version v w = (if major v = major w then minor v \<le> minor w else major v < major w)"

definition less_version :: "version \<Rightarrow> version \<Rightarrow> bool" where
  "less_version v w = (v \<le> w \<and> \<not> w \<le> v)"

instance
proof
  fix x y z :: version
  show "x \<le> y \<Longrightarrow> y \<le> z \<Longrightarrow> x \<le> z" by (auto simp: less_eq_version_def split: if_splits)
  show "x \<le> y \<Longrightarrow> y \<le> x \<Longrightarrow> x = y" by (cases x; cases y) (auto simp: less_eq_version_def split: if_splits)
qed (auto simp: less_version_def less_eq_version_def)

end

subsection \<open>Reading a machine type\<close>

definition q35_name :: string where
  "q35_name = ''pc-q35-''"

definition deprecated_mark :: string where
  "deprecated_mark = ''(deprecated)''"

text \<open>The common head of the two patterns, \<^verbatim>\<open>^pc-q35-(\d+)\.(\d+)\<close>, and what follows it.\<close>

definition q35_head :: "string \<Rightarrow> (version \<times> string) option" where
  "q35_head s =
     (if \<not> HasPrefix s q35_name then None
      else let t = drop (length q35_name) s; x = takeWhile is_digit t in
        case dropWhile is_digit t of
          [] \<Rightarrow> None
        | c # u \<Rightarrow>
            (let y = takeWhile is_digit u in
             if c = CHR ''.'' \<and> x \<noteq> [] \<and> y \<noteq> []
             then Some (Version (Atoi_digits x) (Atoi_digits y), dropWhile is_digit u) else None))"

definition parse_type :: "string \<Rightarrow> version option" where
  "parse_type name = (case q35_head name of Some (v, []) \<Rightarrow> Some v | _ \<Rightarrow> None)"

text \<open>The tail \<^verbatim>\<open>.*?(\(deprecated\))?\s*$\<close>: whether the group took part in the match.\<close>

fun q35_tail :: "string \<Rightarrow> bool option" where
  "q35_tail [] = Some False"
| "q35_tail (c # cs) =
     (if HasPrefix (c # cs) deprecated_mark \<and> list_all re_space (drop (length deprecated_mark) (c # cs)) then Some True
      else if list_all re_space (c # cs) then Some False
      else if c = newline then None else q35_tail cs)"

definition q35_line :: "string \<Rightarrow> (version \<times> bool) option" where
  "q35_line line = (case q35_head line of
      Some (v, c # t) \<Rightarrow> (if re_space c then map_option (Pair v) (q35_tail t) else None)
    | _ \<Rightarrow> None)"

subsection \<open>Check\<close>

datatype type_error = NotQ35 string | Deprecated string | NotOffered string | NoArray string | NoEnd string

text \<open>The loop over the lines: whether the pinned type was seen and the newest version so far, or
  nothing when the pinned type is deprecated.\<close>

fun check_lines :: "version \<Rightarrow> string list \<Rightarrow> bool \<Rightarrow> version \<Rightarrow> (bool \<times> version) option" where
  "check_lines want [] found newest = Some (found, newest)"
| "check_lines want (line # ls) found newest =
     (case q35_line (TrimSpace line) of
        None \<Rightarrow> check_lines want ls found newest
      | Some (v, dep) \<Rightarrow>
          if v = want \<and> dep then None
          else check_lines want ls (found \<or> v = want) (if newer v newest then v else newest))"

definition type_notice :: "version \<Rightarrow> string \<Rightarrow> string" where
  "type_notice v pinned = ''QEMU offers pc-q35-'' @ dec (major v) @ ''.'' @ dec (minor v) @ ''; this machine stays on '' @ pinned
     @ '' (machine.MachineType), and moving it is a new machine: task qemu:compat says what would change.''"

definition Check :: "string \<Rightarrow> string \<Rightarrow> (type_error, string) result" where
  "Check help pinned = (case parse_type pinned of
      None \<Rightarrow> Inl (NotQ35 pinned)
    | Some want \<Rightarrow> (case check_lines want (Split help newline) False (Version 0 0) of
          None \<Rightarrow> Inl (Deprecated pinned)
        | Some (found, newest) \<Rightarrow>
            if \<not> found then Inl (NotOffered pinned)
            else Inr (if newer newest want then type_notice newest pinned else [])))"

subsection \<open>Compat\<close>

text \<open>Whether the declaration's pattern matches at the front, for a name that does not start with
  white space: \<^verbatim>\<open>GlobalProperty\s+name\[\]\s*=\s*\{\<close>.\<close>

definition array_at :: "string \<Rightarrow> string \<Rightarrow> bool" where
  "array_at name s =
     (let r1 = drop (length ''GlobalProperty'') s; r2 = dropWhile re_space r1;
          r3 = dropWhile re_space (drop (length (name @ ''[]'')) r2);
          r4 = dropWhile re_space (drop 1 r3)
      in HasPrefix s ''GlobalProperty'' \<and> r1 \<noteq> r2 \<and> HasPrefix r2 (name @ ''[]'') \<and> HasPrefix r3 ''='' \<and> HasPrefix r4 ''{'')"

fun array_start :: "string \<Rightarrow> string \<Rightarrow> string option" where
  "array_start name [] = None"
| "array_start name (c # cs) = (if array_at name (c # cs) then Some (c # cs) else array_start name cs)"

definition array_end :: string where
  "array_end = ''};''"

fun through_end :: "string \<Rightarrow> string option" where
  "through_end [] = None"
| "through_end (c # cs) =
     (if HasPrefix (c # cs) array_end then Some array_end else map_option (Cons c) (through_end cs))"

definition array :: "string \<Rightarrow> string \<Rightarrow> (type_error, string) result" where
  "array src name = (case array_start name src of
      None \<Rightarrow> Inl (NoArray name)
    | Some s \<Rightarrow> (case through_end s of None \<Rightarrow> Inl (NoEnd name) | Some a \<Rightarrow> Inr a))"

definition compat_names :: "version \<Rightarrow> string list" where
  "compat_names v = [''hw_compat_'' @ dec (major v) @ ''_'' @ dec (minor v), ''pc_compat_'' @ dec (major v) @ ''_'' @ dec (minor v)]"

fun compat_arrays :: "string \<Rightarrow> string list \<Rightarrow> string \<Rightarrow> (type_error, string) result" where
  "compat_arrays src [] b = Inr b"
| "compat_arrays src (name # names) b = (case array src name of
      Inl e \<Rightarrow> Inl e
    | Inr arr \<Rightarrow> compat_arrays src names (b @ arr @ [newline]))"

definition TrimRight_newline :: "string \<Rightarrow> string" where
  "TrimRight_newline s = rev (dropWhile (\<lambda>c. c = newline) (rev s))"

definition Compat :: "string \<Rightarrow> string \<Rightarrow> (type_error, string) result" where
  "Compat src pinned = (case parse_type pinned of
      None \<Rightarrow> Inl (NotQ35 pinned)
    | Some v \<Rightarrow> (case compat_arrays src (compat_names v) [] of
          Inl e \<Rightarrow> Inl e
        | Inr b \<Rightarrow> Inr (TrimRight_newline b)))"

subsection \<open>The command\<close>

fun read_all :: "os_env \<Rightarrow> string list \<Rightarrow> string list option" where
  "read_all os [] = Some []"
| "read_all os (f # fs) = (case os_open os f of
      Inr (b, None) \<Rightarrow> map_option (Cons b) (read_all os fs)
    | _ \<Rightarrow> None)"

definition newest_line :: string where
  "newest_line = ''machinetype: '' @ MachineType @ '' is the newest type in this QEMU: nothing newer to differ from it''"

text \<open>\<^verbatim>\<open>run\<close>: the exit status and the standard output.\<close>

definition run_check :: "(string \<Rightarrow> string option) \<Rightarrow> string list \<Rightarrow> int \<times> string" where
  "run_check help args = (case args of
      [flag, qemu] \<Rightarrow>
        (if flag \<noteq> ''-qemu'' then (2, [])
         else (case help qemu of
                 None \<Rightarrow> (1, [])
               | Some out \<Rightarrow> (case Check out MachineType of
                     Inl _ \<Rightarrow> (1, [])
                   | Inr notice \<Rightarrow> (0, if notice = [] then [] else notice @ [newline]))))
    | _ \<Rightarrow> (2, []))"

definition run_compat :: "os_env \<Rightarrow> string list \<Rightarrow> int \<times> string" where
  "run_compat os args = (if length args \<noteq> 2 then (2, [])
     else (case read_all os args of
             None \<Rightarrow> (1, [])
           | Some src \<Rightarrow> (case Compat (Join src [newline]) MachineType of
                 Inl (NoArray _) \<Rightarrow> (0, newest_line @ [newline])
               | Inl _ \<Rightarrow> (1, [])
               | Inr out \<Rightarrow> (0, out @ [newline]))))"

definition run_machinetype :: "os_env \<Rightarrow> (string \<Rightarrow> string option) \<Rightarrow> string list \<Rightarrow> int \<times> string" where
  "run_machinetype os help args = (case args of
      [] \<Rightarrow> (2, [])
    | cmd # rest \<Rightarrow>
        if cmd = ''check'' then run_check help rest
        else if cmd = ''compat'' then run_compat os rest else (2, []))"

text \<open>The program itself. \<open>combined\<close> is \<^verbatim>\<open>exec.Command(...).CombinedOutput()\<close>: what the command wrote to
  its two outputs, and the error it ended with.\<close>

definition qemu_help :: "(string \<Rightarrow> string list \<Rightarrow> string \<times> string option) \<Rightarrow> string \<Rightarrow> (string, string) result" where
  "qemu_help combined qemu = (case combined qemu [''-machine'', ''help''] of
      (out, Some e) \<Rightarrow> Inl (qemu @ '' -machine help: '' @ e @ '': '' @ out)
    | (out, None) \<Rightarrow> Inr out)"

definition machinetype_main :: "os_env \<Rightarrow> (string \<Rightarrow> string list \<Rightarrow> string \<times> string option) \<Rightarrow> string list \<Rightarrow> int \<times> string" where
  "machinetype_main os combined args =
     run_machinetype os (\<lambda>qemu. case qemu_help combined qemu of Inl _ \<Rightarrow> None | Inr out \<Rightarrow> Some out) args"

subsection \<open>What a list of machine types offers\<close>

definition offered :: "string \<Rightarrow> (version \<times> bool) list" where
  "offered help = List.map_filter (\<lambda>l. q35_line (TrimSpace l)) (Split help newline)"

lemma Version_0_least: "Version 0 0 \<le> v"
  by (cases v) (auto simp: less_eq_version_def)

text \<open>The code's comparison is that order.\<close>

lemma newer_less: "newer v w \<longleftrightarrow> w < v"
  by (auto simp: newer_def less_version_def less_eq_version_def)

lemma check_lines_offered:
  "check_lines want ls found newest =
     (let vs = List.map_filter (\<lambda>l. q35_line (TrimSpace l)) ls in
      if (want, True) \<in> set vs then None
      else Some (found \<or> (want, False) \<in> set vs, Max (insert newest (fst ` set vs))))"
proof (induction want ls found newest rule: check_lines.induct)
  case (1 want found newest)
  then show ?case by (simp add: map_filter_simps)
next
  case (2 want line ls found newest)
  show ?case
  proof (cases "q35_line (TrimSpace line)")
    case None
    then show ?thesis using 2(1) by (simp add: map_filter_simps)
  next
    case (Some r)
    obtain v dep where r: "r = (v, dep)" by fastforce
    let ?vs = "List.map_filter (\<lambda>l. q35_line (TrimSpace l)) ls"
    have newest: "(if newer v newest then v else newest) = max newest v"
      by (auto simp: newer_less max_def)
    have Max: "Max (insert (max newest v) (fst ` set ?vs)) = Max (insert newest (insert v (fst ` set ?vs)))"
      by (cases "?vs = []") (simp_all add: ac_simps)
    show ?thesis
    proof (cases "v = want \<and> dep")
      case True
      then show ?thesis using Some r by (simp add: map_filter_simps)
    next
      case False
      have "check_lines want (line # ls) found newest = check_lines want ls (found \<or> v = want) (max newest v)"
        using Some r False newest by auto
      also have "\<dots> = (if (want, True) \<in> set ?vs then None
          else Some ((found \<or> v = want) \<or> (want, False) \<in> set ?vs, Max (insert newest (insert v (fst ` set ?vs)))))"
        using 2(2) [OF Some r [symmetric] False] unfolding newest Let_def Max .
      finally show ?thesis using Some r False by (auto simp: map_filter_simps simp del: check_lines.simps)
    qed
  qed
qed

lemma q35_tail_mark:
  assumes "newline \<notin> set s" and "s = [] \<or> \<not> re_space (last s)"
  shows "q35_tail s = Some (\<exists>a. s = a @ deprecated_mark)"
  using assms
proof (induction s)
  case Nil
  then show ?case by (simp add: deprecated_mark_def)
next
  case (Cons c cs)
  have last: "\<not> re_space (last (c # cs))" using Cons.prems by simp
  show ?case
  proof (cases "c # cs = deprecated_mark")
    case True
    moreover have "q35_tail deprecated_mark = Some True" by code_simp
    ultimately show ?thesis by simp
  next
    case False
    have "\<not> (HasPrefix (c # cs) deprecated_mark \<and> list_all re_space (drop (length deprecated_mark) (c # cs)))"
    proof
      assume m: "HasPrefix (c # cs) deprecated_mark \<and> list_all re_space (drop (length deprecated_mark) (c # cs))"
      then obtain r where r: "c # cs = deprecated_mark @ r" by (auto simp: HasPrefix_iff)
      then have "r \<noteq> []" using False by auto
      then have "last r \<in> set r" and "last (c # cs) = last r" using r by auto
      then show False using m last unfolding r by (auto simp: list_all_iff)
    qed
    moreover have "\<not> list_all re_space (c # cs)"
      using last by (metis last_in_set list.distinct(1) list_all_iff)
    moreover have "c \<noteq> newline" using Cons.prems(1) by auto
    moreover have "cs = [] \<or> \<not> re_space (last cs)" using last by (cases "cs = []") auto
    moreover have "(\<exists>a. c # cs = a @ deprecated_mark) = (\<exists>a. cs = a @ deprecated_mark)"
      using False by (auto simp: Cons_eq_append_conv)
    moreover have "q35_tail cs = Some (\<exists>a. cs = a @ deprecated_mark)"
      using Cons.IH Cons.prems(1) \<open>cs = [] \<or> \<not> re_space (last cs)\<close> by simp
    ultimately show ?thesis by (simp only: q35_tail.simps(2) if_False)
  qed
qed

text \<open>A line of the list: the type's name, its description, and the mark of a deprecated one.\<close>

record machine_line =
  ml_version :: version
  ml_about :: string
  ml_deprecated :: bool

definition line_text :: "machine_line \<Rightarrow> string" where
  "line_text m = q35_name @ dec (major (ml_version m)) @ ''.'' @ dec (minor (ml_version m)) @ '' '' @ ml_about m
     @ (if ml_deprecated m then '' '' @ deprecated_mark else [])"

definition line_wf :: "machine_line \<Rightarrow> bool" where
  "line_wf m = (major (ml_version m) < 2 ^ 63 \<and> minor (ml_version m) < 2 ^ 63 \<and> ml_about m \<noteq> [] \<and> newline \<notin> set (ml_about m)
     \<and> of_char (last (ml_about m)) < (128 :: nat) \<and> \<not> ascii_space (last (ml_about m))
     \<and> (\<not> ml_deprecated m \<longrightarrow> \<not> HasPrefix (rev (ml_about m)) (rev deprecated_mark)))"

lemma is_digit_dec: "takeWhile is_digit (dec n @ c # r) = dec n" "dropWhile is_digit (dec n @ c # r) = c # r"
  if "\<not> is_digit c"
  using that dec_digits by (auto intro!: takeWhile_append_stop)

lemma q35_head_text:
  assumes "\<not> is_digit c" "x < 2 ^ 63" "y < 2 ^ 63"
  shows "q35_head (q35_name @ dec x @ CHR ''.'' # dec y @ c # r) = Some (Version x y, c # r)"
proof -
  have dot: "\<not> is_digit CHR ''.''" by code_simp
  show ?thesis
    unfolding q35_head_def using assms
    by (simp add: is_digit_dec [OF dot] is_digit_dec [OF assms(1)] Atoi_dec)
qed

lemma ends_iff: "(\<exists>a. s = a @ m) \<longleftrightarrow> HasPrefix (rev s) (rev m)"
  unfolding HasPrefix_iff by (metis rev_append rev_rev_ident)

lemma q35_line_text:
  assumes "line_wf m"
  shows "q35_line (line_text m) = Some (ml_version m, ml_deprecated m)"
proof -
  let ?t = "ml_about m @ (if ml_deprecated m then '' '' @ deprecated_mark else [])"
  have space: "\<not> is_digit CHR '' ''" "re_space CHR '' ''" by code_simp+
  have mark: "\<not> re_space (last deprecated_mark)" "newline \<notin> set deprecated_mark" "deprecated_mark \<noteq> []"
    by code_simp+
  have "\<not> re_space (last (ml_about m))"
    using assms by (auto simp: line_wf_def re_space_def ascii_space_def)
  then have last: "\<not> re_space (last ?t)" using mark by simp
  have nl: "newline \<notin> set ?t" using mark assms by (auto simp: line_wf_def)
  have tail: "q35_tail ?t = Some (\<exists>a. ?t = a @ deprecated_mark)"
    by (rule q35_tail_mark [OF nl]) (use last in blast)
  have "(\<exists>a. ?t = a @ deprecated_mark) = ml_deprecated m"
    using assms unfolding line_wf_def by (cases "ml_deprecated m") (simp_all only: ends_iff if_True if_False append_Nil2, auto simp: HasPrefix_def)
  moreover have "q35_head (line_text m) = Some (ml_version m, CHR '' '' # ?t)"
    using q35_head_text [of "CHR '' ''" "major (ml_version m)" "minor (ml_version m)" ?t] assms space
    by (simp add: line_text_def line_wf_def)
  ultimately show ?thesis unfolding q35_line_def using space tail by simp
qed

lemma TrimSpace_line_text:
  assumes "line_wf m"
  shows "TrimSpace (line_text m) = line_text m"
proof (rule TrimSpace_fixed)
  have "space_width (CHR ''p'' # r) = 0" for r by (simp add: space_width_def ascii_space_def)
  then show "line_text m = [] \<or> space_width (line_text m) = 0" by (simp add: line_text_def q35_name_def)
  have ne: "ml_about m \<noteq> []" using assms by (simp add: line_wf_def)
  have mark: "rev deprecated_mark = CHR '')'' # tl (rev deprecated_mark)" by code_simp
  have "\<exists>c r. rev (line_text m) = c # r \<and> of_char c < (128 :: nat) \<and> \<not> ascii_space c"
  proof (cases "ml_deprecated m")
    case True
    then have "rev (line_text m) = CHR '')'' # tl (rev deprecated_mark) @ rev (q35_name @ dec (major (ml_version m)) @ ''.''
        @ dec (minor (ml_version m)) @ '' '' @ ml_about m @ '' '')"
      unfolding line_text_def by (subst append_Cons [symmetric]) (simp only: mark [symmetric], simp)
    moreover have "of_char CHR '')'' < (128 :: nat)" "\<not> ascii_space CHR '')''" by code_simp+
    ultimately show ?thesis by blast
  next
    case False
    obtain ab l where "ml_about m = ab @ [l]" using ne by (cases "ml_about m" rule: rev_exhaust) auto
    then show ?thesis using False assms by (simp add: line_text_def line_wf_def)
  qed
  then show "line_text m = [] \<or> space_width_last (rev (line_text m)) = 0"
    by (auto simp: space_width_last_def)
qed

text \<open>A whole list: lines for versioned q35 types among others, whose text is not of that form.\<close>

datatype help_line = Q35 machine_line | Other string

fun help_line_text :: "help_line \<Rightarrow> string" where
  "help_line_text (Q35 m) = line_text m"
| "help_line_text (Other s) = s"

fun help_line_wf :: "help_line \<Rightarrow> bool" where
  "help_line_wf (Q35 m) = line_wf m"
| "help_line_wf (Other s) = (newline \<notin> set s \<and> \<not> HasPrefix (TrimSpace s) q35_name)"

definition help_text :: "help_line list \<Rightarrow> string" where
  "help_text ls = unlines (map help_line_text ls)"

definition q35_types :: "help_line list \<Rightarrow> machine_line list" where
  "q35_types ls = List.map_filter (\<lambda>l. case l of Q35 m \<Rightarrow> Some m | Other _ \<Rightarrow> None) ls"

definition type_name :: "version \<Rightarrow> string" where
  "type_name v = q35_name @ dec (major v) @ ''.'' @ dec (minor v)"

lemma line_text_no_newline: "line_wf m \<Longrightarrow> newline \<notin> set (line_text m)"
proof -
  have "newline \<notin> set q35_name" "newline \<notin> set deprecated_mark" "newline \<notin> set ''.''" "newline \<notin> set '' ''" by code_simp+
  moreover have "newline \<notin> set (dec n)" for n using dec_digits [of newline n] by (auto simp: is_digit_def)
  ultimately show "line_wf m \<Longrightarrow> newline \<notin> set (line_text m)" by (auto simp: line_text_def line_wf_def)
qed

lemma help_line_read:
  assumes "help_line_wf l"
  shows "q35_line (TrimSpace (help_line_text l)) = (case l of Q35 m \<Rightarrow> Some (ml_version m, ml_deprecated m) | Other _ \<Rightarrow> None)"
proof (cases l)
  case (Q35 m)
  then show ?thesis using assms by (simp add: TrimSpace_line_text q35_line_text)
next
  case (Other s)
  then show ?thesis using assms by (simp add: q35_line_def q35_head_def)
qed

lemma help_line_no_newline: "help_line_wf l \<Longrightarrow> newline \<notin> set (help_line_text l)"
  by (cases l) (simp_all add: line_text_no_newline)

lemma offered_help:
  assumes "list_all help_line_wf ls"
  shows "offered (help_text ls) = map (\<lambda>m. (ml_version m, ml_deprecated m)) (q35_types ls)"
proof -
  have "\<forall>t \<in> set (map help_line_text ls). newline \<notin> set t"
    using assms help_line_no_newline by (auto simp: list_all_iff)
  then have lines: "Split (help_text ls) newline = map help_line_text ls @ [[]]"
    unfolding help_text_def by (rule Split_unlines)
  have empty: "q35_line [] = None" by code_simp
  show ?thesis
    using assms unfolding offered_def lines
    by (induction ls) (auto simp: map_filter_simps q35_types_def help_line_read empty split: help_line.splits)
qed

lemma parse_type_name:
  assumes "major v < 2 ^ 63" "minor v < 2 ^ 63"
  shows "parse_type (type_name v) = Some v"
proof -
  have dot: "\<not> is_digit CHR ''.''" by code_simp
  have run: "takeWhile is_digit (dec n) = dec n" "dropWhile is_digit (dec n) = []" for n
    using dec_digits by (auto intro: takeWhile_all dropWhile_all)
  show ?thesis
    using assms by (simp add: run parse_type_def q35_head_def type_name_def is_digit_dec [OF dot] Atoi_dec)
qed

lemma Check_offered:
  "Check help pinned = (case parse_type pinned of
      None \<Rightarrow> Inl (NotQ35 pinned)
    | Some want \<Rightarrow>
        if (want, True) \<in> set (offered help) then Inl (Deprecated pinned)
        else if (want, False) \<notin> set (offered help) then Inl (NotOffered pinned)
        else let newest = Max (fst ` set (offered help)) in
          Inr (if want < newest then type_notice newest pinned else []))"
proof -
  have "Max (insert (Version 0 0) (fst ` set vs)) = Max (fst ` set vs)" if "(want, False) \<in> set vs" for want and vs :: "(version \<times> bool) list"
    using that by (subst Max_insert) (auto simp: max_absorb2 Version_0_least)
  then show ?thesis
    by (auto simp: Check_def check_lines_offered offered_def [symmetric] newer_less Let_def split: option.split)
qed

subsection \<open>Where an array is\<close>

lemma array_start_Some:
  "array_start name src = Some s \<Longrightarrow> \<exists>pre. src = pre @ s \<and> array_at name s
     \<and> (\<forall>p q. src = p @ q \<and> length p < length pre \<longrightarrow> \<not> array_at name q)"
proof (induction src)
  case Nil
  then show ?case by simp
next
  case (Cons c cs)
  show ?case
  proof (cases "array_at name (c # cs)")
    case True
    then show ?thesis using Cons.prems by (intro exI [of _ "[]"]) simp
  next
    case False
    then obtain pre where pre: "cs = pre @ s" "array_at name s"
        "\<forall>p q. cs = p @ q \<and> length p < length pre \<longrightarrow> \<not> array_at name q" using Cons by auto
    have "\<not> array_at name q" if "c # cs = p @ q" "length p < length (c # pre)" for p q
      using that pre(3) False by (cases p) auto
    then show ?thesis using pre(1,2) by (intro exI [of _ "c # pre"]) auto
  qed
qed

lemma array_start_None: "array_start name src = None \<Longrightarrow> src = p @ q \<Longrightarrow> q \<noteq> [] \<Longrightarrow> \<not> array_at name q"
proof (induction src arbitrary: p)
  case Nil
  then show ?case by simp
next
  case (Cons c cs)
  then show ?case by (cases p) (auto split: if_splits)
qed

lemma through_end_Some:
  "through_end s = Some a \<Longrightarrow> \<exists>body post. a = body @ array_end \<and> s = a @ post
     \<and> (\<forall>p q. s = p @ array_end @ q \<longrightarrow> length body \<le> length p)"
proof (induction s arbitrary: a)
  case Nil
  then show ?case by simp
next
  case (Cons c cs)
  show ?case
  proof (cases "HasPrefix (c # cs) array_end")
    case True
    then obtain r where "c # cs = array_end @ r" by (auto simp: HasPrefix_iff)
    moreover have "a = array_end" using Cons.prems True by simp
    ultimately show ?thesis by (intro exI [of _ "[]"] exI [of _ r]) simp
  next
    case False
    then obtain a' where a': "through_end cs = Some a'" "a = c # a'" using Cons.prems by auto
    then obtain body post where bp: "a' = body @ array_end" "cs = a' @ post"
        "\<forall>p q. cs = p @ array_end @ q \<longrightarrow> length body \<le> length p" using Cons.IH by blast
    have "length (c # body) \<le> length p" if "c # cs = p @ array_end @ q" for p q
      using that bp(3) False by (cases p) (auto simp: HasPrefix_iff)
    then show ?thesis using a'(2) bp(1,2) by (intro exI [of _ "c # body"] exI [of _ post]) auto
  qed
qed

lemma through_end_None: "through_end s = None \<Longrightarrow> \<not> Contains s array_end"
  by (induction s) (auto simp: array_end_def split: if_splits)

text \<open>The declaration of an array in a source: its first occurrence, through the first end after it.\<close>

definition declared_array :: "string \<Rightarrow> string \<Rightarrow> string \<Rightarrow> bool" where
  "declared_array src name a = (\<exists>pre body post. src = pre @ a @ post \<and> a = body @ array_end \<and> array_at name (a @ post)
     \<and> (\<forall>p q. src = p @ q \<and> length p < length pre \<longrightarrow> \<not> array_at name q)
     \<and> (\<forall>p q. a @ post = p @ array_end @ q \<longrightarrow> length body \<le> length p))"

lemma array_cases:
  "case array src name of
     Inr a \<Rightarrow> declared_array src name a
   | Inl e \<Rightarrow> e = NoArray name \<and> (\<forall>p q. src = p @ q \<and> q \<noteq> [] \<longrightarrow> \<not> array_at name q)
       \<or> e = NoEnd name \<and> (\<exists>p q. src = p @ q \<and> array_at name q \<and> \<not> Contains q array_end)"
proof (cases "array_start name src")
  case None
  then show ?thesis using array_start_None [OF None] by (auto simp: array_def)
next
  case (Some s)
  from array_start_Some [OF Some] obtain pre where pre: "src = pre @ s" "array_at name s"
    "\<forall>p q. src = p @ q \<and> length p < length pre \<longrightarrow> \<not> array_at name q" by blast
  show ?thesis
  proof (cases "through_end s")
    case None
    then have "\<not> Contains s array_end" by (rule through_end_None)
    then have "\<exists>p q. src = p @ q \<and> array_at name q \<and> \<not> Contains q array_end" using pre(1,2) by blast
    then show ?thesis using Some None by (simp add: array_def)
  next
    case (Some a)
    from through_end_Some [OF this] obtain body post where bp: "a = body @ array_end" "s = a @ post"
      "\<forall>p q. s = p @ array_end @ q \<longrightarrow> length body \<le> length p" by blast
    have "declared_array src name a"
      unfolding declared_array_def
      by (intro exI [of _ pre] exI [of _ body] exI [of _ post] conjI)
        (fact pre [unfolded bp(2)] bp(1) bp(3) [unfolded bp(2)])+
    then show ?thesis using Some \<open>array_start name src = Some s\<close> by (simp add: array_def)
  qed
qed

lemma declaration_ends: "declared_array src name a \<Longrightarrow> \<exists>b. a = b @ array_end"
  by (auto simp: declared_array_def)

lemma TrimRight_declaration: "declared_array src name a \<Longrightarrow> TrimRight_newline (b @ a @ [newline]) = b @ a"
  using declaration_ends [of src name a] by (auto simp: TrimRight_newline_def array_end_def)

lemma MachineType_name: "MachineType = type_name (Version 11 1)"
  by code_simp

subsection \<open>Properties\<close>

text \<open>C27: The check of the pinned machine type says what the list of QEMU says. For a list of
  versioned q35 types, deprecated or not, among other lines, and any pinned \<^verbatim>\<open>pc-q35-X.Y\<close>:
  \<^verbatim>\<open>Check\<close> fails as deprecated when the list marks that type so, fails as missing when the list does
  not have it, and otherwise succeeds, with a notice exactly when the list has a newer type, which
  names the newest one.\<close>

theorem check_answers_for_the_list:
  assumes "list_all help_line_wf ls" and "major want < 2 ^ 63" and "minor want < 2 ^ 63"
  shows "Check (help_text ls) (type_name want) =
    (let ms = set (q35_types ls); newest = Max (ml_version ` ms) in
     if \<exists>m. m \<in> ms \<and> ml_version m = want \<and> ml_deprecated m then Inl (Deprecated (type_name want))
     else if want \<notin> ml_version ` ms then Inl (NotOffered (type_name want))
     else Inr (if want < newest then type_notice newest (type_name want) else []))"
  using assms(1)
  by (auto simp: Check_offered parse_type_name [OF assms(2,3)] offered_help image_image image_iff Let_def)

text \<open>C28: The arrays \<^verbatim>\<open>compat\<close> prints are QEMU's own, whole. For a pinned \<^verbatim>\<open>pc-q35-X.Y\<close> \<^verbatim>\<open>Compat\<close>
  returns the first declaration of \<^verbatim>\<open>hw_compat_X_Y\<close> and the first of \<^verbatim>\<open>pc_compat_X_Y\<close> in the source,
  each from its \<^verbatim>\<open>GlobalProperty\<close> through the first \<^verbatim>\<open>};\<close> after it, on lines of their own; and it
  fails only for one of the two that the source does not declare, or that nothing ends.\<close>

theorem compat_quotes_the_source:
  assumes "parse_type pinned = Some v"
  shows "case Compat src pinned of
      Inr out \<Rightarrow> (\<exists>hw pc. out = hw @ [newline] @ pc \<and> declared_array src (compat_names v ! 0) hw
        \<and> declared_array src (compat_names v ! 1) pc)
    | Inl e \<Rightarrow> (\<exists>name \<in> set (compat_names v).
        e = NoArray name \<and> (\<forall>p q. src = p @ q \<and> q \<noteq> [] \<longrightarrow> \<not> array_at name q)
        \<or> e = NoEnd name \<and> (\<exists>p q. src = p @ q \<and> array_at name q \<and> \<not> Contains q array_end))"
proof -
  obtain n1 n2 where ns: "compat_names v = [n1, n2]" by (simp add: compat_names_def)
  note C = array_cases [where src = src and name = n1] array_cases [where src = src and name = n2]
  show ?thesis
  proof (cases "array src n1")
    case (Inl e)
    then show ?thesis using C(1) assms ns by (simp add: Compat_def)
  next
    case hw: (Inr hw)
    show ?thesis
    proof (cases "array src n2")
      case (Inl e)
      then show ?thesis using hw C(2) assms ns by (simp add: Compat_def)
    next
      case (Inr pc)
      then have "Compat src pinned = Inr (hw @ [newline] @ pc)"
        using hw C(2) assms ns TrimRight_declaration [of src n2 pc "hw @ [newline]"] by (simp add: Compat_def)
      moreover have "declared_array src n1 hw" "declared_array src n2 pc" using hw Inr C by simp_all
      ultimately show ?thesis using ns by (simp del: append_Cons append_Nil) blast
    qed
  qed
qed

definition sample_help :: "help_line list" where
  "sample_help = [Other ''Supported machines are:'',
     Q35 \<lparr>ml_version = Version 11 1, ml_about = ''Standard PC'', ml_deprecated = False\<rparr>,
     Q35 \<lparr>ml_version = Version 6 0, ml_about = ''Standard PC'', ml_deprecated = True\<rparr>,
     Q35 \<lparr>ml_version = Version 11 2, ml_about = ''Standard PC'', ml_deprecated = False\<rparr>]"

lemma sample_help_wf: "list_all help_line_wf sample_help"
proof -
  have "\<not> HasPrefix (TrimSpace ''Supported machines are:'') q35_name" by code_simp
  moreover have "newline \<notin> set ''Supported machines are:''" by code_simp
  moreover have "line_wf \<lparr>ml_version = Version a b, ml_about = ''Standard PC'', ml_deprecated = d\<rparr>"
    if "a < 2 ^ 63" "b < 2 ^ 63" for a b d
  proof -
    have "newline \<notin> set ''Standard PC''" "of_char (last ''Standard PC'') < (128 :: nat)" "\<not> ascii_space (last ''Standard PC'')"
      "\<not> HasPrefix (rev ''Standard PC'') (rev deprecated_mark)" by code_simp+
    then show ?thesis using that by (simp add: line_wf_def del: last.simps rev.simps set_simps)
  qed
  ultimately show ?thesis by (simp add: sample_help_def del: set_simps)
qed

theorem check_answers_for_the_list_witness:
  "list_all help_line_wf sample_help \<and> major (Version 11 1) < 2 ^ 63 \<and> minor (Version 11 1) < 2 ^ 63
   \<and> Check (help_text sample_help) MachineType = Inr (type_notice (Version 11 2) MachineType)"
proof -
  have b: "major (Version 11 1) < 2 ^ 63" "minor (Version 11 1) < 2 ^ 63" by simp_all
  have types: "map (\<lambda>m. (ml_version m, ml_deprecated m)) (q35_types sample_help)
      = [(Version 11 1, False), (Version 6 0, True), (Version 11 2, False)]" by code_simp
  have vs: "ml_version ` set (q35_types sample_help) = {Version 11 1, Version 6 0, Version 11 2}"
    using arg_cong [OF types, of "\<lambda>xs. fst ` set xs"] by (simp add: image_image)
  have "Max {Version 11 1, Version 6 0, Version 11 2} = Version 11 2"
    by (simp add: max_def less_eq_version_def)
  moreover have "\<not> (\<exists>m. m \<in> set (q35_types sample_help) \<and> ml_version m = Version 11 1 \<and> ml_deprecated m)"
  proof -
    have "(Version 11 1, True) \<notin> set (map (\<lambda>m. (ml_version m, ml_deprecated m)) (q35_types sample_help))"
      unfolding types by simp
    then show ?thesis by force
  qed
  moreover have "Version 11 1 < Version 11 2" by (simp add: less_version_def less_eq_version_def)
  ultimately show ?thesis
    using check_answers_for_the_list [OF sample_help_wf b] sample_help_wf b vs
    by (simp add: Let_def MachineType_name)
qed

definition sample_src :: string where
  "sample_src = ''GlobalProperty hw_compat_11_1[] = {a};GlobalProperty  pc_compat_11_1[]={b};''"

theorem compat_quotes_the_source_witness:
  "parse_type MachineType = Some (Version 11 1)
   \<and> Compat sample_src MachineType = Inr (''GlobalProperty hw_compat_11_1[] = {a};'' @ [newline] @ ''GlobalProperty  pc_compat_11_1[]={b};'')
   \<and> (\<exists>hw pc. ''GlobalProperty hw_compat_11_1[] = {a};'' @ [newline] @ ''GlobalProperty  pc_compat_11_1[]={b};'' = hw @ [newline] @ pc
        \<and> declared_array sample_src (compat_names (Version 11 1) ! 0) hw
        \<and> declared_array sample_src (compat_names (Version 11 1) ! 1) pc)"
proof -
  have p: "parse_type MachineType = Some (Version 11 1)" unfolding MachineType_name by (rule parse_type_name) simp_all
  have c: "Compat sample_src MachineType = Inr (''GlobalProperty hw_compat_11_1[] = {a};'' @ [newline] @ ''GlobalProperty  pc_compat_11_1[]={b};'')"
  proof -
    have "(case compat_arrays sample_src (compat_names (Version 11 1)) [] of Inl e \<Rightarrow> Inl e | Inr b \<Rightarrow> Inr (TrimRight_newline b))
        = Inr (''GlobalProperty hw_compat_11_1[] = {a};'' @ [newline] @ ''GlobalProperty  pc_compat_11_1[]={b};'')"
      by code_simp
    then show ?thesis unfolding Compat_def p option.case .
  qed
  show ?thesis using compat_quotes_the_source [OF p, of sample_src] p c unfolding c sum.case by (intro conjI)
qed

end
