(* ===== verification/Go_Flag.thy ===== *)
theory Go_Flag
  imports Go_Float
begin

text \<open>
  What the command lines of the repository use of Go's \<^verbatim>\<open>flag\<close>, and what it uses of \<^verbatim>\<open>strconv\<close> and
  \<^verbatim>\<open>time\<close> to read values.

  A flag set is a list of names with what setting each does to the options of a command:
  \<open>Parse\<close> reads arguments into the options up to the first that is not a flag. Integers are read
  by \<^verbatim>\<open>ParseInt\<close> with base 0, so with a sign, a prefix \<^verbatim>\<open>0b\<close>, \<^verbatim>\<open>0o\<close>, \<^verbatim>\<open>0\<close> or \<^verbatim>\<open>0x\<close> and underscores
  between digits; booleans by \<^verbatim>\<open>ParseBool\<close>; durations by \<^verbatim>\<open>ParseDuration\<close>, whose fractions go through
  \<^verbatim>\<open>float64\<close>. Reading a \<^verbatim>\<open>float64\<close>, which one flag of one command does, is an argument.
  \<open>Parse_assignments\<close> says what arguments of the form \<^verbatim>\<open>--name=value\<close> do.
\<close>

subsection \<open>Values\<close>

definition ParseBool :: "string \<Rightarrow> bool option" where
  "ParseBool s = (if s \<in> set [''1'', ''t'', ''T'', ''true'', ''TRUE'', ''True''] then Some True
     else if s \<in> set [''0'', ''f'', ''F'', ''false'', ''FALSE'', ''False''] then Some False else None)"

text \<open>\<^verbatim>\<open>lower\<close>: the bit that makes an ASCII letter lower case is set.\<close>

definition lower :: "char \<Rightarrow> nat" where
  "lower c = (let n = of_char c in if n mod 64 < 32 then n + 32 else n)"

definition digit_of :: "char \<Rightarrow> nat option" where
  "digit_of c = (if is_digit c then Some (of_char c - 48)
     else if 97 \<le> lower c \<and> lower c \<le> 122 then Some (lower c - 97 + 10) else None)"

text \<open>The digits of a number in a base, underscores left out; nothing on a character that is no digit
  of it.\<close>

fun digits_val :: "nat \<Rightarrow> nat \<Rightarrow> string \<Rightarrow> nat option" where
  "digits_val b acc [] = Some acc"
| "digits_val b acc (c # cs) =
     (if c = CHR ''_'' then digits_val b acc cs
      else (case digit_of c of
              None \<Rightarrow> None
            | Some d \<Rightarrow> if d \<ge> b then None else digits_val b (b * acc + d) cs))"

text \<open>\<^verbatim>\<open>underscoreOK\<close>: each underscore stands between digits, or a prefix and a digit. The first
  argument says whether the last character was a digit, an underscore, or neither.\<close>

datatype last_char = LDigit | LUnder | LOther

fun under_ok :: "last_char \<Rightarrow> bool \<Rightarrow> string \<Rightarrow> bool" where
  "under_ok l hexa [] = (l \<noteq> LUnder)"
| "under_ok l hexa (c # cs) =
     (if is_digit c \<or> hexa \<and> 97 \<le> lower c \<and> lower c \<le> 102 then under_ok LDigit hexa cs
      else if c = CHR ''_'' then l = LDigit \<and> under_ok LUnder hexa cs
      else l \<noteq> LUnder \<and> under_ok LOther hexa cs)"

definition base_prefix :: "string \<Rightarrow> (nat \<times> string) option" where
  "base_prefix s = (case s of
      z # c # r \<Rightarrow>
        if z \<noteq> CHR ''0'' then None
        else if lower c = of_char CHR ''b'' then Some (2, r)
        else if lower c = of_char CHR ''o'' then Some (8, r)
        else if lower c = of_char CHR ''x'' then Some (16, r) else None
    | _ \<Rightarrow> None)"

definition underscoreOK :: "string \<Rightarrow> bool" where
  "underscoreOK s = (case base_prefix s of
      Some (b, r) \<Rightarrow> under_ok LDigit (b = 16) r
    | None \<Rightarrow> under_ok LOther False s)"

definition ParseUint0 :: "string \<Rightarrow> nat option" where
  "ParseUint0 s =
     (if s = [] then None
      else let (b, r) = (case base_prefix s of
              Some (b, r) \<Rightarrow> if r \<noteq> [] then (b, r) else (8, tl s)
            | None \<Rightarrow> if hd s = CHR ''0'' then (8, tl s) else (10, s))
        in (case digits_val b 0 r of
              None \<Rightarrow> None
            | Some n \<Rightarrow> if n \<ge> 2 ^ 64 \<or> CHR ''_'' \<in> set s \<and> \<not> underscoreOK s then None else Some n))"

definition ParseInt0 :: "string \<Rightarrow> int option" where
  "ParseInt0 s = (case s of
      [] \<Rightarrow> None
    | c # r \<Rightarrow>
        (let neg = (c = CHR ''-''); u = (if c = CHR ''-'' \<or> c = CHR ''+'' then r else s) in
         case ParseUint0 u of
           None \<Rightarrow> None
         | Some n \<Rightarrow> if \<not> neg \<and> n \<ge> 2 ^ 63 \<or> neg \<and> n > 2 ^ 63 then None
             else Some (if neg then - int n else int n)))"

subsection \<open>Durations\<close>

definition duration_units :: "(string \<times> nat) list" where
  "duration_units = [(''ns'', 1), (''us'', 1000), ([CHR 0xC2, CHR 0xB5, CHR ''s''], 1000), ([CHR 0xCE, CHR 0xBC, CHR ''s''], 1000),
     (''ms'', 1000000), (''s'', 1000000000), (''m'', 60 * 1000000000), (''h'', 3600 * 1000000000)]"

text \<open>\<^verbatim>\<open>leadingInt\<close> on its digits: the number, unless it goes past \<open>2^63\<close>.\<close>

fun leading_int :: "nat \<Rightarrow> string \<Rightarrow> nat option" where
  "leading_int x [] = Some x"
| "leading_int x (c # cs) =
     (if x > 2 ^ 63 div 10 then None
      else let y = 10 * x + digit_val c in if y > 2 ^ 63 then None else leading_int y cs)"

text \<open>\<^verbatim>\<open>leadingFraction\<close> on its digits: those that fit and the power of ten they are over.\<close>

fun leading_fraction :: "nat \<Rightarrow> rat \<Rightarrow> string \<Rightarrow> nat \<times> rat" where
  "leading_fraction x scale [] = (x, scale)"
| "leading_fraction x scale (c # cs) =
     (if x > (2 ^ 63 - 1) div 10 then (x, scale)
      else let y = 10 * x + digit_val c in
        if y > 2 ^ 63 then (x, scale) else leading_fraction y (round53 (10 * scale)) cs)"

definition unit_char :: "char \<Rightarrow> bool" where
  "unit_char c = (c \<noteq> CHR ''.'' \<and> \<not> is_digit c)"

text \<open>One number with its unit, at the front: its nanoseconds and what follows it.\<close>

definition duration_part :: "string \<Rightarrow> (nat \<times> string) option" where
  "duration_part s =
     (let whole = takeWhile is_digit s; s1 = dropWhile is_digit s;
          dot = (s1 \<noteq> [] \<and> hd s1 = CHR ''.'');
          frac = (if dot then takeWhile is_digit (tl s1) else []);
          s2 = (if dot then dropWhile is_digit (tl s1) else s1);
          u = takeWhile unit_char s2
      in if whole = [] \<and> frac = [] then None
         else (case leading_int 0 whole of
                 None \<Rightarrow> None
               | Some v \<Rightarrow> (case map_of duration_units u of
                     None \<Rightarrow> None
                   | Some n \<Rightarrow>
                       if v > 2 ^ 63 div n then None
                       else (case leading_fraction 0 1 frac of (f, scale) \<Rightarrow>
                         let v' = v * n + (if f > 0 then nat \<lfloor>round53 (round53 (of_nat f) * round53 (of_nat n / scale))\<rfloor> else 0)
                         in if v' > 2 ^ 63 then None else Some (v', dropWhile unit_char s2)))))"

lemma no_empty_unit: "map_of duration_units [] = None"
  by (simp add: duration_units_def)

lemma duration_part_shorter: "duration_part s = Some (v, r) \<Longrightarrow> length r < length s"
proof -
  assume "duration_part s = Some (v, r)"
  then obtain s2 where r: "r = dropWhile unit_char s2" and s2: "s2 = dropWhile is_digit s \<or> s2 = dropWhile is_digit (tl (dropWhile is_digit s))"
    and u: "takeWhile unit_char s2 \<noteq> []"
    using no_empty_unit unfolding duration_part_def Let_def
    by (simp split: if_split_asm option.split_asm prod.split_asm) (metis option.distinct(1))+
  have "length (dropWhile is_digit (tl x)) \<le> length x" for x
    using length_dropWhile_le [of is_digit "tl x"] by simp
  then have "length s2 \<le> length s"
    using s2 length_dropWhile_le [of is_digit s] by (auto intro: order_trans)
  moreover have "length r < length s2" using u unfolding r by (cases s2) (auto simp: less_Suc_eq_le length_dropWhile_le split: if_splits)
  ultimately show ?thesis by simp
qed

function duration_from :: "nat \<Rightarrow> string \<Rightarrow> nat option" where
  "duration_from d s =
     (if s = [] then Some d
      else (case duration_part s of
              None \<Rightarrow> None
            | Some (v, r) \<Rightarrow> (let d' = (d + v) mod 2 ^ 64 in if d' > 2 ^ 63 then None else duration_from d' r)))"
  by pat_completeness auto
termination
  by (relation "measure (\<lambda>(d, s). length s)") (auto dest: duration_part_shorter)

declare duration_from.simps [simp del]

definition ParseDuration :: "string \<Rightarrow> int option" where
  "ParseDuration s =
     (let neg = (s \<noteq> [] \<and> hd s = CHR ''-'');
          r = (if s \<noteq> [] \<and> (hd s = CHR ''-'' \<or> hd s = CHR ''+'') then tl s else s)
      in if r = ''0'' then Some 0
         else if r = [] then None
         else (case duration_from 0 r of
                 None \<Rightarrow> None
               | Some d \<Rightarrow> if neg then Some (- int d) else if d > 2 ^ 63 - 1 then None else Some (int d)))"

subsection \<open>Flag sets\<close>

datatype 'o flag =
    StringVar "string \<Rightarrow> 'o \<Rightarrow> 'o"
  | BoolVar "bool \<Rightarrow> 'o \<Rightarrow> 'o"
  | IntVar "int \<Rightarrow> 'o \<Rightarrow> 'o"
  | DurationVar "int \<Rightarrow> 'o \<Rightarrow> 'o"
  | Float64Var "float64 \<Rightarrow> 'o \<Rightarrow> 'o"

type_synonym 'o flag_set = "(string \<times> 'o flag) list"

datatype flag_error = ErrHelp | BadSyntax string | NotDefined string | NeedsArgument string | InvalidValue string string

text \<open>\<^verbatim>\<open>Value.Set\<close>: the options with the value set, unless it cannot be read.\<close>

fun set_flag :: "(string \<Rightarrow> float64 option) \<Rightarrow> 'o flag \<Rightarrow> string \<Rightarrow> 'o \<Rightarrow> 'o option" where
  "set_flag pf (StringVar f) v x = Some (f v x)"
| "set_flag pf (BoolVar f) v x = map_option (\<lambda>b. f b x) (ParseBool v)"
| "set_flag pf (IntVar f) v x = map_option (\<lambda>n. f n x) (ParseInt0 v)"
| "set_flag pf (DurationVar f) v x = map_option (\<lambda>d. f d x) (ParseDuration v)"
| "set_flag pf (Float64Var f) v x = map_option (\<lambda>r. f r x) (pf v)"

fun is_BoolVar :: "'o flag \<Rightarrow> bool" where
  "is_BoolVar (BoolVar _) = True"
| "is_BoolVar _ = False"

text \<open>The name of a flag argument: what follows one or two dashes.\<close>

definition flag_name :: "string \<Rightarrow> string" where
  "flag_name s = (if s ! 1 = CHR ''-'' then drop 2 s else drop 1 s)"

text \<open>\<^verbatim>\<open>FlagSet.Parse\<close>: the options and the arguments left.\<close>

function Parse :: "(string \<Rightarrow> float64 option) \<Rightarrow> 'o flag_set \<Rightarrow> string list \<Rightarrow> 'o \<Rightarrow> flag_error + 'o \<times> string list" where
  "Parse pf fs [] x = Inr (x, [])"
| "Parse pf fs (s # rest) x =
     (if length s < 2 \<or> hd s \<noteq> CHR ''-'' then Inr (x, s # rest)
      else if s = ''--'' then Inr (x, rest)
      else let nm = flag_name s in
        if nm = [] \<or> hd nm = CHR ''-'' \<or> hd nm = CHR ''='' then Inl (BadSyntax s)
        else (case Cut nm CHR ''='' of (name, value, has) \<Rightarrow>
          case map_of fs name of
            None \<Rightarrow> Inl (if name = ''help'' \<or> name = ''h'' then ErrHelp else NotDefined name)
          | Some f \<Rightarrow>
              if has then (case set_flag pf f value x of None \<Rightarrow> Inl (InvalidValue name value) | Some x' \<Rightarrow> Parse pf fs rest x')
              else if is_BoolVar f then (case set_flag pf f ''true'' x of None \<Rightarrow> Inl (InvalidValue name value) | Some x' \<Rightarrow> Parse pf fs rest x')
              else (case rest of
                      [] \<Rightarrow> Inl (NeedsArgument name)
                    | v # rest' \<Rightarrow> (case set_flag pf f v x of None \<Rightarrow> Inl (InvalidValue name v) | Some x' \<Rightarrow> Parse pf fs rest' x'))))"
  by pat_completeness auto
termination
  by (relation "measure (\<lambda>(pf, fs, args, x). length args)") auto

declare Parse.simps(2) [simp del]

subsection \<open>Values of their types\<close>

text \<open>A Go \<^verbatim>\<open>int\<close> or \<^verbatim>\<open>time.Duration\<close>.\<close>

definition int64 :: "int \<Rightarrow> bool" where
  "int64 i = (- (2 ^ 63) \<le> i \<and> i < 2 ^ 63)"

subsection \<open>Assignments\<close>

definition assign :: "string \<times> string \<Rightarrow> string" where
  "assign nv = ''--'' @ fst nv @ ''='' @ snd nv"

definition plain_name :: "string \<Rightarrow> bool" where
  "plain_name n = (n \<noteq> [] \<and> hd n \<noteq> CHR ''-'' \<and> CHR ''='' \<notin> set n)"

fun set_all :: "(string \<Rightarrow> float64 option) \<Rightarrow> 'o flag_set \<Rightarrow> (string \<times> string) list \<Rightarrow> 'o \<Rightarrow> 'o option" where
  "set_all pf fs [] x = Some x"
| "set_all pf fs (nv # nvs) x = (case map_of fs (fst nv) of
      None \<Rightarrow> None
    | Some f \<Rightarrow> (case set_flag pf f (snd nv) x of None \<Rightarrow> None | Some x' \<Rightarrow> set_all pf fs nvs x'))"

lemma Parse_assign:
  assumes "plain_name (fst nv)" "map_of fs (fst nv) = Some f" "set_flag pf f (snd nv) x = Some x'"
  shows "Parse pf fs (assign nv # rest) x = Parse pf fs rest x'"
proof -
  obtain n v where nv: "nv = (n, v)" by (cases nv)
  obtain c cs where n: "n = c # cs" "c \<noteq> CHR ''-''" "c \<noteq> CHR ''=''" using assms(1) nv by (cases n) (auto simp: plain_name_def)
  have "assign nv = CHR ''-'' # CHR ''-'' # n @ CHR ''='' # v" by (simp add: assign_def nv)
  moreover have "Cut (n @ CHR ''='' # v) CHR ''='' = (n, v, True)" using assms(1) nv by (intro Cut_found) (simp add: plain_name_def)
  ultimately show ?thesis using n assms(2,3) nv by (simp add: Parse.simps(2) flag_name_def Let_def)
qed

lemma Parse_assignments:
  assumes "list_all (\<lambda>nv. plain_name (fst nv)) nvs" "set_all pf fs nvs x = Some x'"
  shows "Parse pf fs (map assign nvs) x = Inr (x', [])"
  using assms
proof (induction nvs arbitrary: x)
  case Nil
  then show ?case by simp
next
  case (Cons nv nvs)
  then obtain f y where f: "map_of fs (fst nv) = Some f" "set_flag pf f (snd nv) x = Some y" "set_all pf fs nvs y = Some x'"
    by (auto split: option.splits)
  then show ?case using Cons Parse_assign [OF _ f(1,2)] by simp
qed

text \<open>Values for all flags of a set, in its order.\<close>

fun set_each :: "(string \<Rightarrow> float64 option) \<Rightarrow> (('o flag) \<times> string) list \<Rightarrow> 'o \<Rightarrow> 'o option" where
  "set_each pf [] x = Some x"
| "set_each pf (fv # fvs) x = (case set_flag pf (fst fv) (snd fv) x of None \<Rightarrow> None | Some x' \<Rightarrow> set_each pf fvs x')"

lemma set_all_each:
  assumes "distinct (map fst fs)" "set gs \<subseteq> set fs" "length gs = length vs"
  shows "set_all pf fs (zip (map fst gs) vs) x = set_each pf (zip (map snd gs) vs) x"
  using assms(2,3)
proof (induction gs arbitrary: vs x)
  case Nil
  then show ?case by simp
next
  case (Cons g gs)
  then obtain v vs' where vs: "vs = v # vs'" by (cases vs) auto
  have "map_of fs (fst g) = Some (snd g)" using assms(1) Cons.prems(1) by (cases g) (simp add: map_of_is_SomeI)
  then show ?case using Cons vs by (simp split: option.split)
qed

subsection \<open>Numbers read back\<close>

lemma digit_of_digit: "is_digit c \<Longrightarrow> digit_of c = Some (digit_val c)"
  by (simp add: digit_of_def digit_val_def is_digit_def)

lemma digits_val_digits:
  "\<forall>c \<in> set s. is_digit c \<Longrightarrow> digits_val 10 acc s = Some (foldl (\<lambda>a c. 10 * a + digit_val c) acc s)"
proof (induction s arbitrary: acc)
  case Nil
  then show ?case by simp
next
  case (Cons c cs)
  have "c \<noteq> CHR ''_''" "digit_val c < 10" using Cons.prems by (auto simp: is_digit_def digit_val_def)
  then show ?case using Cons by (simp add: digit_of_digit)
qed

lemma hd_base_nonzero: "0 < n \<Longrightarrow> hd (base 10 n) \<noteq> CHR ''0''"
proof (induction "10 :: nat" n rule: base.induct)
  case (1 n)
  show ?case
  proof (cases "n < 10")
    case True
    then have "digit n \<noteq> digit 0" using \<open>0 < n\<close> digit_val_digit [of n] digit_val_digit [of 0] by auto
    moreover have "digit 0 = CHR ''0''" by code_simp
    ultimately show ?thesis using True by (simp add: base.simps [of 10 n])
  next
    case False
    then show ?thesis using 1(1) by (simp add: base.simps [of 10 n])
  qed
qed

lemma ParseUint0_dec: "n < 2 ^ 64 \<Longrightarrow> ParseUint0 (dec n) = Some n"
proof -
  assume n: "n < 2 ^ 64"
  have val: "digits_val 10 0 (dec n) = Some n"
    using digits_val_digits [of "dec n" 0] dec_digits undigits_base [of 10 n] by (auto simp: dec_def undigits_def)
  have under: "CHR ''_'' \<notin> set (dec n)" using dec_digits [of "CHR ''_''" n] by (auto simp: is_digit_def)
  show ?thesis
  proof (cases "n = 0")
    case True
    have "dec 0 = ''0''" by code_simp
    then show ?thesis using True by (simp add: ParseUint0_def base_prefix_def)
  next
    case False
    then have "hd (dec n) \<noteq> CHR ''0''" using hd_base_nonzero by (simp add: dec_def)
    moreover have "base_prefix (dec n) = None" using calculation by (auto simp: base_prefix_def split: list.splits)
    ultimately show ?thesis using val under n by (simp add: ParseUint0_def)
  qed
qed

lemma ParseInt0_decz: "- (2 ^ 63) \<le> i \<Longrightarrow> i < 2 ^ 63 \<Longrightarrow> ParseInt0 (decz i) = Some i"
proof -
  assume i: "- (2 ^ 63) \<le> i" "i < 2 ^ 63"
  show ?thesis
  proof (cases "i < 0")
    case True
    then have "ParseUint0 (dec (nat (- i))) = Some (nat (- i))" using i by (intro ParseUint0_dec) simp
    then show ?thesis using True i by (simp add: ParseInt0_def decz_def)
  next
    case False
    then have u: "ParseUint0 (dec (nat i)) = Some (nat i)" using i by (intro ParseUint0_dec) simp
    obtain c cs where d: "dec (nat i) = c # cs" by (cases "dec (nat i)") auto
    then have "is_digit c" using dec_digits [of c "nat i"] by simp
    then have "c \<noteq> CHR ''-''" "c \<noteq> CHR ''+''" by (auto simp: is_digit_def)
    then show ?thesis using False i u d by (simp add: ParseInt0_def decz_def)
  qed
qed

definition bool_text :: "bool \<Rightarrow> string" where
  "bool_text b = (if b then ''true'' else ''false'')"

lemma ParseBool_text: "ParseBool (bool_text b) = Some b"
  by (cases b) (simp_all add: ParseBool_def bool_text_def)

end
