(* ===== verification/Osv_Issues.thy ===== *)
theory Osv_Issues
  imports Go_Sort Go_Flag Go_Decode
begin

text \<open>
  The issues kept for known vulnerabilities: \<^verbatim>\<open>hack/osvissues/main.go\<close>.

  \<open>readFindings\<close> reads the findings, \<open>plan\<close> says which issues to create, edit, reopen and close, and
  \<open>run_plan\<close> takes the actions one by one; \<open>run_osvissues\<close> is the command around them, which lists
  the issues first and decodes the JSON it is given. The repository's issues are a list of records; the
  GitHub CLI is a parameter, a function from its arguments and the issues to its output, unless it
  fails, and the issues after it, which a CLI that fails may have changed too. The properties assume of
  it what \<open>gh_ok\<close> and \<open>cli_ok\<close> say.
\<close>

record finding =
  f_id :: string
  f_pkg :: string
  f_summary :: string

definition finding_name :: "finding \<Rightarrow> string" where
  "finding_name f = fst (Cut (f_pkg f) CHR ''@'')"

subsection \<open>Reading the findings\<close>

datatype findings_error = BadFinding nat string | FindingsScan scan_error

definition tab :: char where
  "tab = CHR 0x09"

text \<open>\<^verbatim>\<open>strings.SplitN\<close> at tabs, into three at most.\<close>

definition SplitN3 :: "string \<Rightarrow> string list" where
  "SplitN3 s = (case Cut s tab of
      (a, _, False) \<Rightarrow> [a]
    | (a, r, True) \<Rightarrow> (case Cut r tab of (b, _, False) \<Rightarrow> [a, b] | (b, c, True) \<Rightarrow> [a, b, c]))"

fun findings_from :: "nat \<Rightarrow> string list \<Rightarrow> (findings_error, finding list) result" where
  "findings_from n [] = Inr []"
| "findings_from n (line # ls) =
     (if line = [] then findings_from (Suc n) ls
      else let cols = SplitN3 line in
        if length cols < 2 \<or> cols ! 0 = [] \<or> CHR ''@'' \<notin> set (cols ! 1) then Inl (BadFinding n line)
        else (case findings_from (Suc n) ls of
                Inl e \<Rightarrow> Inl e
              | Inr fs \<Rightarrow> Inr (\<lparr>f_id = cols ! 0, f_pkg = cols ! 1, f_summary = if length cols = 3 then cols ! 2 else []\<rparr> # fs)))"

definition readFindings :: "string \<Rightarrow> os_error option \<Rightarrow> (findings_error, finding list) result" where
  "readFindings bytes err = (case scan bytes err of (ls, e) \<Rightarrow>
     (case findings_from 1 ls of
        Inl e' \<Rightarrow> Inl e'
      | Inr fs \<Rightarrow> (case e of None \<Rightarrow> Inr fs | Some e' \<Rightarrow> Inl (FindingsScan e'))))"

subsection \<open>Issues\<close>

record issue =
  i_Number :: int
  i_Title :: string
  i_State :: string
  i_Body :: string

definition link_prefix :: string where
  "link_prefix = ''osv.dev/vulnerability/''"

definition link_char :: "char \<Rightarrow> bool" where
  "link_char c = (c \<noteq> CHR '')'' \<and> \<not> re_space c)"

text \<open>All matches of \<^verbatim>\<open>osv\.dev/vulnerability/([^)\s]+)\<close>, from the left, each after the one before.\<close>

function link_ids :: "string \<Rightarrow> string list" where
  "link_ids [] = []"
| "link_ids (c # cs) =
     (let r = drop (length link_prefix) (c # cs) in
      if HasPrefix (c # cs) link_prefix \<and> takeWhile link_char r \<noteq> []
      then takeWhile link_char r # link_ids (dropWhile link_char r) else link_ids cs)"
  by pat_completeness auto
termination
proof (relation "measure length", simp_all)
  fix c :: char and cs
  have "length (dropWhile link_char r) \<le> length r" for r by (rule length_dropWhile_le)
  moreover have "length (drop (length link_prefix) (c # cs)) \<le> length cs" by (simp add: link_prefix_def)
  ultimately show "length (dropWhile link_char (drop (length link_prefix) (c # cs))) < Suc (length cs)"
    by (metis le_imp_less_Suc le_trans)
qed

declare link_ids.simps(2) [simp del]

definition issue_ids :: "issue \<Rightarrow> string list" where
  "issue_ids i = link_ids (i_Body i)"

definition title :: "string \<Rightarrow> string" where
  "title pkg = ''osv: '' @ pkg"

definition body_pkgs :: "finding list \<Rightarrow> string list" where
  "body_pkgs fs = fold (\<lambda>f ps. if f_pkg f \<in> set ps then ps else ps @ [f_pkg f]) fs []"

definition body_head :: "string \<Rightarrow> finding list \<Rightarrow> string" where
  "body_head release fs = release @ '', the newest release, has `''
     @ Join (body_pkgs fs) ''`, `''
     @ ''` with what OSV lists below (`task osv`, run daily by osv.yml). ''
     @ ''A new release built after the distribution ships a fix closes this issue; closing it by hand says the rest does not matter here, ''
     @ ''and only a finding not listed reopens it.'' @ [newline, newline]"

definition body_line :: "finding \<Rightarrow> string" where
  "body_line f = ''- ['' @ f_id f @ ''](https://osv.dev/vulnerability/'' @ f_id f @ '')''
     @ (if f_summary f \<noteq> [] then '': '' @ f_summary f else []) @ [newline]"

definition body :: "string \<Rightarrow> finding list \<Rightarrow> string" where
  "body release fs = body_head release fs @ concat (map body_line fs)"

subsection \<open>Actions\<close>

datatype verb = Create | Edit | Reopen | Close

record action =
  a_verb :: verb
  a_number :: int
  a_title :: string
  a_body :: string

definition action_args :: "action \<Rightarrow> string list" where
  "action_args a = (let n = decz (a_number a) in case a_verb a of
      Create \<Rightarrow> [''issue'', ''create'', ''--title'', a_title a, ''--body'', a_body a]
    | Edit \<Rightarrow> [''issue'', ''edit'', n, ''--body'', a_body a]
    | Reopen \<Rightarrow> [''issue'', ''reopen'', n, ''--comment'', a_body a]
    | Close \<Rightarrow> [''issue'', ''close'', n, ''--reason'', ''completed'', ''--comment'', a_body a])"

text \<open>\<^verbatim>\<open>%q\<close>: a string between quotes, with every rune that does not print escaped. \<open>isPrint\<close> is
  \<^verbatim>\<open>strconv.IsPrint\<close> for runes outside ASCII, whose table is not part of the model.\<close>

definition rune_value :: "string \<Rightarrow> nat" where
  "rune_value r = foldl (\<lambda>n d. n * 64 + of_char d mod 64) (of_char (hd r) mod 2 ^ (7 - length r)) (tl r)"

definition hex_digits :: "nat \<Rightarrow> nat \<Rightarrow> string" where
  "hex_digits w n = map (\<lambda>i. digit (n div 16 ^ i mod 16)) (rev [0 ..< w])"

definition quote_byte :: "char \<Rightarrow> string" where
  "quote_byte c = (let n = of_char c :: nat; bs = CHR 0x5C in
     if n = 7 then [bs, CHR ''a''] else if n = 8 then [bs, CHR ''b''] else if n = 12 then [bs, CHR ''f'']
     else if n = 10 then [bs, CHR ''n''] else if n = 13 then [bs, CHR ''r''] else if n = 9 then [bs, CHR ''t'']
     else if n = 11 then [bs, CHR ''v''] else [bs, CHR ''x''] @ hex_digits 2 n)"

definition quote_rune :: "(string \<Rightarrow> bool) \<Rightarrow> string \<Rightarrow> string" where
  "quote_rune isPrint r = (let bs = CHR 0x5C in
     if \<not> valid_rune r then [bs, CHR ''x''] @ hex_digits 2 (of_char (hd r))
     else if r = [CHR 0x22] \<or> r = [bs] then bs # r
     else if length r = 1 then (if byte_in 0x20 0x7E (hd r) then r else quote_byte (hd r))
     else if isPrint r then r
     else if rune_value r < 0x10000 then [bs, CHR ''u''] @ hex_digits 4 (rune_value r)
     else [bs, CHR ''U''] @ hex_digits 8 (rune_value r))"

definition Quote :: "(string \<Rightarrow> bool) \<Rightarrow> string \<Rightarrow> string" where
  "Quote isPrint s = [CHR 0x22] @ concat (map (quote_rune isPrint) (runes s)) @ [CHR 0x22]"

fun verb_text :: "verb \<Rightarrow> string" where
  "verb_text Create = ''create''"
| "verb_text Edit = ''edit''"
| "verb_text Reopen = ''reopen''"
| "verb_text Close = ''close''"

definition describe :: "(string \<Rightarrow> bool) \<Rightarrow> action \<Rightarrow> string" where
  "describe isPrint a = (if a_number a = 0 then verb_text (a_verb a) @ '' '' @ Quote isPrint (a_title a)
     else verb_text (a_verb a) @ '' #'' @ decz (a_number a) @ '' '' @ Quote isPrint (a_title a))"

subsection \<open>The plan\<close>

text \<open>The findings by package name, and the names in the order they first appear.\<close>

definition add_finding :: "finding \<Rightarrow> (string \<rightharpoonup> finding list) \<times> string list \<Rightarrow> (string \<rightharpoonup> finding list) \<times> string list" where
  "add_finding f bn = (case bn of (byPkg, names) \<Rightarrow>
     (let n = finding_name f in
      case byPkg n of
        None \<Rightarrow> (byPkg(n \<mapsto> [f]), names @ [n])
      | Some fs \<Rightarrow> (byPkg(n \<mapsto> fs @ [f]), names)))"

definition by_package :: "finding list \<Rightarrow> (string \<rightharpoonup> finding list) \<times> string list" where
  "by_package findings = fold add_finding findings (Map.empty, [])"

definition add_title :: "issue \<Rightarrow> (string \<rightharpoonup> issue) \<Rightarrow> (string \<rightharpoonup> issue)" where
  "add_title i m = (case m (i_Title i) of
      None \<Rightarrow> m(i_Title i \<mapsto> i)
    | Some have_i \<Rightarrow> if i_Number i > i_Number have_i then m(i_Title i \<mapsto> i) else m)"

definition by_title :: "issue list \<Rightarrow> (string \<rightharpoonup> issue)" where
  "by_title issues = fold add_title issues Map.empty"

definition act_for :: "string \<Rightarrow> string \<Rightarrow> finding list \<Rightarrow> issue option \<Rightarrow> action list" where
  "act_for release name fs have_i =
     (let want = body release fs in
      case have_i of
        None \<Rightarrow> [\<lparr>a_verb = Create, a_number = 0, a_title = title name, a_body = want\<rparr>]
      | Some i \<Rightarrow>
          if i_State i = ''OPEN'' then
            (if i_Body i \<noteq> want then [\<lparr>a_verb = Edit, a_number = i_Number i, a_title = i_Title i, a_body = want\<rparr>] else [])
          else (let unlisted = filter (\<lambda>x. x \<notin> set (issue_ids i)) (map f_id fs) in
            if unlisted \<noteq> [] then
              [\<lparr>a_verb = Reopen, a_number = i_Number i, a_title = i_Title i,
                 a_body = release @ '' has findings this issue did not list: '' @ Join unlisted '', '' @ ''.''\<rparr>,
               \<lparr>a_verb = Edit, a_number = i_Number i, a_title = i_Title i, a_body = want\<rparr>]
            else []))"

definition is_gone :: "(string \<rightharpoonup> finding list) \<Rightarrow> string \<Rightarrow> issue \<Rightarrow> bool" where
  "is_gone byPkg t i = (case CutPrefix t ''osv: '' of (name, ok) \<Rightarrow>
     ok \<and> i_State i = ''OPEN'' \<and> CHR '' '' \<notin> set name \<and> byPkg name = None)"

definition close_action :: "string \<Rightarrow> string \<Rightarrow> issue \<Rightarrow> action" where
  "close_action release t i = \<lparr>a_verb = Close, a_number = i_Number i, a_title = t, a_body = release @ '' has no finding in this package.''\<rparr>"

text \<open>The titles whose issue is to be closed. The code collects them from a map in no order and
  sorts them.\<close>

definition gone_titles :: "(string \<rightharpoonup> finding list) \<Rightarrow> issue list \<Rightarrow> string list" where
  "gone_titles byPkg issues = Sort (filter (\<lambda>t. is_gone byPkg t (the (by_title issues t))) (remdups (map i_Title issues)))"

definition plan :: "string \<Rightarrow> finding list \<Rightarrow> issue list \<Rightarrow> action list" where
  "plan release findings issues = (case by_package findings of (byPkg, names) \<Rightarrow>
     concat (map (\<lambda>name. act_for release name (the (byPkg name)) (by_title issues (title name))) (Sort names))
     @ map (\<lambda>t. close_action release t (the (by_title issues t))) (gone_titles byPkg issues))"

text \<open>The loop of \<^verbatim>\<open>run\<close> over the plan: every action is said, and taken unless the run is dry, up to
  the first the CLI fails.\<close>

fun run_plan :: "(string list \<Rightarrow> 's \<Rightarrow> string option \<times> 's) \<Rightarrow> bool \<Rightarrow> action list \<Rightarrow> 's \<Rightarrow> int \<times> action list \<times> 's" where
  "run_plan cli dry [] s = (0, [], s)"
| "run_plan cli dry (a # as) s =
     (case (if dry then (Some [], s) else cli (action_args a) s) of
        (None, s') \<Rightarrow> (1, [a], s')
      | (Some _, s') \<Rightarrow> (case run_plan cli dry as s' of (rc, said, t) \<Rightarrow> (rc, a # said, t)))"

text \<open>\<^verbatim>\<open>json.Unmarshal\<close> of the list of issues the CLI prints.\<close>

definition decode_issue :: "json \<Rightarrow> issue option" where
  "decode_issue j = (case j of
      JObj kvs \<Rightarrow>
        (case (int_field ''number'' 0 kvs, str_field ''title'' [] kvs, str_field ''state'' [] kvs, str_field ''body'' [] kvs) of
           (Some n, Some t, Some st, Some b) \<Rightarrow> Some \<lparr>i_Number = n, i_Title = t, i_State = st, i_Body = b\<rparr>
         | _ \<Rightarrow> None)
    | JNull \<Rightarrow> Some \<lparr>i_Number = 0, i_Title = [], i_State = [], i_Body = []\<rparr>
    | _ \<Rightarrow> None)"

definition decode_issues :: "string \<Rightarrow> issue list option" where
  "decode_issues out = (case json_parse out of
      Some (JArr js) \<Rightarrow> all_some (map decode_issue js)
    | Some JNull \<Rightarrow> Some []
    | _ \<Rightarrow> None)"

text \<open>The command, with its exit status, what it said and the issues it leaves. \<open>gh\<close> answers a
  command with its output, or fails, and with the issues after it.\<close>

record osvFlags =
  of_release :: string
  of_findings :: string
  of_dryRun :: bool

definition osv_flags :: "osvFlags flag_set" where
  "osv_flags = [(''release'', StringVar (\<lambda>v x. x\<lparr>of_release := v\<rparr>)), (''findings'', StringVar (\<lambda>v x. x\<lparr>of_findings := v\<rparr>)),
     (''n'', BoolVar (\<lambda>v x. x\<lparr>of_dryRun := v\<rparr>))]"

definition issue_list_args :: "string list" where
  "issue_list_args = [''issue'', ''list'', ''--state'', ''all'', ''--limit'', ''1000'', ''--json'', ''number,title,state,body'']"

definition run_osvissues ::
  "os_env \<Rightarrow> (string list \<Rightarrow> 's \<Rightarrow> string option \<times> 's) \<Rightarrow> string list \<Rightarrow> 's \<Rightarrow> int \<times> action list \<times> 's" where
  "run_osvissues os gh args s =
     (case Parse (\<lambda>_. None) osv_flags args \<lparr>of_release = [], of_findings = [], of_dryRun = False\<rparr> of
        Inl _ \<Rightarrow> (2, [], s)
      | Inr (x, _) \<Rightarrow>
          if of_release x = [] \<or> of_findings x = [] then (2, [], s)
          else (case os_open os (of_findings x) of
                  Inl _ \<Rightarrow> (1, [], s)
                | Inr (bytes, err) \<Rightarrow> (case readFindings bytes err of
                      Inl _ \<Rightarrow> (1, [], s)
                    | Inr findings \<Rightarrow> (case gh issue_list_args s of
                          (None, s') \<Rightarrow> (1, [], s')
                        | (Some out, s') \<Rightarrow> (case decode_issues out of
                              None \<Rightarrow> (1, [], s')
                            | Some issues \<Rightarrow> run_plan gh (of_dryRun x) (plan (of_release x) findings issues) s')))))"

text \<open>The program itself, with the standard output of the run. \<open>output\<close> is \<^verbatim>\<open>exec.Command(...).Output()\<close>.\<close>

definition run_gh :: "(string \<Rightarrow> string list \<Rightarrow> 's \<Rightarrow> string option \<times> 's) \<Rightarrow> string list \<Rightarrow> 's \<Rightarrow> string option \<times> 's" where
  "run_gh output args = output ''gh'' args"

definition osvissues_main ::
  "os_env \<Rightarrow> (string \<Rightarrow> bool) \<Rightarrow> (string \<Rightarrow> string list \<Rightarrow> 's \<Rightarrow> string option \<times> 's)
     \<Rightarrow> string list \<Rightarrow> 's \<Rightarrow> int \<times> string \<times> 's" where
  "osvissues_main os isPrint output args s = (case run_osvissues os (run_gh output) args s of
     (rc, said, s') \<Rightarrow> (rc, unlines (map (describe isPrint) said), s'))"

subsection \<open>What is said\<close>

lemma hex_digits_no_newline: "newline \<notin> set (hex_digits w n)"
proof -
  have ne: "digit d \<noteq> newline" if "d < 16" for d
  proof
    assume "digit d = newline"
    then have "(of_char (digit d) :: nat) = 10" by simp
    then show False using that by (simp add: digit_def of_char_of split: if_splits)
  qed
  have "newline \<noteq> digit (n div 16 ^ i mod 16)" for i by (rule ne [symmetric]) simp
  then show ?thesis by (auto simp: hex_digits_def)
qed

lemma quote_rune_no_newline: "newline \<notin> set (quote_rune isPrint r)"
proof (cases "valid_rune r \<and> length r \<noteq> 1")
  case True
  then have "newline \<notin> set r" using valid_rune_high [of r] by force
  then show ?thesis using True hex_digits_no_newline by (auto simp: quote_rune_def Let_def)
next
  case False
  have "newline \<notin> set (quote_byte c)" for c
    using hex_digits_no_newline by (auto simp: quote_byte_def Let_def)
  moreover have "newline \<notin> set r" if "length r = 1" "byte_in 0x20 0x7E (hd r)"
    using that by (cases r) (auto simp: byte_in_def)
  ultimately show ?thesis using False hex_digits_no_newline by (auto simp: quote_rune_def Let_def)
qed

lemma describe_no_newline: "newline \<notin> set (describe isPrint a)"
proof -
  have "newline \<notin> set (Quote isPrint (a_title a))" using quote_rune_no_newline by (auto simp: Quote_def)
  moreover have "newline \<notin> set (verb_text v)" for v by (cases v) simp_all
  moreover have "newline \<notin> set (decz i)" for i using decz_chars [of newline i] by (auto simp: is_digit_def)
  ultimately show ?thesis by (auto simp: describe_def)
qed

text \<open>The log of a run has one line for each action said, whatever is in a title.\<close>

lemma osvissues_says_a_line_each:
  assumes "run_osvissues os (run_gh output) args s = (rc, said, s')"
  shows "\<exists>out. osvissues_main os isPrint output args s = (rc, out, s') \<and> Split out newline = map (describe isPrint) said @ [[]]"
  using Split_unlines [of "map (describe isPrint) said"] describe_no_newline assms by (simp add: osvissues_main_def)

subsection \<open>The links of a body\<close>

lemma link_ids_eq: "s \<noteq> [] \<Longrightarrow> link_ids s =
    (let r = drop (length link_prefix) s in
     if HasPrefix s link_prefix \<and> takeWhile link_char r \<noteq> []
     then takeWhile link_char r # link_ids (dropWhile link_char r) else link_ids (tl s))"
  by (cases s) (auto simp add: link_ids.simps(2) Let_def)

lemma link_prefix_facts: "hd link_prefix = CHR ''o''" "link_prefix \<noteq> []" "CHR ''/'' \<in> set link_prefix" "CHR '']'' \<notin> set link_prefix"
  by code_simp+

lemma space_not_in_prefix: "re_space w \<Longrightarrow> w \<notin> set link_prefix"
proof -
  have "list_all (\<lambda>c. \<not> re_space c) link_prefix" by code_simp
  then show "re_space w \<Longrightarrow> w \<notin> set link_prefix" by (auto simp: list_all_iff)
qed

lemma HasPrefix_link_hd: "HasPrefix (c # cs) link_prefix \<Longrightarrow> c = CHR ''o''"
  by (metis HasPrefix_iff hd_append2 link_prefix_facts(1,2) list.sel(1))

lemma link_ids_space: "re_space w \<Longrightarrow> link_ids (a @ w # b) = link_ids a @ link_ids b"
proof (induction a rule: link_ids.induct)
  case 1
  moreover have "\<not> re_space CHR ''o''" by code_simp
  ultimately have "\<not> HasPrefix (w # b) link_prefix" using HasPrefix_link_hd by blast
  then show ?case by (simp add: link_ids.simps(2))
next
  case (2 c cs)
  let ?n = "length link_prefix"
  have P: "HasPrefix ((c # cs) @ w # b) link_prefix \<longleftrightarrow> HasPrefix (c # cs) link_prefix"
    using HasPrefix_append_stop [OF space_not_in_prefix [OF 2(3)]] .
  show ?case
  proof (cases "HasPrefix (c # cs) link_prefix \<and> takeWhile link_char (drop ?n (c # cs)) \<noteq> []")
    case True
    then have le: "?n \<le> length (c # cs)" by (metis HasPrefix_iff length_append le_add1)
    have w: "\<not> link_char w" using 2(3) by (simp add: link_char_def)
    have d: "drop ?n ((c # cs) @ w # b) = drop ?n (c # cs) @ w # b" using le by (subst drop_append) simp
    have "takeWhile link_char (r @ w # b) = takeWhile link_char r" "dropWhile link_char (r @ w # b) = dropWhile link_char r @ w # b" for r
      using w by (induction r) auto
    then show ?thesis using True P 2(1) [OF refl True 2(3)] d by (simp add: link_ids.simps(2) [of c] Let_def)
  next
    case False
    have "link_ids (c # cs) = link_ids cs" using False by (auto simp: link_ids.simps(2) [of c cs])
    moreover have "link_ids (c # cs @ w # b) = link_ids (cs @ w # b)"
    proof (cases "HasPrefix (c # cs) link_prefix")
      case True
      then obtain r where r: "c # cs = link_prefix @ r" by (auto simp: HasPrefix_iff)
      then have "takeWhile link_char r = []" using False True by auto
      then have "takeWhile link_char (r @ w # b) = []" using 2(3) by (cases r) (auto simp: link_char_def split: if_splits)
      moreover have "drop ?n (c # cs @ w # b) = r @ w # b" using r by (metis append_Cons append_assoc append_eq_conv_conj)
      ultimately show ?thesis by (simp add: link_ids.simps(2) [of c "cs @ w # b"])
    next
      case False
      then show ?thesis using P by (simp add: link_ids.simps(2) [of c "cs @ w # b"])
    qed
    ultimately show ?thesis using 2(2) [OF refl False 2(3)] by simp
  qed
qed

lemma link_ids_skip:
  assumes "\<And>a b. q = a @ b \<Longrightarrow> b \<noteq> [] \<Longrightarrow> \<not> HasPrefix (b @ s) link_prefix"
  shows "link_ids (q @ s) = link_ids s"
  using assms
proof (induction q)
  case Nil
  then show ?case by simp
next
  case (Cons c cs)
  have "\<not> HasPrefix (c # cs @ s) link_prefix" using Cons.prems [of "[]" "c # cs"] by simp
  moreover have "\<not> HasPrefix (b @ s) link_prefix" if "cs = a @ b" "b \<noteq> []" for a b
    using Cons.prems [of "c # a" b] that by simp
  ultimately show ?case using Cons.IH by (simp add: link_ids.simps(2))
qed

text \<open>An id a link can carry: of the characters the pattern takes, and no slash.\<close>

definition plain_id :: "string \<Rightarrow> bool" where
  "plain_id x = (x \<noteq> [] \<and> list_all (\<lambda>c. link_char c \<and> c \<noteq> CHR ''/'') x)"

lemma link_ids_link: "plain_id x \<Longrightarrow> link_ids (link_prefix @ x @ CHR '')'' # r) = x # link_ids (CHR '')'' # r)"
proof -
  assume x: "plain_id x"
  have stop: "\<not> link_char CHR '')''" by code_simp
  have "takeWhile link_char (x @ CHR '')'' # r) = x" "dropWhile link_char (x @ CHR '')'' # r) = CHR '')'' # r"
    using x stop by (auto simp: plain_id_def list_all_iff)
  moreover have "link_prefix @ x @ CHR '')'' # r \<noteq> []" by simp
  ultimately show ?thesis using x by (simp add: link_ids_eq [of "link_prefix @ x @ CHR '')'' # r"] plain_id_def)
qed

lemma link_ids_text:
  assumes "plain_id x"
  shows "link_ids (CHR ''['' # x @ ''](https://'' @ link_prefix @ x @ CHR '')'' # r) = x # link_ids (CHR '')'' # r)"
proof -
  let ?s = "link_prefix @ x @ CHR '')'' # r"
  have no_o: "CHR ''o'' \<notin> set ''](https://''" by code_simp
  have "\<not> HasPrefix (b @ ?s) link_prefix" if q: "(CHR ''['' # x) @ ''](https://'' = a @ b" and "b \<noteq> []" for a b
  proof
    assume P: "HasPrefix (b @ ?s) link_prefix"
    from q consider us where "a = (CHR ''['' # x) @ us" "us @ b = ''](https://''"
      | us where "us \<noteq> []" "a @ us = CHR ''['' # x" "b = us @ ''](https://''"
      using append_split_cases by blast
    then show False
    proof cases
      case 1
      obtain c cs where b: "b = c # cs" using \<open>b \<noteq> []\<close> by (cases b) auto
      then have "c \<in> set ''](https://''" using 1(2) by (metis in_set_conv_decomp)
      moreover have "c = CHR ''o''" using P b HasPrefix_link_hd by simp
      ultimately show False using no_o by blast
    next
      case 2
      then have "b @ ?s = us @ CHR '']'' # ''(https://'' @ ?s" by simp
      then have "HasPrefix us link_prefix" using P HasPrefix_append_stop [OF link_prefix_facts(4)] by simp
      then have "CHR ''/'' \<in> set us" using link_prefix_facts(3) by (auto simp: HasPrefix_iff)
      moreover have "set us \<subseteq> set (CHR ''['' # x)" using 2(2) by (metis Un_upper2 set_append)
      ultimately show False using assms by (auto simp: plain_id_def list_all_iff)
    qed
  qed
  then have "link_ids (((CHR ''['' # x) @ ''](https://'') @ ?s) = link_ids ?s" by (rule link_ids_skip)
  then show ?thesis using link_ids_link [OF assms] by simp
qed

lemma body_line_ids: "plain_id (f_id f) \<Longrightarrow> f_id f \<in> set (link_ids (body_line f))"
proof -
  assume f: "plain_id (f_id f)"
  obtain r where r: "body_line f = ''-'' @ CHR '' '' # CHR ''['' # f_id f @ ''](https://'' @ link_prefix @ f_id f @ CHR '')'' # r"
    by (simp add: body_line_def link_prefix_def)
  have "re_space CHR '' ''" by code_simp
  then show ?thesis unfolding r link_ids_space [OF \<open>re_space CHR '' ''\<close>] link_ids_text [OF f] by simp
qed

lemma body_lists_its_findings:
  assumes "f \<in> set fs" and "plain_id (f_id f)"
  shows "f_id f \<in> set (link_ids (body release fs))"
proof -
  have nl: "re_space newline" by code_simp
  have lines: "\<exists>l. body_line g = l @ [newline]" for g by (simp add: body_line_def)
  have "\<exists>a. body_head release fs @ concat (map body_line gs) = a @ [newline]" for gs
  proof (induction gs rule: rev_induct)
    case Nil
    show ?case by (simp add: body_head_def)
  next
    case (snoc g gs)
    then show ?case using lines [of g] by auto
  qed
  moreover obtain as bs where fs: "fs = as @ f # bs" using assms(1) by (metis split_list)
  ultimately obtain a where a: "body_head release fs @ concat (map body_line as) = a @ [newline]" by blast
  obtain l where l: "body_line f = l @ [newline]" using lines by blast
  have "body release fs = (body_head release fs @ concat (map body_line as)) @ body_line f @ concat (map body_line bs)"
    unfolding body_def by (simp add: fs)
  then have "body release fs = a @ newline # l @ newline # concat (map body_line bs)" using a l by simp
  then have "set (link_ids (body release fs)) = set (link_ids a) \<union> set (link_ids l) \<union> set (link_ids (concat (map body_line bs)))"
    by (simp add: link_ids_space [OF nl] Un_assoc)
  moreover have "link_ids (body_line f) = link_ids l" using l link_ids_space [OF nl, of l "[]"] by simp
  ultimately show ?thesis using body_line_ids [OF assms(2)] by simp
qed

subsection \<open>Packages and titles\<close>

definition of_package :: "finding list \<Rightarrow> string \<Rightarrow> finding list" where
  "of_package findings n = filter (\<lambda>f. finding_name f = n) findings"

definition pkg_view :: "finding list \<Rightarrow> (string \<rightharpoonup> finding list)" where
  "pkg_view findings n = (if of_package findings n = [] then None else Some (of_package findings n))"

lemma of_package_empty: "of_package findings n = [] \<longleftrightarrow> n \<notin> finding_name ` set findings"
  by (auto simp: of_package_def filter_empty_conv image_iff)

lemma by_package_view:
  "fst (by_package findings) = pkg_view findings \<and> distinct (snd (by_package findings))
   \<and> set (snd (by_package findings)) = finding_name ` set findings"
proof (induction findings rule: rev_induct)
  case Nil
  then show ?case by (simp add: by_package_def fun_eq_iff pkg_view_def of_package_def)
next
  case (snoc f fs)
  obtain b ns where bn: "by_package fs = (b, ns)" by fastforce
  have step: "by_package (fs @ [f]) = add_finding f (b, ns)" using bn by (simp add: by_package_def)
  have b: "b = pkg_view fs" "distinct ns" "set ns = finding_name ` set fs" using snoc bn by simp_all
  have ofp: "of_package (fs @ [f]) n = of_package fs n @ (if finding_name f = n then [f] else [])" for n
    by (simp add: of_package_def)
  have none: "of_package fs (finding_name f) = [] \<longleftrightarrow> finding_name f \<notin> set ns"
    using b(3) of_package_empty [of fs] by simp
  show ?case
  proof (cases "of_package fs (finding_name f) = []")
    case True
    then show ?thesis using b none unfolding step
      by (auto simp: add_finding_def pkg_view_def ofp fun_eq_iff Let_def)
  next
    case False
    then show ?thesis using b none unfolding step
      by (auto simp: add_finding_def pkg_view_def ofp fun_eq_iff Let_def)
  qed
qed

definition numbered :: "issue list \<Rightarrow> bool" where
  "numbered issues = distinct (map i_Number issues)"

text \<open>The newest issue of a title.\<close>

definition newest_of :: "issue set \<Rightarrow> string \<Rightarrow> issue \<Rightarrow> bool" where
  "newest_of S t i = (i \<in> S \<and> i_Title i = t \<and> (\<forall>j \<in> S. i_Title j = t \<longrightarrow> i_Number j \<le> i_Number i))"

lemma by_title_newest_ex:
  "case by_title issues t of None \<Rightarrow> t \<notin> i_Title ` set issues | Some i \<Rightarrow> newest_of (set issues) t i"
proof (induction issues rule: rev_induct)
  case Nil
  then show ?case by (simp add: by_title_def)
next
  case (snoc i issues)
  have "by_title (issues @ [i]) = add_title i (by_title issues)" by (simp add: by_title_def)
  with snoc show ?case
    by (cases "i_Title i = t") (auto simp: add_title_def newest_of_def image_iff split: option.splits if_splits)
qed




lemma by_title_Some: "by_title issues t = Some i \<Longrightarrow> i \<in> set issues \<and> i_Title i = t"
  using by_title_newest_ex [where issues = issues and t = t] by (auto simp: newest_of_def)

lemma by_title_None: "by_title issues t = None \<longleftrightarrow> t \<notin> i_Title ` set issues"
  using by_title_newest_ex [where issues = issues and t = t] by (auto simp: newest_of_def split: option.splits)

subsection \<open>The plan, title by title\<close>

definition todo :: "string \<Rightarrow> finding list \<Rightarrow> string \<Rightarrow> issue option \<Rightarrow> action list" where
  "todo release findings t have_i = (case CutPrefix t ''osv: '' of (name, ok) \<Rightarrow>
     if ok \<and> of_package findings name \<noteq> [] then act_for release name (of_package findings name) have_i
     else (case have_i of Some i \<Rightarrow> if is_gone (pkg_view findings) t i then [close_action release t i] else [] | None \<Rightarrow> []))"

definition planned_titles :: "finding list \<Rightarrow> issue list \<Rightarrow> string list" where
  "planned_titles findings issues = map title (Sort (snd (by_package findings))) @ gone_titles (pkg_view findings) issues"

lemma CutPrefix_title: "CutPrefix (title n) ''osv: '' = (n, True)"
proof -
  have "drop (length p) (p @ n) = n" for p :: string by simp
  then show ?thesis unfolding title_def CutPrefix_def by (simp only: HasPrefix_append if_True)
qed

lemma CutPrefix_osv: "CutPrefix t ''osv: '' = (n, True) \<Longrightarrow> title n = t"
  by (auto simp: CutPrefix_def title_def HasPrefix_iff split: if_splits)

lemma todo_title:
  "of_package findings n \<noteq> [] \<Longrightarrow> todo release findings (title n) h = act_for release n (of_package findings n) h"
  by (simp add: todo_def CutPrefix_title)


lemma todo_gone: "is_gone (pkg_view findings) t i \<Longrightarrow> todo release findings t (Some i) = [close_action release t i]"
  by (auto simp: todo_def is_gone_def pkg_view_def split: prod.splits if_splits)

lemma gone_titles_set:
  "t \<in> set (gone_titles b issues) \<longleftrightarrow> (\<exists>i. by_title issues t = Some i \<and> is_gone b t i)"
proof -
  have "t \<in> i_Title ` set issues \<longleftrightarrow> (\<exists>i. by_title issues t = Some i)" using by_title_None [where issues = issues and t = t] by auto
  then show ?thesis by (auto simp: gone_titles_def)
qed

lemma plan_todo:
  "plan release findings issues = concat (map (\<lambda>t. todo release findings t (by_title issues t)) (planned_titles findings issues))"
proof -
  obtain b ns where bn: "by_package findings = (b, ns)" by fastforce
  then have b: "b = pkg_view findings" and ns: "set ns = finding_name ` set findings" using by_package_view [of findings] by simp_all
  have "of_package findings n \<noteq> []" if "n \<in> set ns" for n using that ns by (simp add: of_package_empty)
  then have 1: "map (\<lambda>n. act_for release n (the (b n)) (by_title issues (title n))) (Sort ns)
      = map (\<lambda>t. todo release findings t (by_title issues t)) (map title (Sort ns))"
    by (auto simp: b pkg_view_def todo_title)
  have "todo release findings t (by_title issues t) = [close_action release t (the (by_title issues t))]"
    if "t \<in> set (gone_titles b issues)" for t
    using that todo_gone unfolding gone_titles_set b by auto
  then have 2: "concat (map (\<lambda>t. todo release findings t (by_title issues t)) (gone_titles b issues))
      = map (\<lambda>t. close_action release t (the (by_title issues t))) (gone_titles b issues)"
    by (subst map_cong [OF refl, of _ _ "\<lambda>t. [close_action release t (the (by_title issues t))]"]) auto
  show ?thesis unfolding plan_def planned_titles_def bn prod.case snd_conv map_append concat_append 1 b [symmetric] 2 ..
qed



lemma not_planned: "t \<notin> set (planned_titles findings issues) \<Longrightarrow> todo release findings t (by_title issues t) = []"
proof -
  assume t: "t \<notin> set (planned_titles findings issues)"
  have ns: "set (snd (by_package findings)) = finding_name ` set findings" using by_package_view [of findings] by simp
  have "of_package findings n = []" if "t = title n" for n
    using t ns that by (auto simp: planned_titles_def of_package_empty)
  moreover have "t = title (fst (CutPrefix t ''osv: ''))" if "snd (CutPrefix t ''osv: '')"
    using that by (auto simp: CutPrefix_def title_def HasPrefix_iff split: if_splits)
  moreover have "\<not> is_gone (pkg_view findings) t i" if "by_title issues t = Some i" for i
    using t that by (auto simp: planned_titles_def gone_titles_set)
  ultimately show ?thesis by (auto simp: todo_def split: prod.splits option.splits)
qed

subsection \<open>What the GitHub CLI does\<close>

definition upd :: "int \<Rightarrow> (issue \<Rightarrow> issue) \<Rightarrow> issue \<Rightarrow> issue" where
  "upd n g i = (if i_Number i = n then g i else i)"



text \<open>What one action does to an issue it is about.\<close>

fun effect :: "verb \<Rightarrow> string \<Rightarrow> issue \<Rightarrow> issue" where
  "effect Create b i = i"
| "effect Edit b i = i\<lparr>i_Body := b\<rparr>"
| "effect Reopen b i = i\<lparr>i_State := ''OPEN''\<rparr>"
| "effect Close b i = i\<lparr>i_State := ''CLOSED''\<rparr>"

definition valid :: "issue list \<Rightarrow> action \<Rightarrow> bool" where
  "valid is a = (a_verb a \<noteq> Create \<longrightarrow> (\<exists>i \<in> set is. i_Number i = a_number a \<and> i_Title i = a_title a))"

lemma effect_keeps [simp]: "i_Number (effect v b i) = i_Number i" "i_Title (effect v b i) = i_Title i"
  by (cases v; simp)+

lemma upd_keeps [simp]: "i_Number (upd n (effect v b) i) = i_Number i" "i_Title (upd n (effect v b) i) = i_Title i"
  by (simp_all add: upd_def)









subsection \<open>Taking the plan\<close>



lemma todo_titles:
  assumes "by_title is t = h" "a \<in> set (todo release findings t h)"
  shows "a_title a = t \<and> valid is a"
proof -
  have i: "i \<in> set is" "i_Title i = t" if "h = Some i" for i using by_title_Some assms(1) that by auto
  show ?thesis
  proof (cases h)
    case None
    obtain name ok where cp: "CutPrefix t ''osv: '' = (name, ok)" by fastforce
    then show ?thesis using assms(2) None CutPrefix_osv [of t name]
      by (auto simp: todo_def act_for_def valid_def Let_def split: if_splits)
  next
    case (Some i)
    then show ?thesis using assms(2) i [OF Some]
      by (auto simp: todo_def act_for_def close_action_def valid_def Let_def split: prod.splits if_splits)
  qed
qed




lemma act_for_titles: "a \<in> set (act_for release n fs (Some i)) \<Longrightarrow> a_title a = i_Title i"
  by (auto simp: act_for_def Let_def split: if_splits)

subsection \<open>Properties\<close>
















text \<open>C32: A closed issue is an answer. When a package's newest issue is closed and its body is one the
  command wrote, for findings with ids of the usual form, the issue lists all of those findings,
  and the plan has an action on it exactly when the package now has a finding it does not list.\<close>

theorem closed_issue_is_an_answer:
  assumes "numbered issues" and "by_title issues (title n) = Some i" and "i_State i \<noteq> ''OPEN''"
    and "i_Body i = body release0 fs0" and "list_all (\<lambda>f. plain_id (f_id f)) fs0"
  shows "f_id ` set fs0 \<subseteq> set (issue_ids i)
    \<and> ((\<exists>a \<in> set (plan release findings issues). a_title a = title n)
       \<longleftrightarrow> (\<exists>f \<in> set findings. finding_name f = n \<and> f_id f \<notin> set (issue_ids i)))"
proof
  show "f_id ` set fs0 \<subseteq> set (issue_ids i)"
    using assms(4,5) body_lists_its_findings by (auto simp: issue_ids_def list_all_iff)
  have mine: "a_title a = t" if "a \<in> set (todo release findings t (by_title issues t))" for a t
    using todo_titles [OF refl that] by simp
  have "(\<exists>a \<in> set (plan release findings issues). a_title a = title n)
      \<longleftrightarrow> todo release findings (title n) (by_title issues (title n)) \<noteq> []"
  proof (cases "title n \<in> set (planned_titles findings issues)")
    case True
    then show ?thesis unfolding plan_todo using mine by (fastforce simp: neq_Nil_conv)
  next
    case False
    then show ?thesis unfolding plan_todo using mine not_planned [OF False] by fastforce
  qed
  also have "\<dots> \<longleftrightarrow> (\<exists>f \<in> set findings. finding_name f = n \<and> f_id f \<notin> set (issue_ids i))"
  proof (cases "of_package findings n = []")
    case True
    then have "\<not> is_gone b t i" for b t using assms(3) by (auto simp: is_gone_def split: prod.splits)
    then show ?thesis using True assms(2) by (auto simp: todo_def CutPrefix_title of_package_empty)
  next
    case False
    then have "todo release findings (title n) (by_title issues (title n)) = act_for release n (of_package findings n) (Some i)"
      using assms(2) by (simp add: todo_title)
    then show ?thesis using assms(3) by (auto simp: act_for_def Let_def filter_empty_conv of_package_def)
  qed
  finally show "(\<exists>a \<in> set (plan release findings issues). a_title a = title n)
      \<longleftrightarrow> (\<exists>f \<in> set findings. finding_name f = n \<and> f_id f \<notin> set (issue_ids i))" .
qed

subsection \<open>Witnesses\<close>







definition sample_finding :: finding where
  "sample_finding = \<lparr>f_id = ''CVE-1'', f_pkg = ''curl@8'', f_summary = ''bad''\<rparr>"

definition sample_issue :: issue where
  "sample_issue = \<lparr>i_Number = 7, i_Title = title ''curl'', i_State = ''CLOSED'', i_Body = body ''v1'' [sample_finding]\<rparr>"








theorem closed_issue_is_an_answer_witness:
  "numbered [sample_issue] \<and> by_title [sample_issue] (title ''curl'') = Some sample_issue \<and> i_State sample_issue \<noteq> ''OPEN''
   \<and> i_Body sample_issue = body ''v1'' [sample_finding] \<and> list_all (\<lambda>f. plain_id (f_id f)) [sample_finding]
   \<and> f_id ` set [sample_finding] \<subseteq> set (issue_ids sample_issue)
   \<and> ((\<exists>a \<in> set (plan ''v2'' [sample_finding] [sample_issue]). a_title a = title ''curl'')
       \<longleftrightarrow> (\<exists>f \<in> set [sample_finding]. finding_name f = ''curl'' \<and> f_id f \<notin> set (issue_ids sample_issue)))"
proof -
  have 1: "numbered [sample_issue]" by (simp add: numbered_def)
  have 2: "by_title [sample_issue] (title ''curl'') = Some sample_issue" by (simp add: by_title_def add_title_def sample_issue_def)
  have 3: "i_State sample_issue \<noteq> ''OPEN''" by (simp add: sample_issue_def)
  have 4: "i_Body sample_issue = body ''v1'' [sample_finding]" by (simp add: sample_issue_def)
  have 5: "list_all (\<lambda>f. plain_id (f_id f)) [sample_finding]" by code_simp
  note answer = closed_issue_is_an_answer [OF 1 2 3 4 5, of "''v2''" "[sample_finding]"]
  show ?thesis using answer [THEN conjunct1] answer [THEN conjunct2] 1 2 3 4 5 by (intro conjI)
qed

end
