(* ===== verification/Release_Notes.thy ===== *)
theory Release_Notes
  imports Go_Sort Go_Flag
begin

text \<open>
  The notes of a release: \<^verbatim>\<open>hack/releasenotes/main.go\<close>.

  \<open>notes_write\<close> is \<^verbatim>\<open>write\<close>: what it has written when it returns, and its error. Git is a parameter, a
  function from its arguments to its output or the text of its failure, and so is
  \<^verbatim>\<open>versions.Parse\<close>, of another module, which gives the entries of a \<^verbatim>\<open>versions.yaml\<close>. A Go map is
  the list of its entries, each key once.

  Shown here: every commit git lists is in the notes, but for one that changes \<^verbatim>\<open>versions.yaml\<close>
  alone; and the kernel options listed are those whose value changed.
\<close>

subsection \<open>Texts\<close>

text \<open>\<^verbatim>\<open>strings.Lines\<close>: each with its line end, the last only if it has any bytes.\<close>

fun Lines :: "string \<Rightarrow> string list" where
  "Lines [] = []"
| "Lines (c # cs) = (if c = newline then [newline] # Lines cs
     else (case Lines cs of
             [] \<Rightarrow> [[c]]
           | l # ls \<Rightarrow> (c # l) # ls))"

text \<open>\<^verbatim>\<open>strings.Cut\<close> at a string.\<close>

fun CutAt :: "string \<Rightarrow> string \<Rightarrow> string \<times> string \<times> bool" where
  "CutAt [] sep = (if sep = [] then ([], [], True) else ([], [], False))"
| "CutAt (c # cs) sep =
     (if HasPrefix (c # cs) sep then ([], drop (length sep) (c # cs), True)
      else (case CutAt cs sep of (a, b, ok) \<Rightarrow> (c # a, b, ok)))"

definition HasSuffix :: "string \<Rightarrow> string \<Rightarrow> bool" where
  "HasSuffix s p = HasPrefix (rev s) (rev p)"

definition CutSuffix :: "string \<Rightarrow> string \<Rightarrow> string \<times> bool" where
  "CutSuffix s p = (if HasSuffix s p then (take (length s - length p) s, True) else (s, False))"

text \<open>\<^verbatim>\<open>path.Base\<close>.\<close>

definition path_Base :: "string \<Rightarrow> string" where
  "path_Base p = (if p = [] then ''.''
     else let s = rev (dropWhile (\<lambda>c. c = CHR ''/'') (rev p)) in
       if s = [] then ''/'' else rev (takeWhile (\<lambda>c. c \<noteq> CHR ''/'') (rev s)))"

text \<open>An entry of a map is set, and looked up with the empty string for a missing key.\<close>

definition put :: "string \<Rightarrow> 'v \<Rightarrow> (string \<times> 'v) list \<Rightarrow> (string \<times> 'v) list" where
  "put k v m = (k, v) # filter (\<lambda>e. fst e \<noteq> k) m"

definition keys_of :: "(string \<times> 'v) list \<Rightarrow> (string \<times> 'v) list \<Rightarrow> string list" where
  "keys_of a b = Sort (remdups (map fst a @ map fst b))"

subsection \<open>Git\<close>

type_synonym git = "string list \<Rightarrow> (string, string) result"

datatype notes_error = GitError string | BadVersions string string

record commit =
  c_subject :: string
  c_files :: "string list"

definition touches :: "commit \<Rightarrow> string list \<Rightarrow> bool" where
  "touches c prefixes = list_ex (\<lambda>f. list_ex (HasPrefix f) prefixes) (c_files c)"

definition only_file :: "commit \<Rightarrow> string \<Rightarrow> bool" where
  "only_file c f = (c_files c \<noteq> [] \<and> \<not> list_ex (\<lambda>g. g \<noteq> f) (c_files c))"

definition commit_of :: "string \<Rightarrow> commit" where
  "commit_of rcd = (case Cut rcd newline of (subject, files, _) \<Rightarrow>
     \<lparr>c_subject = subject, c_files = filter (\<lambda>f. f \<noteq> []) (map TrimSpace (Lines files))\<rparr>)"

definition git_log_args :: "string \<Rightarrow> string \<Rightarrow> string list" where
  "git_log_args frm to = [''log'', ''--reverse'', ''--no-merges'', ''--format=%x00%s'', ''--name-only'', frm @ ''..'' @ to]"

definition git_commits :: "git \<Rightarrow> string \<Rightarrow> string \<Rightarrow> (notes_error, commit list) result" where
  "git_commits git frm to = (case git (git_log_args frm to) of
      Inl e \<Rightarrow> Inl (GitError e)
    | Inr out \<Rightarrow> Inr (map commit_of (tl (Split out CHR 0x00))))"

record entry =
  e_Name :: string
  e_Version :: string
  e_Pin :: string

definition git_versions :: "git \<Rightarrow> (string \<Rightarrow> (string, entry list) result) \<Rightarrow> string \<Rightarrow> (notes_error, (string \<times> entry) list) result" where
  "git_versions git parse ref = (case git [''show'', ref @ '':versions.yaml''] of
      Inl _ \<Rightarrow> Inr []
    | Inr b \<Rightarrow> (case parse b of
          Inl e \<Rightarrow> Inl (BadVersions ref e)
        | Inr es \<Rightarrow> Inr (fold (\<lambda>e m. put (e_Name e) e m) es [])))"

text \<open>One line of a kernel configuration.\<close>

definition config_line :: "string \<Rightarrow> (string \<times> string) list \<Rightarrow> (string \<times> string) list" where
  "config_line l m = (let line = TrimSpace l in
     case CutPrefix line ''# CONFIG_'' of
       (opt, True) \<Rightarrow> (case CutSuffix opt '' is not set'' of (k, True) \<Rightarrow> put k ''n'' m | (_, False) \<Rightarrow> m)
     | (_, False) \<Rightarrow> (case CutPrefix line ''CONFIG_'' of
           (opt, True) \<Rightarrow> (case Cut opt CHR ''='' of (k, v, True) \<Rightarrow> put k v m | (_, _, False) \<Rightarrow> m)
         | (_, False) \<Rightarrow> m))"

definition config_file :: "string list \<Rightarrow> string" where
  "config_file names = fold (\<lambda>l f. let n = TrimSpace l in if HasPrefix (path_Base n) ''config-'' then n else f) names []"

definition git_kernelConfig :: "git \<Rightarrow> string \<Rightarrow> (notes_error, (string \<times> string) list) result" where
  "git_kernelConfig git ref = (case git [''ls-tree'', ''--name-only'', ref, ''kernel/''] of
      Inl e \<Rightarrow> Inl (GitError e)
    | Inr names \<Rightarrow> (let f = config_file (Lines names) in
        if f = [] then Inr []
        else (case git [''show'', ref @ '':'' @ f] of
                Inl e \<Rightarrow> Inl (GitError e)
              | Inr b \<Rightarrow> Inr (fold config_line (Lines b) []))))"

subsection \<open>Sections\<close>

definition right_arrow :: string where
  "right_arrow = [CHR '' '', CHR 0xE2, CHR 0x86, CHR 0x92, CHR '' '']"

definition notes_section :: "string \<Rightarrow> string list \<Rightarrow> string" where
  "notes_section heading ls = (if ls = [] then []
     else ''### '' @ heading @ [newline, newline] @ Join ls [newline] @ [newline, newline])"

definition short_pin :: "string \<Rightarrow> string" where
  "short_pin pin = take 12 (fst (CutPrefix pin ''sha256:''))"

definition version_line :: "(string \<times> entry) list \<Rightarrow> (string \<times> entry) list \<Rightarrow> string \<Rightarrow> string list" where
  "version_line old cur name = (case (map_of old name, map_of cur name) of
      (None, None) \<Rightarrow> []
    | (None, Some n) \<Rightarrow> [''- `'' @ name @ ''` added at `'' @ e_Version n @ ''`'']
    | (Some ol, None) \<Rightarrow> [''- `'' @ name @ ''` removed (was `'' @ e_Version ol @ ''`)'']
    | (Some ol, Some n) \<Rightarrow>
        if e_Version ol \<noteq> e_Version n then [''- `'' @ name @ ''` `'' @ e_Version ol @ ''`'' @ right_arrow @ ''`'' @ e_Version n @ ''`'']
        else if e_Pin ol \<noteq> e_Pin n then
          [''- `'' @ name @ ''` `'' @ e_Version n @ ''` pin `'' @ short_pin (e_Pin ol) @ ''`'' @ right_arrow @ ''`'' @ short_pin (e_Pin n) @ ''`'']
        else [])"

definition writeVersions :: "git \<Rightarrow> (string \<Rightarrow> (string, entry list) result) \<Rightarrow> string \<Rightarrow> string \<Rightarrow> (notes_error, string) result" where
  "writeVersions git parse frm to = (case git_versions git parse frm of
      Inl e \<Rightarrow> Inl e
    | Inr old \<Rightarrow> (case git_versions git parse to of
          Inl e \<Rightarrow> Inl e
        | Inr cur \<Rightarrow> Inr (notes_section ''Pins (versions.yaml)'' (concat (map (version_line old cur) (keys_of old cur))))))"

text \<open>\<^verbatim>\<open>cmp.Or\<close> of an option's value and n.\<close>

definition config_value :: "(string \<times> string) list \<Rightarrow> string \<Rightarrow> string" where
  "config_value m opt = (case map_of m opt of None \<Rightarrow> ''n'' | Some v \<Rightarrow> if v = [] then ''n'' else v)"

definition config_change :: "(string \<times> string) list \<Rightarrow> (string \<times> string) list \<Rightarrow> string \<Rightarrow> string list" where
  "config_change old cur opt = (if config_value old opt \<noteq> config_value cur opt
     then [''- `CONFIG_'' @ opt @ ''` '' @ config_value old opt @ right_arrow @ config_value cur opt] else [])"

definition writeKernelConfig :: "git \<Rightarrow> string \<Rightarrow> string \<Rightarrow> (notes_error, string) result" where
  "writeKernelConfig git frm to = (case git_kernelConfig git frm of
      Inl e \<Rightarrow> Inl e
    | Inr old \<Rightarrow> (case git_kernelConfig git to of
          Inl e \<Rightarrow> Inl e
        | Inr cur \<Rightarrow> Inr (notes_section ''Kernel configuration'' (concat (map (config_change old cur) (keys_of old cur))))))"

definition TrimRight_nl :: "string \<Rightarrow> string" where
  "TrimRight_nl s = rev (dropWhile (\<lambda>c. c = newline) (rev s))"

text \<open>The loop of \<^verbatim>\<open>patchSubject\<close>: the subject's lines so far, if a subject has begun.\<close>

fun subject_from :: "string list option \<Rightarrow> string list \<Rightarrow> string option" where
  "subject_from subject [] = None"
| "subject_from subject (l # ls) =
     (let line = TrimRight_nl l in
      case CutPrefix line ''Subject: '' of
        (rest, True) \<Rightarrow> subject_from (Some [rest]) ls
      | (_, False) \<Rightarrow> (case subject of
            None \<Rightarrow> subject_from None ls
          | Some parts \<Rightarrow>
              if HasPrefix line '' '' then subject_from (Some (parts @ [TrimSpace line])) ls
              else (let s = Join parts '' '' in
                Some (if HasPrefix s ''['' then (case CutAt s ''] '' of (_, aft, True) \<Rightarrow> aft | (_, _, False) \<Rightarrow> s) else s))))"

definition patchSubject :: "string \<Rightarrow> string option" where
  "patchSubject b = subject_from None (Lines b)"

text \<open>One line of \<^verbatim>\<open>git diff --name-status\<close>: nothing, or the line of the notes.\<close>

definition patch_line :: "git \<Rightarrow> string \<Rightarrow> string \<Rightarrow> string \<Rightarrow> (notes_error, string list) result" where
  "patch_line git frm to l = (case Cut (TrimSpace l) CHR 0x09 of (status, f, ok) \<Rightarrow>
     if \<not> ok \<or> \<not> HasSuffix f ''.patch'' then Inr []
     else let g = (case Cut f CHR 0x09 of (_, aft, True) \<Rightarrow> aft | (_, _, False) \<Rightarrow> f);
              added = HasPrefix status ''A''; removed = HasPrefix status ''D'';
              ref = (if removed then frm else to);
              verb = (if added then ''added'' else if removed then ''removed'' else ''changed'')
          in case git [''show'', ref @ '':'' @ g] of
               Inl e \<Rightarrow> Inl (GitError e)
             | Inr b \<Rightarrow> (case patchSubject b of
                   Some about \<Rightarrow> Inr [''- '' @ verb @ '' `'' @ g @ ''`: '' @ about]
                 | None \<Rightarrow> (case git [''log'', ''-1'', ''--format=%s'', ref, ''--'', g] of
                       Inl e \<Rightarrow> Inl (GitError e)
                     | Inr subj \<Rightarrow> Inr [''- '' @ verb @ '' `'' @ g @ ''`: '' @ TrimSpace subj])))"

fun collect :: "('a \<Rightarrow> (notes_error, string list) result) \<Rightarrow> 'a list \<Rightarrow> (notes_error, string list) result" where
  "collect f [] = Inr []"
| "collect f (x # xs) = (case f x of
      Inl e \<Rightarrow> Inl e
    | Inr a \<Rightarrow> (case collect f xs of Inl e \<Rightarrow> Inl e | Inr b \<Rightarrow> Inr (a @ b)))"

definition patchDirs :: "string list" where
  "patchDirs = [''qemu/patches'', ''qemu/qboot'', ''kernel/patches'']"

definition patch_dir :: "git \<Rightarrow> string \<Rightarrow> string \<Rightarrow> string \<Rightarrow> (notes_error, string list) result" where
  "patch_dir git frm to dir = (case git [''diff'', ''--name-status'', frm, to, ''--'', dir] of
      Inl e \<Rightarrow> Inl (GitError e)
    | Inr ls \<Rightarrow> collect (patch_line git frm to) (Lines ls))"

definition writePatches :: "git \<Rightarrow> string \<Rightarrow> string \<Rightarrow> (notes_error, string) result" where
  "writePatches git frm to = (case collect (patch_dir git frm to) patchDirs of
      Inl e \<Rightarrow> Inl e
    | Inr ls \<Rightarrow> Inr (notes_section ''Patches to upstream source'' ls))"

subsection \<open>The notes\<close>

definition parts :: "(string \<times> string list) list" where
  "parts = [(''QEMU and firmware'', [''qemu/'']), (''Kernel'', [''kernel/'']), (''Base image'', [''image/'', ''e2fsprogs/'']),
     (''The machine's definition and the spin-machine CLI'', [''machine/'', ''cmd/''])]"

definition commit_lines :: "commit list \<Rightarrow> string" where
  "commit_lines cs = concat (map (\<lambda>c. ''- '' @ c_subject c @ [newline]) cs)"

definition part_text :: "commit list \<Rightarrow> string \<times> string list \<Rightarrow> string" where
  "part_text commits p = (let ins = filter (\<lambda>c. touches c (snd p)) commits in
     if ins = [] then [] else ''### '' @ fst p @ [newline, newline] @ commit_lines ins @ [newline])"

definition outside :: "commit list \<Rightarrow> commit list" where
  "outside commits = filter (\<lambda>c. \<not> list_ex (\<lambda>p. touches c (snd p)) parts \<and> \<not> only_file c ''versions.yaml'') commits"

definition outside_text :: "commit list \<Rightarrow> string" where
  "outside_text out = (if out = [] then []
     else ''<details><summary>'' @ dec (length out) @ '' more, none of them in the machine: tests, the lab, CI, tooling</summary>''
       @ [newline, newline] @ commit_lines out @ newline # ''</details>'' @ [newline, newline])"

text \<open>\<^verbatim>\<open>write\<close>: what was written, and the error it ended with.\<close>

definition notes_write :: "git \<Rightarrow> (string \<Rightarrow> (string, entry list) result) \<Rightarrow> string \<Rightarrow> string \<Rightarrow> string \<times> notes_error option" where
  "notes_write git parse frm to = (case git_commits git frm to of
      Inl e \<Rightarrow> ([], Some e)
    | Inr commits \<Rightarrow>
        (let head = ''## What changed since '' @ frm @ [newline, newline] @ concat (map (part_text commits) parts)
             @ (if commits = [] then ''Nothing: this is the tree '' @ frm @ '' was built from.'' @ [newline, newline] else [])
         in case writeVersions git parse frm to of
              Inl e \<Rightarrow> (head, Some e)
            | Inr vs \<Rightarrow> (case writeKernelConfig git frm to of
                  Inl e \<Rightarrow> (head @ vs, Some e)
                | Inr ks \<Rightarrow> (case writePatches git frm to of
                      Inl e \<Rightarrow> (head @ vs @ ks, Some e)
                    | Inr ps \<Rightarrow> (head @ vs @ ks @ ps @ outside_text (outside commits), None)))))"

text \<open>The command, with its exit status and its standard output.\<close>

record notesFlags =
  nf_from :: string
  nf_to :: string

definition notes_flags :: "notesFlags flag_set" where
  "notes_flags = [(''from'', StringVar (\<lambda>v x. x\<lparr>nf_from := v\<rparr>)), (''to'', StringVar (\<lambda>v x. x\<lparr>nf_to := v\<rparr>))]"

definition run_releasenotes :: "git \<Rightarrow> (string \<Rightarrow> (string, entry list) result) \<Rightarrow> string list \<Rightarrow> int \<times> string" where
  "run_releasenotes git parse args = (case Parse (\<lambda>_. None) notes_flags args \<lparr>nf_from = [], nf_to = ''HEAD''\<rparr> of
      Inl _ \<Rightarrow> (2, [])
    | Inr (x, _) \<Rightarrow>
        if nf_from x = [] then (2, [])
        else (case notes_write git parse (nf_from x) (nf_to x) of
                (out, None) \<Rightarrow> (0, out)
              | (out, Some _) \<Rightarrow> (1, out)))"

text \<open>The program itself. \<open>output\<close> is \<^verbatim>\<open>exec.Command(...).Output()\<close> in a directory: what the command
  printed, or its error, with what it wrote to its standard error if it ran and failed.\<close>

datatype exec_error = ExitError string string | NotRun string

definition git_run :: "(string \<Rightarrow> string \<Rightarrow> string list \<Rightarrow> (exec_error, string) result) \<Rightarrow> string \<Rightarrow> git" where
  "git_run output dir args = (case output dir ''git'' args of
      Inr out \<Rightarrow> Inr out
    | Inl (ExitError e stderr) \<Rightarrow> Inl (''git '' @ Join args '' '' @ '': '' @ e @ '': '' @ TrimSpace stderr)
    | Inl (NotRun e) \<Rightarrow> Inl (''git '' @ Join args '' '' @ '': '' @ e @ '': ''))"

definition releasenotes_main ::
  "(string \<Rightarrow> string \<Rightarrow> string list \<Rightarrow> (exec_error, string) result) \<Rightarrow> (string \<Rightarrow> (string, entry list) result) \<Rightarrow> string list \<Rightarrow> int \<times> string" where
  "releasenotes_main output parse args = run_releasenotes (git_run output ''.'') parse args"

subsection \<open>Lines written and read\<close>

lemma Lines_line: "newline \<notin> set l \<Longrightarrow> Lines (l @ newline # r) = (l @ [newline]) # Lines r"
  by (induction l) auto

lemma Lines_unlines: "\<forall>l \<in> set ls. newline \<notin> set l \<Longrightarrow> Lines (unlines ls) = map (\<lambda>l. l @ [newline]) ls"
  by (induction ls) (simp_all add: unlines_def Lines_line)

text \<open>A line that begins and ends with an ASCII character that is not white space.\<close>

definition solid :: "string \<Rightarrow> bool" where
  "solid l = (l \<noteq> [] \<and> newline \<notin> set l \<and> of_char (hd l) < (128 :: nat) \<and> \<not> ascii_space (hd l)
     \<and> of_char (last l) < (128 :: nat) \<and> \<not> ascii_space (last l))"

lemma trim_front_line_end: "trim_front space_width_last (newline # r) = trim_front space_width_last r"
proof -
  have "space_width_last (newline # r) = 1" by (simp add: space_width_last_def ascii_space_def)
  then show ?thesis by (subst trim_front.simps) simp
qed

lemma TrimSpace_solid:
  assumes "solid l"
  shows "TrimSpace (l @ [newline]) = l"
proof -
  obtain c cs where l: "l = c # cs" using assms by (cases l) (auto simp: solid_def)
  then have "space_width (l @ [newline]) = 0" using assms by (simp add: solid_def space_width_def)
  then have 1: "trim_front space_width (l @ [newline]) = l @ [newline]" by (intro trim_front_fixed) simp
  obtain ds d where r: "l = ds @ [d]" using assms by (cases l rule: rev_exhaust) (auto simp: solid_def)
  then have "space_width_last (rev l) = 0" using assms by (simp add: solid_def space_width_last_def)
  then have 2: "trim_front space_width_last (rev l) = rev l" by (intro trim_front_fixed) simp
  show ?thesis using 1 2 by (simp add: TrimSpace_def trim_front_line_end)
qed

lemma TrimSpace_newline: "TrimSpace [newline] = []"
  by code_simp

subsection \<open>Commits read\<close>

text \<open>What \<^verbatim>\<open>git log\<close> prints of commits in the format asked for.\<close>

definition commit_wf :: "commit \<Rightarrow> bool" where
  "commit_wf c = (newline \<notin> set (c_subject c) \<and> CHR 0x00 \<notin> set (c_subject c)
     \<and> list_all (\<lambda>f. solid f \<and> CHR 0x00 \<notin> set f) (c_files c))"

definition log_record :: "commit \<Rightarrow> string" where
  "log_record c = c_subject c @ newline # (if c_files c = [] then [] else newline # unlines (c_files c))"

definition log_text :: "commit list \<Rightarrow> string" where
  "log_text cs = concat (map (\<lambda>c. CHR 0x00 # log_record c) cs)"

lemma commit_of_record:
  assumes "commit_wf c"
  shows "commit_of (log_record c) = c"
proof -
  have fs: "\<forall>f \<in> set (c_files c). solid f" using assms by (auto simp: commit_wf_def list_all_iff)
  then have nl: "\<forall>f \<in> set (c_files c). newline \<notin> set f" and ne: "\<forall>f \<in> set (c_files c). f \<noteq> []" by (auto simp: solid_def)
  have cut: "Cut (log_record c) newline = (c_subject c, if c_files c = [] then [] else newline # unlines (c_files c), True)"
    unfolding log_record_def by (rule Cut_found) (use assms in \<open>simp add: commit_wf_def\<close>)
  have "map TrimSpace (map (\<lambda>l. l @ [newline]) (c_files c)) = c_files c"
    using fs TrimSpace_solid by (simp add: map_idI)
  then have "filter (\<lambda>f. f \<noteq> []) (map TrimSpace (Lines (newline # unlines (c_files c)))) = c_files c"
    using ne Lines_unlines [OF nl] by (simp add: TrimSpace_newline filter_id_conv del: map_map)
  then show ?thesis unfolding commit_of_def cut by (simp split: if_splits)
qed

lemma record_no_null: "commit_wf c \<Longrightarrow> CHR 0x00 \<notin> set (log_record c)"
  by (auto simp: commit_wf_def log_record_def unlines_def list_all_iff)

lemma Split_log:
  "list_all commit_wf cs \<Longrightarrow> Split (log_text cs) CHR 0x00 = [] # map log_record cs"
proof (induction cs)
  case Nil
  then show ?case by (simp add: log_text_def)
next
  case (Cons c cs)
  have "log_text (c # cs) = CHR 0x00 # log_record c @ log_text cs" by (simp add: log_text_def)
  moreover have "Split (log_record c @ log_text cs) CHR 0x00 = log_record c # map log_record cs"
  proof (cases cs)
    case Nil
    then show ?thesis using Split_no_sep [OF record_no_null] Cons.prems by (simp add: log_text_def)
  next
    case (Cons d ds)
    then obtain r where r: "log_text cs = CHR 0x00 # r" by (simp add: log_text_def)
    then have "Split r CHR 0x00 = map log_record cs" using \<open>list_all commit_wf (c # cs)\<close> Cons.IH by simp
    then show ?thesis using Split_part [OF record_no_null, of c r] \<open>list_all commit_wf (c # cs)\<close> r by simp
  qed
  ultimately show ?case by simp
qed

lemma git_commits_log:
  assumes "git (git_log_args frm to) = Inr (log_text cs)" "list_all commit_wf cs"
  shows "git_commits git frm to = Inr cs"
  using assms commit_of_record by (simp add: git_commits_def Split_log list_all_iff map_idI)

subsection \<open>Lines of the notes\<close>

lemma commit_lines_Contains: "c \<in> set cs \<Longrightarrow> Contains (commit_lines cs) (''- '' @ c_subject c @ [newline])"
  unfolding commit_lines_def by (rule Contains_concat) (assumption, rule Contains_self)

lemma notes_write_ok:
  assumes "git_commits git frm to = Inr cs" "notes_write git parse frm to = (out, None)"
  shows "\<exists>a b c. out = a @ concat (map (part_text cs) parts) @ b @ outside_text (outside cs) @ c"
proof -
  obtain vs ks ps where "out = (''## What changed since '' @ frm @ [newline, newline] @ concat (map (part_text cs) parts)
      @ (if cs = [] then ''Nothing: this is the tree '' @ frm @ '' was built from.'' @ [newline, newline] else []))
      @ vs @ ks @ ps @ outside_text (outside cs)"
    using assms(2) unfolding notes_write_def assms(1) Let_def by (auto split: sum.splits)
  then show ?thesis by (metis append_Nil2 append_assoc)
qed

lemma part_text_in:
  assumes "p \<in> set parts" "c \<in> set cs" "touches c (snd p)"
  shows "Contains (concat (map (part_text cs) parts)) (''### '' @ fst p @ [newline, newline] @ commit_lines (filter (\<lambda>c. touches c (snd p)) cs))"
proof -
  have "filter (\<lambda>c. touches c (snd p)) cs \<noteq> []" using assms(2,3) by (auto simp: filter_empty_conv)
  then have "part_text cs p = (''### '' @ fst p @ [newline, newline] @ commit_lines (filter (\<lambda>c. touches c (snd p)) cs)) @ [newline]"
    by (simp add: part_text_def)
  then have "Contains (part_text cs p) (''### '' @ fst p @ [newline, newline] @ commit_lines (filter (\<lambda>c. touches c (snd p)) cs))"
    using Contains_mono_right [OF Contains_self] by metis
  then show ?thesis by (rule Contains_concat [OF assms(1)])
qed

lemma outside_text_in: "c \<in> set cs \<Longrightarrow> Contains (outside_text cs) (''- '' @ c_subject c @ [newline])"
proof -
  assume c: "c \<in> set cs"
  have "outside_text cs = (''<details><summary>'' @ dec (length cs) @ '' more, none of them in the machine: tests, the lab, CI, tooling</summary>''
      @ [newline, newline]) @ commit_lines cs @ newline # ''</details>'' @ [newline, newline]" using c by (auto simp: outside_text_def)
  then show ?thesis using commit_lines_Contains [OF c] by (metis Contains_mono Contains_mono_right)
qed

subsection \<open>Kernel configurations\<close>

text \<open>A configuration: options with a value or not set.\<close>

type_synonym config = "(string \<times> string option) list"

definition option_text :: "string \<times> string option \<Rightarrow> string" where
  "option_text kv = (case snd kv of
      None \<Rightarrow> ''# CONFIG_'' @ fst kv @ '' is not set''
    | Some v \<Rightarrow> ''CONFIG_'' @ fst kv @ ''='' @ v)"

definition option_wf :: "string \<times> string option \<Rightarrow> bool" where
  "option_wf kv = (CHR ''='' \<notin> set (fst kv) \<and> newline \<notin> set (fst kv)
     \<and> (case snd kv of None \<Rightarrow> True | Some v \<Rightarrow> v = [] \<or> newline \<notin> set v \<and> of_char (last v) < (128 :: nat) \<and> \<not> ascii_space (last v)))"

definition config_text :: "config \<Rightarrow> string" where
  "config_text cfg = unlines (map option_text cfg)"

text \<open>What the kernel is built with: the last word on an option, n where there is none.\<close>

definition built_with :: "config \<Rightarrow> string \<Rightarrow> string" where
  "built_with cfg opt = (case map_of (rev cfg) opt of Some (Some v) \<Rightarrow> if v = [] then ''n'' else v | _ \<Rightarrow> ''n'')"

lemma option_text_solid:
  assumes "option_wf kv"
  shows "solid (option_text kv)"
proof (cases "snd kv")
  case None
  have s: "newline \<notin> set ''# CONFIG_''" "newline \<notin> set '' is not set''" "hd ''# CONFIG_'' = CHR ''#''" "last '' is not set'' = CHR ''t''"
    "of_char CHR ''#'' < (128 :: nat)" "\<not> ascii_space CHR ''#''" "of_char CHR ''t'' < (128 :: nat)" "\<not> ascii_space CHR ''t''" by code_simp+
  have "hd (''# CONFIG_'' @ x) = CHR ''#''" "last (x @ '' is not set'') = CHR ''t''" for x by simp_all
  then show ?thesis using None assms s unfolding solid_def option_text_def option_wf_def
    by (simp del: set_simps hd_append last_append append_Cons)
next
  case (Some v)
  have s: "newline \<notin> set ''CONFIG_''" "newline \<notin> set ''=''"
    "of_char CHR ''C'' < (128 :: nat)" "\<not> ascii_space CHR ''C''" "of_char CHR ''='' < (128 :: nat)" "\<not> ascii_space CHR ''=''" by code_simp+
  have "hd (''CONFIG_'' @ x) = CHR ''C''" "last (x @ ''='' @ v) = (if v = [] then CHR ''='' else last v)" for x by simp_all
  then show ?thesis using Some assms s unfolding solid_def option_text_def option_wf_def
    by (auto simp del: set_simps hd_append append_Cons simp add: list.set(1) split: if_splits)
qed

lemma CutPrefix_append: "CutPrefix (p @ s) p = (s, True)"
proof -
  have "drop (length p) (p @ s) = s" by simp
  then show ?thesis by (simp only: CutPrefix_def HasPrefix_append if_True)
qed

lemma CutSuffix_append: "CutSuffix (s @ p) p = (s, True)"
  by (simp add: CutSuffix_def HasSuffix_def)

lemma config_line_option:
  assumes "option_wf kv"
  shows "config_line (option_text kv @ [newline]) m = put (fst kv) (case snd kv of None \<Rightarrow> ''n'' | Some v \<Rightarrow> v) m"
proof (cases "snd kv")
  case None
  then have "option_text kv = ''# CONFIG_'' @ fst kv @ '' is not set''" by (simp add: option_text_def)
  then show ?thesis unfolding config_line_def TrimSpace_solid [OF option_text_solid [OF assms]]
    using None by (simp only: Let_def CutPrefix_append CutSuffix_append prod.case bool.case option.case)
next
  case (Some v)
  then have t: "option_text kv = ''CONFIG_'' @ fst kv @ CHR ''='' # v" by (simp add: option_text_def)
  have no: "CutPrefix (''CONFIG_'' @ r) ''# CONFIG_'' = (''CONFIG_'' @ r, False)" for r by (simp add: CutPrefix_def HasPrefix_def)
  have cut: "Cut (fst kv @ CHR ''='' # v) CHR ''='' = (fst kv, v, True)" using assms by (intro Cut_found) (simp add: option_wf_def)
  show ?thesis unfolding config_line_def TrimSpace_solid [OF option_text_solid [OF assms]]
    using Some unfolding t by (simp only: Let_def no CutPrefix_append cut prod.case bool.case option.case)
qed

lemma map_of_put: "map_of (put k v m) = (map_of m)(k \<mapsto> v)"
  by (auto simp: put_def fun_eq_iff map_of_filter_in) (induction m, auto)

lemma config_read:
  assumes "list_all option_wf cfg"
  shows "map_of (fold config_line (Lines (config_text cfg)) []) opt
    = map_option (\<lambda>v. case v of None \<Rightarrow> ''n'' | Some v \<Rightarrow> v) (map_of (rev cfg) opt)"
proof -
  have nl: "\<forall>l \<in> set (map option_text cfg). newline \<notin> set l"
    using assms option_text_solid by (auto simp: list_all_iff solid_def)
  have "map_of (fold config_line (map (\<lambda>l. l @ [newline]) (map option_text cfg)) []) opt
      = map_option (\<lambda>v. case v of None \<Rightarrow> ''n'' | Some v \<Rightarrow> v) (map_of (rev cfg) opt)"
    using assms
  proof (induction cfg rule: rev_induct)
    case Nil
    then show ?case by simp
  next
    case (snoc kv cfg)
    then show ?case by (cases kv) (simp add: config_line_option map_of_put)
  qed
  then show ?thesis unfolding config_text_def Lines_unlines [OF nl] .
qed

lemma config_value_read:
  "list_all option_wf cfg \<Longrightarrow> config_value (fold config_line (Lines (config_text cfg)) []) opt = built_with cfg opt"
  unfolding config_value_def built_with_def config_read by (cases "map_of (rev cfg) opt") (simp_all split: option.split)

text \<open>A tree whose kernel directory has a configuration.\<close>

definition tree_config :: "git \<Rightarrow> string \<Rightarrow> config \<Rightarrow> bool" where
  "tree_config git ref cfg = (\<exists>names f. git [''ls-tree'', ''--name-only'', ref, ''kernel/''] = Inr names
     \<and> config_file (Lines names) = f \<and> f \<noteq> [] \<and> git [''show'', ref @ '':'' @ f] = Inr (config_text cfg) \<and> list_all option_wf cfg)"

lemma tree_config_read:
  "tree_config git ref cfg \<Longrightarrow> git_kernelConfig git ref = Inr (fold config_line (Lines (config_text cfg)) []) \<and> list_all option_wf cfg"
  by (auto simp: tree_config_def git_kernelConfig_def Let_def)

definition option_change :: "config \<Rightarrow> config \<Rightarrow> string \<Rightarrow> string" where
  "option_change old cur opt = ''- `CONFIG_'' @ opt @ ''` '' @ built_with old opt @ right_arrow @ built_with cur opt"

lemma concat_map_if: "concat (map (\<lambda>x. if P x then [f x] else []) xs) = map f (filter P xs)"
  by (induction xs) simp_all

subsection \<open>Properties\<close>

text \<open>C36: No commit is lost. When git lists the commits of a release and the notes are written without
  an error, every commit is in them: under each part of the machine it touched, in that part's
  section with all the others that touched it, and otherwise in the list at the end, but for a
  commit whose only file is \<^verbatim>\<open>versions.yaml\<close>.\<close>

theorem every_commit_is_in_the_notes:
  assumes "git (git_log_args frm to) = Inr (log_text cs)" and "list_all commit_wf cs"
    and "notes_write git parse frm to = (out, None)" and "c \<in> set cs"
  shows "(Contains out (''- '' @ c_subject c @ [newline]) \<or> only_file c ''versions.yaml'')
    \<and> (\<forall>p \<in> set parts. touches c (snd p) \<longrightarrow>
        Contains out (''### '' @ fst p @ [newline, newline] @ commit_lines (filter (\<lambda>c. touches c (snd p)) cs)))"
proof -
  obtain a b r where out: "out = a @ concat (map (part_text cs) parts) @ b @ outside_text (outside cs) @ r"
    using notes_write_ok [OF git_commits_log [where git = git, OF assms(1,2)] assms(3)] by blast
  have part: "Contains out (''### '' @ fst p @ [newline, newline] @ commit_lines (filter (\<lambda>c. touches c (snd p)) cs))"
    if "p \<in> set parts" "touches c (snd p)" for p
    unfolding out using part_text_in [OF that(1) assms(4) that(2)] by (intro Contains_mono Contains_mono_right)
  have "Contains out (''- '' @ c_subject c @ [newline])" if inside: "list_ex (\<lambda>p. touches c (snd p)) parts"
  proof -
    obtain p where p: "p \<in> set parts" "touches c (snd p)" using inside by (auto simp: list_ex_iff)
    have "Contains (''### '' @ fst p @ [newline, newline] @ commit_lines (filter (\<lambda>c. touches c (snd p)) cs)) (''- '' @ c_subject c @ [newline])"
      using assms(4) p(2) by (intro Contains_mono commit_lines_Contains) simp
    then show ?thesis using Contains_trans [OF part [OF p]] by blast
  qed
  moreover have "Contains out (''- '' @ c_subject c @ [newline])" if "c \<in> set (outside cs)"
  proof -
    have "Contains (outside_text (outside cs) @ r) (''- '' @ c_subject c @ [newline])"
      using outside_text_in [OF that] by (rule Contains_mono_right)
    then have "Contains ((a @ concat (map (part_text cs) parts) @ b) @ outside_text (outside cs) @ r) (''- '' @ c_subject c @ [newline])"
      by (rule Contains_mono)
    then show ?thesis by (simp only: out append_assoc)
  qed
  ultimately show ?thesis using part assms(4) by (auto simp only: outside_def set_filter mem_Collect_eq)
qed

text \<open>C37: The kernel options listed are those that changed. For trees with a kernel configuration
  each, the section lists, in order and each once, exactly the options the two kernels are built
  with different values of, where an option that is not set or not mentioned has the value n.\<close>

theorem options_listed_are_those_that_changed:
  assumes "tree_config git frm old" and "tree_config git to cur"
  shows "\<exists>opts. sorted opts \<and> distinct opts \<and> set opts = {opt. built_with old opt \<noteq> built_with cur opt}
    \<and> writeKernelConfig git frm to = Inr (notes_section ''Kernel configuration'' (map (option_change old cur) opts))"
proof -
  let ?o = "fold config_line (Lines (config_text old)) []" and ?c = "fold config_line (Lines (config_text cur)) []"
  let ?opts = "filter (\<lambda>opt. built_with old opt \<noteq> built_with cur opt) (keys_of ?o ?c)"
  note read = tree_config_read [OF assms(1)] tree_config_read [OF assms(2)]
  have v: "config_value ?o opt = built_with old opt" "config_value ?c opt = built_with cur opt" for opt
    using read config_value_read by blast+
  have change: "config_change ?o ?c = (\<lambda>opt. if built_with old opt \<noteq> built_with cur opt then [option_change old cur opt] else [])"
    by (rule ext) (simp only: config_change_def v option_change_def)
  have "writeKernelConfig git frm to = Inr (notes_section ''Kernel configuration'' (map (option_change old cur) ?opts))"
    unfolding writeKernelConfig_def read [THEN conjunct1] sum.case change concat_map_if ..
  moreover have "opt \<in> set (keys_of ?o ?c)" if "built_with old opt \<noteq> built_with cur opt" for opt
  proof (rule ccontr)
    assume "opt \<notin> set (keys_of ?o ?c)"
    then have "map_of ?o opt = None" "map_of ?c opt = None" by (simp_all add: keys_of_def map_of_eq_None_iff)
    then show False using that v [of opt] by (simp add: config_value_def)
  qed
  ultimately show ?thesis
    by (intro exI [of _ ?opts]) (auto simp: keys_of_def Sort_def intro: sorted_wrt_filter)
qed

definition sample_commit :: commit where
  "sample_commit = \<lparr>c_subject = ''qemu: move'', c_files = [''qemu/pins'']\<rparr>"

definition sample_git :: git where
  "sample_git args =
     (if args = git_log_args ''v1'' ''HEAD'' then Inr (log_text [sample_commit])
      else if args = [''ls-tree'', ''--name-only'', ''v1'', ''kernel/''] \<or> args = [''ls-tree'', ''--name-only'', ''HEAD'', ''kernel/'']
        then Inr (''kernel/config-6'' @ [newline])
      else if args = [''show'', ''v1:kernel/config-6''] then Inr (config_text [(''KVM'', None)])
      else if args = [''show'', ''HEAD:kernel/config-6''] then Inr (config_text [(''KVM'', Some ''y'')])
      else Inr [])"

theorem every_commit_is_in_the_notes_witness:
  "sample_git (git_log_args ''v1'' ''HEAD'') = Inr (log_text [sample_commit]) \<and> list_all commit_wf [sample_commit]
   \<and> (\<exists>out. notes_write sample_git (\<lambda>_. Inr []) ''v1'' ''HEAD'' = (out, None)
        \<and> (Contains out (''- '' @ c_subject sample_commit @ [newline]) \<or> only_file sample_commit ''versions.yaml''))"
proof -
  have 1: "sample_git (git_log_args ''v1'' ''HEAD'') = Inr (log_text [sample_commit])" unfolding sample_git_def by (simp only: refl if_True)
  have 2: "list_all commit_wf [sample_commit]" by code_simp
  have "snd (notes_write sample_git (\<lambda>_. Inr []) ''v1'' ''HEAD'') = None" by code_simp
  then obtain out where 3: "notes_write sample_git (\<lambda>_. Inr []) ''v1'' ''HEAD'' = (out, None)"
    by (cases "notes_write sample_git (\<lambda>_. Inr []) ''v1'' ''HEAD''") (simp only: snd_conv)
  have 4: "sample_commit \<in> set [sample_commit]" by simp
  show ?thesis using every_commit_is_in_the_notes [OF 1 2 3 4, THEN conjunct1] 1 2 3 by blast
qed

theorem options_listed_are_those_that_changed_witness:
  "tree_config sample_git ''v1'' [(''KVM'', None)] \<and> tree_config sample_git ''HEAD'' [(''KVM'', Some ''y'')]
   \<and> (\<exists>opts. sorted opts \<and> distinct opts \<and> set opts = {opt. built_with [(''KVM'', None)] opt \<noteq> built_with [(''KVM'', Some ''y'')] opt}
      \<and> writeKernelConfig sample_git ''v1'' ''HEAD'' = Inr (notes_section ''Kernel configuration'' (map (option_change [(''KVM'', None)] [(''KVM'', Some ''y'')]) opts)))"
proof -
  have f: "config_file (Lines (''kernel/config-6'' @ [newline])) = ''kernel/config-6''" by code_simp
  have n: "''kernel/config-6'' \<noteq> []" by simp
  have 1: "sample_git [''ls-tree'', ''--name-only'', ''v1'', ''kernel/''] = Inr (''kernel/config-6'' @ [newline])"
    "sample_git [''show'', ''v1'' @ '':'' @ ''kernel/config-6''] = Inr (config_text [(''KVM'', None)])" "list_all option_wf [(''KVM'', None)]"
    by code_simp+
  have 2: "sample_git [''ls-tree'', ''--name-only'', ''HEAD'', ''kernel/''] = Inr (''kernel/config-6'' @ [newline])"
    "sample_git [''show'', ''HEAD'' @ '':'' @ ''kernel/config-6''] = Inr (config_text [(''KVM'', Some ''y'')])" "list_all option_wf [(''KVM'', Some ''y'')]"
    by code_simp+
  have t: "tree_config sample_git ''v1'' [(''KVM'', None)]" "tree_config sample_git ''HEAD'' [(''KVM'', Some ''y'')]"
    unfolding tree_config_def using 1 2 f n by blast+
  show ?thesis using options_listed_are_those_that_changed [OF t] t by (intro conjI)
qed

end
