(* ===== verification/Report_Json.thy ===== *)
theory Report_Json
  imports Boot_Report Go_Decode
begin

text \<open>
  A report of \<^verbatim>\<open>boot/report.go\<close> as \<^verbatim>\<open>compare\<close> of \<^verbatim>\<open>cmd/spin-machine\<close> reads it: \<^verbatim>\<open>json.Unmarshal\<close> into \<^verbatim>\<open>Report\<close>,
  struct by struct with the names their tags give, and that a report written with those tags is read
  back as it was. A number is written in any way that stands for it; the shape of a row,
  which nothing reads, may be any value.
\<close>

subsection \<open>Decoding\<close>

definition zero_summary :: summary where
  "zero_summary = \<lparr>sum_P50 = 0, sum_P95 = 0, sum_N = 0\<rparr>"

definition summary_into :: "summary into" where
  "summary_into = struct_into [
     (''p50_ms'', field sum_P50 (\<lambda>v s. s\<lparr>sum_P50 := v\<rparr>) float_into),
     (''p95_ms'', field sum_P95 (\<lambda>v s. s\<lparr>sum_P95 := v\<rparr>) float_into),
     (''n'', field sum_N (\<lambda>v s. s\<lparr>sum_N := v\<rparr>) int_into)]"

definition zero_boot :: boot_result where
  "zero_boot = \<lparr>boot_Boots = 0, boot_Failed = 0, boot_Error = [], boot_Phases = []\<rparr>"

definition boot_into :: "boot_result into" where
  "boot_into = struct_into [
     (''boots'', field boot_Boots (\<lambda>v b. b\<lparr>boot_Boots := v\<rparr>) int_into),
     (''failed'', field boot_Failed (\<lambda>v b. b\<lparr>boot_Failed := v\<rparr>) int_into),
     (''error'', field boot_Error (\<lambda>v b. b\<lparr>boot_Error := v\<rparr>) string_into),
     (''phases'', field boot_Phases (\<lambda>v b. b\<lparr>boot_Phases := v\<rparr>) (map_into summary_into zero_summary))]"

definition zero_row :: row where
  "zero_row = \<lparr>row_ID = [], row_Features = [], row_Args = [], row_Fingerprint = [], row_Boot = zero_boot\<rparr>"

definition row_into :: "row into" where
  "row_into = struct_into [
     (''id'', field row_ID (\<lambda>v r. r\<lparr>row_ID := v\<rparr>) string_into),
     (''features'', field row_Features (\<lambda>v r. r\<lparr>row_Features := v\<rparr>) (map_into string_into [])),
     (''args'', field row_Args (\<lambda>v r. r\<lparr>row_Args := v\<rparr>) (slice_into string_into [])),
     (''fingerprint'', field row_Fingerprint (\<lambda>v r. r\<lparr>row_Fingerprint := v\<rparr>) string_into),
     (''shape'', any_into),
     (''boot'', field row_Boot (\<lambda>v r. r\<lparr>row_Boot := v\<rparr>) boot_into)]"

definition host_into :: "host into" where
  "host_into = struct_into [
     (''cpu'', field host_CPU (\<lambda>v h. h\<lparr>host_CPU := v\<rparr>) string_into),
     (''kernel'', field host_Kernel (\<lambda>v h. h\<lparr>host_Kernel := v\<rparr>) string_into),
     (''cpus'', field host_CPUs (\<lambda>v h. h\<lparr>host_CPUs := v\<rparr>) int_into)]"

definition zero_skipped :: skipped where
  "zero_skipped = \<lparr>skip_ID = [], skip_Why = []\<rparr>"

definition skipped_into :: "skipped into" where
  "skipped_into = struct_into [
     (''id'', field skip_ID (\<lambda>v s. s\<lparr>skip_ID := v\<rparr>) string_into),
     (''why'', field skip_Why (\<lambda>v s. s\<lparr>skip_Why := v\<rparr>) string_into)]"

definition zero_report :: report where
  "zero_report = \<lparr>rep_Release = [], rep_Artifacts = [], rep_Host = \<lparr>host_CPU = [], host_Kernel = [], host_CPUs = 0\<rparr>, rep_Reps = 0,
     rep_Flags = [], rep_Only = [], rep_Login = [], rep_Specs = [], rep_Variants = [], rep_Skipped = []\<rparr>"

definition report_into :: "report into" where
  "report_into = struct_into [
     (''release'', field rep_Release (\<lambda>v r. r\<lparr>rep_Release := v\<rparr>) string_into),
     (''artifacts'', field rep_Artifacts (\<lambda>v r. r\<lparr>rep_Artifacts := v\<rparr>) (map_into string_into [])),
     (''host'', field rep_Host (\<lambda>v r. r\<lparr>rep_Host := v\<rparr>) host_into),
     (''reps'', field rep_Reps (\<lambda>v r. r\<lparr>rep_Reps := v\<rparr>) int_into),
     (''flags'', field rep_Flags (\<lambda>v r. r\<lparr>rep_Flags := v\<rparr>) (slice_into string_into [])),
     (''only'', field rep_Only (\<lambda>v r. r\<lparr>rep_Only := v\<rparr>) string_into),
     (''login'', field rep_Login (\<lambda>v r. r\<lparr>rep_Login := v\<rparr>) string_into),
     (''specs'', field rep_Specs (\<lambda>v r. r\<lparr>rep_Specs := v\<rparr>) (slice_into row_into zero_row)),
     (''variants'', field rep_Variants (\<lambda>v r. r\<lparr>rep_Variants := v\<rparr>) (slice_into row_into zero_row)),
     (''skipped'', field rep_Skipped (\<lambda>v r. r\<lparr>rep_Skipped := v\<rparr>) (slice_into skipped_into zero_skipped))]"

definition decode_report :: "string \<Rightarrow> report option" where
  "decode_report = unmarshal report_into zero_report"

subsection \<open>Encoding\<close>

text \<open>What the tags say a report is written as, with \<open>num\<close> for the numbers and \<open>shape\<close> for the shapes.\<close>

definition summary_json :: "(rat \<Rightarrow> json) \<Rightarrow> summary \<Rightarrow> json" where
  "summary_json num s = JObj [(''p50_ms'', num (sum_P50 s)), (''p95_ms'', num (sum_P95 s)), (''n'', JInt (sum_N s))]"

definition boot_json :: "(rat \<Rightarrow> json) \<Rightarrow> boot_result \<Rightarrow> json" where
  "boot_json num b = JObj ([(''boots'', JInt (boot_Boots b)), (''failed'', JInt (boot_Failed b))]
     @ omitempty (boot_Error b = []) ''error'' (JStr (boot_Error b))
     @ omitempty (boot_Phases b = []) ''phases'' (map_json (summary_json num) (boot_Phases b)))"

definition row_json :: "(rat \<Rightarrow> json) \<Rightarrow> (row \<Rightarrow> json option) \<Rightarrow> row \<Rightarrow> json" where
  "row_json num shape r = JObj ([(''id'', JStr (row_ID r))]
     @ omitempty (row_Features r = []) ''features'' (map_json JStr (row_Features r))
     @ omitempty (row_Args r = []) ''args'' (arr_json JStr (row_Args r))
     @ omitempty (row_Fingerprint r = []) ''fingerprint'' (JStr (row_Fingerprint r))
     @ (case shape r of None \<Rightarrow> [] | Some j \<Rightarrow> [(''shape'', j)])
     @ [(''boot'', boot_json num (row_Boot r))])"

definition host_json :: "host \<Rightarrow> json" where
  "host_json h = JObj [(''cpu'', JStr (host_CPU h)), (''kernel'', JStr (host_Kernel h)), (''cpus'', JInt (host_CPUs h))]"

definition skipped_json :: "skipped \<Rightarrow> json" where
  "skipped_json s = JObj [(''id'', JStr (skip_ID s)), (''why'', JStr (skip_Why s))]"

definition report_json :: "(rat \<Rightarrow> json) \<Rightarrow> (row \<Rightarrow> json option) \<Rightarrow> report \<Rightarrow> json" where
  "report_json num shape r = JObj ([(''release'', JStr (rep_Release r)), (''artifacts'', map_json JStr (rep_Artifacts r)),
       (''host'', host_json (rep_Host r)), (''reps'', JInt (rep_Reps r))]
     @ omitempty (rep_Flags r = []) ''flags'' (arr_json JStr (rep_Flags r))
     @ omitempty (rep_Only r = []) ''only'' (JStr (rep_Only r))
     @ [(''login'', JStr (rep_Login r)), (''specs'', arr_json (row_json num shape) (rep_Specs r)),
       (''variants'', arr_json (row_json num shape) (rep_Variants r))]
     @ omitempty (rep_Skipped r = []) ''skipped'' (arr_json skipped_json (rep_Skipped r)))"

subsection \<open>Reports that can be written\<close>

definition summary_good :: "(rat \<Rightarrow> json) \<Rightarrow> summary \<Rightarrow> bool" where
  "summary_good num s = (float_into 0 (num (sum_P50 s)) = Some (sum_P50 s) \<and> float_into 0 (num (sum_P95 s)) = Some (sum_P95 s) \<and> go_int (sum_N s))"

definition boot_good :: "(rat \<Rightarrow> json) \<Rightarrow> boot_result \<Rightarrow> bool" where
  "boot_good num b = (go_int (boot_Boots b) \<and> go_int (boot_Failed b)
     \<and> list_all (\<lambda>(k, s). summary_good num s) (boot_Phases b) \<and> distinct (map fst (boot_Phases b)))"

definition row_good :: "(rat \<Rightarrow> json) \<Rightarrow> (row \<Rightarrow> json option) \<Rightarrow> row \<Rightarrow> bool" where
  "row_good num shape r = (distinct (map fst (row_Features r)) \<and> (case shape r of None \<Rightarrow> True | Some j \<Rightarrow> any_ok j) \<and> boot_good num (row_Boot r))"

definition report_good :: "(rat \<Rightarrow> json) \<Rightarrow> (row \<Rightarrow> json option) \<Rightarrow> report \<Rightarrow> bool" where
  "report_good num shape r = (distinct (map fst (rep_Artifacts r)) \<and> go_int (host_CPUs (rep_Host r)) \<and> go_int (rep_Reps r)
     \<and> list_all (row_good num shape) (rep_Specs r) \<and> list_all (row_good num shape) (rep_Variants r))"

subsection \<open>Read back\<close>

lemma tags [simp]:
  "fold_name ''p50_ms'' = ''p50_ms''" "fold_name ''p95_ms'' = ''p95_ms''" "fold_name ''n'' = ''n''"
  "fold_name ''boots'' = ''boots''" "fold_name ''failed'' = ''failed''" "fold_name ''error'' = ''error''" "fold_name ''phases'' = ''phases''"
  "fold_name ''id'' = ''id''" "fold_name ''features'' = ''features''" "fold_name ''args'' = ''args''"
  "fold_name ''fingerprint'' = ''fingerprint''" "fold_name ''shape'' = ''shape''" "fold_name ''boot'' = ''boot''"
  "fold_name ''cpu'' = ''cpu''" "fold_name ''kernel'' = ''kernel''" "fold_name ''cpus'' = ''cpus''" "fold_name ''why'' = ''why''"
  "fold_name ''release'' = ''release''" "fold_name ''artifacts'' = ''artifacts''" "fold_name ''host'' = ''host''" "fold_name ''reps'' = ''reps''"
  "fold_name ''flags'' = ''flags''" "fold_name ''only'' = ''only''" "fold_name ''login'' = ''login''" "fold_name ''specs'' = ''specs''"
  "fold_name ''variants'' = ''variants''" "fold_name ''skipped'' = ''skipped''"
  by code_simp+

lemma strings_back [simp]: "string_into [] (JStr s) = Some s" "slice_into string_into [] [] (arr_json JStr xs) = Some xs"
    "distinct (map fst kvs) \<Longrightarrow> map_into string_into [] [] (map_json JStr kvs) = Some kvs"
  using string_codec.slice_back [of xs] string_codec.map_back [of kvs] by (simp_all add: string_into_def list_all_iff)

lemma ints_back [simp]: "go_int i \<Longrightarrow> int_into 0 (JInt i) = Some i"
  by (rule int_codec.dec_enc)

interpretation summary_codec: json_codec "summary_json num" summary_into zero_summary "summary_good num" for num
  by unfold_locales (simp add: summary_json_def summary_into_def struct_into_def field_def zero_summary_def summary_good_def)

interpretation boot_codec: json_codec "boot_json num" boot_into zero_boot "boot_good num" for num
proof unfold_locales
  fix b assume "boot_good num b"
  then show "boot_into zero_boot (boot_json num b) = Some b"
    using summary_codec.map_back [of num "boot_Phases b"]
    by (simp add: boot_json_def boot_into_def struct_into_def field_def zero_boot_def boot_good_def omitempty_def)
qed

interpretation row_codec: json_codec "row_json num shape" row_into zero_row "row_good num shape" for num shape
proof unfold_locales
  fix r assume "row_good num shape r"
  then show "row_into zero_row (row_json num shape r) = Some r"
    using boot_codec.dec_enc [of num "row_Boot r"]
    by (cases "shape r") (simp_all add: row_json_def row_into_def struct_into_def field_def zero_row_def row_good_def omitempty_def any_into_def)
qed

interpretation skipped_codec: json_codec skipped_json skipped_into zero_skipped "\<lambda>_. True"
  by unfold_locales (simp add: skipped_json_def skipped_into_def struct_into_def field_def zero_skipped_def)

lemma host_back: "go_int (host_CPUs h) \<Longrightarrow> host_into \<lparr>host_CPU = [], host_Kernel = [], host_CPUs = 0\<rparr> (host_json h) = Some h"
  by (simp add: host_json_def host_into_def struct_into_def field_def)

interpretation report_codec: json_codec "report_json num shape" report_into zero_report "report_good num shape" for num shape
proof unfold_locales
  fix r assume "report_good num shape r"
  then show "report_into zero_report (report_json num shape r) = Some r"
    using row_codec.slice_back [of num shape "rep_Specs r"] row_codec.slice_back [of num shape "rep_Variants r"]
      skipped_codec.slice_back [of "rep_Skipped r"] host_back [of "rep_Host r"]
    by (simp add: report_json_def report_into_def struct_into_def field_def zero_report_def report_good_def omitempty_def list_all_iff)
qed

text \<open>A text of a report is read back, however it is laid out.\<close>

lemma report_read_back:
  assumes "reads t (report_json num shape r)" and "spaces w" and "report_good num shape r"
  shows "decode_report (t @ w) = Some r"
  using json_parse_reads [OF assms(1,2)] report_codec.dec_enc [OF assms(3)] by (simp add: decode_report_def unmarshal_def)

end
