(* ===== verification/Cli_Run.thy ===== *)
theory Cli_Run
  imports Qmp_Commands Machine_Fingerprint Report_Json Go_Flag
begin

text \<open>
  The command line of \<^verbatim>\<open>cmd/spin-machine\<close>: \<^verbatim>\<open>run\<close>, \<^verbatim>\<open>parse\<close>, the flag sets the \<^verbatim>\<open>register\<close> methods
  declare, \<^verbatim>\<open>fingerprint\<close>, \<^verbatim>\<open>compare\<close> and the exit status of \<^verbatim>\<open>main\<close>.

  \<open>run\<close> takes the arguments to what the command does: the binary it executes, what it prints or
  the QMP conversation it holds, or the error \<^verbatim>\<open>main\<close> reports. What the process sees of the world is
  the record \<open>cli_env\<close>: files, the search for a binary and its execution, the QMP sockets, the reader of a
  \<^verbatim>\<open>float64\<close> the model takes as given, and what is said of a report that cannot be decoded. What is
  printed is what goes to the standard output.
\<close>

record cli_env =
  ce_os :: os_env
  ce_lookPath :: "string \<Rightarrow> (os_error, string) result"
  ce_exec :: "string \<Rightarrow> argv \<Rightarrow> os_error option"
  ce_dial :: "string \<Rightarrow> (os_error, qmpConn) result"
  ce_parseFloat :: "string \<Rightarrow> float64 option"
  ce_jsonError :: "string \<Rightarrow> string"

subsection \<open>Flags\<close>

definition machine_flags :: "machineFlags flag_set" where
  "machine_flags = [
     (''release'', StringVar (\<lambda>v x. x\<lparr>mf_release := v\<rparr>)), (''qemu'', StringVar (\<lambda>v x. x\<lparr>mf_qemu := v\<rparr>)),
     (''kernel'', StringVar (\<lambda>v x. x\<lparr>mf_kernel := v\<rparr>)), (''initrd'', StringVar (\<lambda>v x. x\<lparr>mf_initrd := v\<rparr>)),
     (''firmware'', StringVar (\<lambda>v x. x\<lparr>mf_firmware := v\<rparr>)), (''bios'', StringVar (\<lambda>v x. x\<lparr>mf_bios := v\<rparr>)),
     (''disk'', StringVar (\<lambda>v x. x\<lparr>mf_disk := v\<rparr>)), (''disk-format'', StringVar (\<lambda>v x. x\<lparr>mf_diskFormat := v\<rparr>)),
     (''disk-readonly'', BoolVar (\<lambda>v x. x\<lparr>mf_readonly := v\<rparr>)), (''disk-serial'', StringVar (\<lambda>v x. x\<lparr>mf_serial := v\<rparr>)),
     (''disk-direct-over-backing'', BoolVar (\<lambda>v x. x\<lparr>mf_directOverBacking := v\<rparr>)),
     (''memory'', IntVar (\<lambda>v x. x\<lparr>mf_memoryMB := v\<rparr>)), (''max-memory'', IntVar (\<lambda>v x. x\<lparr>mf_maxMemMB := v\<rparr>)),
     (''cpu'', StringVar (\<lambda>v x. x\<lparr>mf_cpuModel := v\<rparr>)), (''accel'', StringVar (\<lambda>v x. x\<lparr>mf_accel := v\<rparr>)),
     (''cpus'', IntVar (\<lambda>v x. x\<lparr>mf_cpus := v\<rparr>)), (''max-cpus'', IntVar (\<lambda>v x. x\<lparr>mf_maxCPUs := v\<rparr>)),
     (''hotplug-disks'', IntVar (\<lambda>v x. x\<lparr>mf_hotplugDisks := v\<rparr>)), (''vsock-cid'', IntVar (\<lambda>v x. x\<lparr>mf_vsockCID := v\<rparr>)),
     (''qmp'', StringVar (\<lambda>v x. x\<lparr>mf_qmp := v\<rparr>)), (''incoming'', StringVar (\<lambda>v x. x\<lparr>mf_incoming := v\<rparr>)),
     (''console'', StringVar (\<lambda>v x. x\<lparr>mf_console := v\<rparr>)), (''init'', StringVar (\<lambda>v x. x\<lparr>mf_init := v\<rparr>)),
     (''root'', StringVar (\<lambda>v x. x\<lparr>mf_root := v\<rparr>)), (''profile'', BoolVar (\<lambda>v x. x\<lparr>mf_profile := v\<rparr>)),
     (''append'', StringVar (\<lambda>v x. x\<lparr>mf_extra := v\<rparr>))]"

record compareFlags =
  cf_old :: string
  cf_new :: string
  cf_threshold :: float64

definition compareFlags_register :: compareFlags where
  "compareFlags_register = \<lparr>cf_old = [], cf_new = [], cf_threshold = Fin (round53 (5 / 100))\<rparr>"

definition compare_flags :: "compareFlags flag_set" where
  "compare_flags = [(''old'', StringVar (\<lambda>v x. x\<lparr>cf_old := v\<rparr>)), (''new'', StringVar (\<lambda>v x. x\<lparr>cf_new := v\<rparr>)),
     (''threshold'', Float64Var (\<lambda>v x. x\<lparr>cf_threshold := v\<rparr>))]"

definition attach_flags :: "attachFlags flag_set" where
  "attach_flags = [(''qmp'', StringVar (\<lambda>v x. x\<lparr>at_qmp := v\<rparr>)), (''target'', IntVar (\<lambda>v x. x\<lparr>at_target := v\<rparr>)),
     (''disk'', StringVar (\<lambda>v x. x\<lparr>at_disk := v\<rparr>)), (''disk-format'', StringVar (\<lambda>v x. x\<lparr>at_format := v\<rparr>)),
     (''disk-readonly'', BoolVar (\<lambda>v x. x\<lparr>at_readonly := v\<rparr>)), (''disk-serial'', StringVar (\<lambda>v x. x\<lparr>at_serial := v\<rparr>))]"

definition detach_flags :: "detachFlags flag_set" where
  "detach_flags = [(''qmp'', StringVar (\<lambda>v x. x\<lparr>dt_qmp := v\<rparr>)), (''target'', IntVar (\<lambda>v x. x\<lparr>dt_target := v\<rparr>)),
     (''timeout'', DurationVar (\<lambda>v x. x\<lparr>dt_timeout := v\<rparr>))]"

definition memory_flags :: "memoryFlags flag_set" where
  "memory_flags = [(''qmp'', StringVar (\<lambda>v x. x\<lparr>mem_qmp := v\<rparr>)), (''size'', IntVar (\<lambda>v x. x\<lparr>mem_sizeMB := v\<rparr>)),
     (''timeout'', DurationVar (\<lambda>v x. x\<lparr>mem_timeout := v\<rparr>))]"

definition save_flags :: "saveFlags flag_set" where
  "save_flags = [(''qmp'', StringVar (\<lambda>v x. x\<lparr>sv_qmp := v\<rparr>)), (''to'', StringVar (\<lambda>v x. x\<lparr>sv_to := v\<rparr>)),
     (''timeout'', DurationVar (\<lambda>v x. x\<lparr>sv_timeout := v\<rparr>))]"

definition restore_flags :: "restoreFlags flag_set" where
  "restore_flags = [(''qmp'', StringVar (\<lambda>v x. x\<lparr>rs_qmp := v\<rparr>)), (''from'', StringVar (\<lambda>v x. x\<lparr>rs_from := v\<rparr>)),
     (''timeout'', DurationVar (\<lambda>v x. x\<lparr>rs_timeout := v\<rparr>))]"

subsection \<open>Errors and effects\<close>

datatype compare_error = CompareRequired | ReadingReport string os_error | BadReport string string

datatype run_error =
    NoCommand
  | UnknownCommand string
  | HelpAsked string
  | FlagErr string flag_error
  | UnexpectedArgument string string
  | ReleaseErr release_error
  | ArgsErr spec_error
  | BootErr boot_error
  | FingerprintErr fingerprint_error
  | CompareErr compare_error
  | CommandErr cmd_error

datatype effect =
    Executes string argv
  | Prints string
  | Conversation "qmpConn option" string

definition usage :: string where
  "usage = concat (map (\<lambda>l. l @ [CHR 0x0A]) [
     ''spin-machine - the machine this repository builds'',
     '''',
     ''Usage:'',
     ''  spin-machine boot        [flags]   start a VM and wait for it'',
     ''  spin-machine args        [flags]   print the QEMU command line boot would run'',
     ''  spin-machine fingerprint [flags]   print the machine'' @ [CHR 0x27] @ ''s identity'',
     ''  spin-machine attach      [flags]   give a running VM a disk while it runs'',
     ''  spin-machine detach      [flags]   take it back, once the guest has let it go'',
     ''  spin-machine memory      [flags]   grow or shrink a running VM between its memory and its ceiling'',
     ''  spin-machine save        [flags]   stop a running VM and write its state to a file'',
     ''  spin-machine restore     [flags]   load a saved state into a VM booted with --incoming defer'',
     ''  spin-machine compare     [flags]   say what changed between two reports of the feature matrix'',
     '''',
     ''spin-machine <command> -h lists a command'' @ [CHR 0x27] @ ''s flags.''])"

text \<open>\<^verbatim>\<open>parse\<close>.\<close>

definition parse_flags :: "(string \<Rightarrow> float64 option) \<Rightarrow> string \<Rightarrow> string list \<Rightarrow> 'o flag_set \<Rightarrow> 'o \<Rightarrow> (run_error, 'o) result" where
  "parse_flags pf cmd argv fs defaults = (case Parse pf fs argv defaults of
      Inl ErrHelp \<Rightarrow> Inl (HelpAsked cmd)
    | Inl e \<Rightarrow> Inl (FlagErr cmd e)
    | Inr (x, []) \<Rightarrow> Inr x
    | Inr (_, a # _) \<Rightarrow> Inl (UnexpectedArgument cmd a))"

subsection \<open>Commands\<close>

definition args_text :: "spec \<Rightarrow> argv \<Rightarrow> string" where
  "args_text s args = Join (s_QEMU s # args) ([CHR '' '', CHR 0x5C, CHR 0x0A] @ ''  '') @ [CHR 0x0A]"

text \<open>\<^verbatim>\<open>fingerprint\<close>: the identity and what went into it, as an indented object.\<close>

definition shape_json :: "shape \<Rightarrow> json" where
  "shape_json sh = JObj [(''Machine'', JStr (sh_Machine sh)), (''Accel'', JStr (sh_Accel sh)), (''CPU'', JStr (sh_CPU sh)),
     (''SMP'', JStr (sh_SMP sh)), (''Memory'', JStr (sh_Memory sh))]"

definition strings_json :: "string list \<Rightarrow> json" where
  "strings_json xs = (if xs = [] then JNull else JArr (map JStr xs))"

definition identity_json :: "string \<Rightarrow> spec \<Rightarrow> json" where
  "identity_json fp s = JObj [(''fingerprint'', JStr fp), (''shape'', shape_json (Shape s)),
     (''contract'', strings_json (Contract s)),
     (''bios'', JStr (path_join (s_Firmware s) (if s_BIOS s \<noteq> [] then s_BIOS s else DefaultBIOS)))]"

definition print_fingerprint :: "os_env \<Rightarrow> spec \<Rightarrow> (run_error, effect) result" where
  "print_fingerprint os s = (case Fingerprint os s of
      Inl e \<Rightarrow> Inl (FingerprintErr e)
    | Inr fp \<Rightarrow> Inr (Prints (json_indented 0 (identity_json fp s) @ [CHR 0x0A])))"

definition read_report :: "cli_env \<Rightarrow> string \<Rightarrow> (compare_error, report) result" where
  "read_report env p = (case os_open (ce_os env) p of
      Inl e \<Rightarrow> Inl (ReadingReport p e)
    | Inr (_, Some e) \<Rightarrow> Inl (ReadingReport p e)
    | Inr (b, None) \<Rightarrow> (case decode_report b of None \<Rightarrow> Inl (BadReport p (ce_jsonError env b)) | Some r \<Rightarrow> Inr r))"

definition compare :: "cli_env \<Rightarrow> compareFlags \<Rightarrow> (compare_error, string) result" where
  "compare env o' = (if cf_old o' = [] \<or> cf_new o' = [] then Inl CompareRequired
     else (case read_report env (cf_old o') of
             Inl e \<Rightarrow> Inl e
           | Inr old \<Rightarrow> (case read_report env (cf_new o') of
                 Inl e \<Rightarrow> Inl e
               | Inr new \<Rightarrow> Inr (Diff old new (cf_threshold o')))))"

text \<open>The three commands that describe a machine, once their flags are read.\<close>

definition run_machine :: "cli_env \<Rightarrow> string \<Rightarrow> machineFlags \<Rightarrow> (run_error, effect) result" where
  "run_machine env cmd o' = (case flags_spec (ce_os env) o' of
      Inl e \<Rightarrow> Inl (ReleaseErr e)
    | Inr s \<Rightarrow>
        if cmd = ''boot'' then (case boot (ce_lookPath env) (ce_exec env) s (scratch o') of
            Inl e \<Rightarrow> Inl (BootErr e) | Inr (qemu, args) \<Rightarrow> Inr (Executes qemu args))
        else if cmd = ''args'' then (case qemuArgs s (scratch o') of
            Inl e \<Rightarrow> Inl (ArgsErr e) | Inr args \<Rightarrow> Inr (Prints (args_text s args)))
        else print_fingerprint (ce_os env) s)"

definition talked :: "('a \<Rightarrow> string) \<Rightarrow> 'a outcome \<Rightarrow> (run_error, effect) result" where
  "talked said r = (case r of (_, Inl e) \<Rightarrow> Inl (CommandErr e) | (c, Inr v) \<Rightarrow> Inr (Conversation c (said v)))"

definition bind_flags :: "(run_error, 'o) result \<Rightarrow> ('o \<Rightarrow> (run_error, effect) result) \<Rightarrow> (run_error, effect) result" where
  "bind_flags r f = (case r of Inl e \<Rightarrow> Inl e | Inr x \<Rightarrow> f x)"

definition run :: "cli_env \<Rightarrow> string list \<Rightarrow> (run_error, effect) result" where
  "run env argv = (case argv of
      [] \<Rightarrow> Inl NoCommand
    | cmd # rest \<Rightarrow>
        (let os = ce_os env; dial = ce_dial env; pf = ce_parseFloat env in
         if cmd \<in> set [''boot'', ''args'', ''fingerprint''] then
           bind_flags (parse_flags pf cmd rest machine_flags machineFlags_register) (run_machine env cmd)
         else if cmd = ''compare'' then
           bind_flags (parse_flags pf cmd rest compare_flags compareFlags_register)
             (\<lambda>x. case compare env x of Inl e \<Rightarrow> Inl (CompareErr e) | Inr t \<Rightarrow> Inr (Prints t))
         else if cmd = ''attach'' then
           bind_flags (parse_flags pf cmd rest attach_flags attachFlags_register) (\<lambda>x. talked (\<lambda>_. []) (attach os dial x))
         else if cmd = ''detach'' then
           bind_flags (parse_flags pf cmd rest detach_flags detachFlags_register) (\<lambda>x. talked (\<lambda>_. []) (detach dial x))
         else if cmd = ''memory'' then
           bind_flags (parse_flags pf cmd rest memory_flags memoryFlags_register) (\<lambda>x. talked memory_text (memory_cmd dial x))
         else if cmd = ''save'' then
           bind_flags (parse_flags pf cmd rest save_flags saveFlags_register) (\<lambda>x. talked (\<lambda>_. []) (save os dial x))
         else if cmd = ''restore'' then
           bind_flags (parse_flags pf cmd rest restore_flags restoreFlags_register) (\<lambda>x. talked (\<lambda>_. []) (restore os dial x))
         else if cmd \<in> set [''-h'', ''--help'', ''help''] then Inr (Prints usage)
         else Inl (UnknownCommand cmd)))"

text \<open>The exit status \<^verbatim>\<open>main\<close> ends with: help asked for is not a failure.\<close>

definition exit_status :: "(run_error, effect) result \<Rightarrow> int" where
  "exit_status r = (case r of Inr _ \<Rightarrow> 0 | Inl (HelpAsked _) \<Rightarrow> 0 | Inl _ \<Rightarrow> 1)"

subsection \<open>Flags written and read\<close>

definition machine_values :: "machineFlags \<Rightarrow> string list" where
  "machine_values x = [mf_release x, mf_qemu x, mf_kernel x, mf_initrd x, mf_firmware x, mf_bios x,
     mf_disk x, mf_diskFormat x, bool_text (mf_readonly x), mf_serial x, bool_text (mf_directOverBacking x),
     decz (mf_memoryMB x), decz (mf_maxMemMB x), mf_cpuModel x, mf_accel x, decz (mf_cpus x), decz (mf_maxCPUs x),
     decz (mf_hotplugDisks x), decz (mf_vsockCID x), mf_qmp x, mf_incoming x, mf_console x, mf_init x, mf_root x,
     bool_text (mf_profile x), mf_extra x]"

text \<open>Every option of a machine, given as \<^verbatim>\<open>--name=value\<close>.\<close>

definition machine_argv :: "machineFlags \<Rightarrow> string list" where
  "machine_argv x = map assign (zip (map fst machine_flags) (machine_values x))"

definition machine_ints :: "machineFlags \<Rightarrow> int list" where
  "machine_ints x = [mf_memoryMB x, mf_maxMemMB x, mf_cpus x, mf_maxCPUs x, mf_hotplugDisks x, mf_vsockCID x]"

lemma machine_flag_names: "distinct (map fst machine_flags)" "list_all plain_name (map fst machine_flags)"
  by code_simp+

lemma set_each_machine:
  assumes "list_all int64 (machine_ints x)"
  shows "set_each pf (zip (map snd machine_flags) (machine_values x)) d = Some x"
proof -
  have i: "ParseInt0 (decz n) = Some n" if "n \<in> set (machine_ints x)" for n
    using assms that by (intro ParseInt0_decz) (auto simp: list_all_iff int64_def)
  have "ParseInt0 (decz (mf_memoryMB x)) = Some (mf_memoryMB x)" "ParseInt0 (decz (mf_maxMemMB x)) = Some (mf_maxMemMB x)"
    "ParseInt0 (decz (mf_cpus x)) = Some (mf_cpus x)" "ParseInt0 (decz (mf_maxCPUs x)) = Some (mf_maxCPUs x)"
    "ParseInt0 (decz (mf_hotplugDisks x)) = Some (mf_hotplugDisks x)" "ParseInt0 (decz (mf_vsockCID x)) = Some (mf_vsockCID x)"
    by (rule i, simp add: machine_ints_def)+
  then show ?thesis by (simp add: machine_flags_def machine_values_def ParseBool_text)
qed

lemma machine_argv_parse:
  assumes "list_all int64 (machine_ints x)"
  shows "parse_flags pf cmd (machine_argv x) machine_flags d = Inr x"
proof -
  have len: "length machine_flags = length (machine_values x)" by (simp add: machine_flags_def machine_values_def)
  have "map fst (zip (map fst machine_flags) (machine_values x)) = map fst machine_flags" using len by simp
  then have "list_all plain_name (map fst (zip (map fst machine_flags) (machine_values x)))"
    using machine_flag_names(2) by (simp only:)
  then have "list_all (\<lambda>nv. plain_name (fst nv)) (zip (map fst machine_flags) (machine_values x))"
    by (simp only: list.pred_map comp_def)
  moreover have "set_all pf machine_flags (zip (map fst machine_flags) (machine_values x)) d = Some x"
    using set_all_each [OF machine_flag_names(1) subset_refl len] set_each_machine [OF assms] by metis
  ultimately have "Parse pf machine_flags (machine_argv x) d = Inr (x, [])"
    unfolding machine_argv_def by (rule Parse_assignments)
  then show ?thesis by (simp add: parse_flags_def)
qed

lemma run_machine_argv:
  assumes "cmd \<in> {''boot'', ''args'', ''fingerprint''}" and "list_all int64 (machine_ints x)"
  shows "run env (cmd # machine_argv x) = run_machine env cmd x"
  using assms(1) machine_argv_parse [OF assms(2)] by (auto simp: run_def Let_def bind_flags_def)

subsection \<open>What the fingerprint command prints\<close>

lemma utf8_strings [simp]: "utf8_json (strings_json xs) \<longleftrightarrow> list_all valid_utf8 xs" "no_other (strings_json xs)"
  by (auto simp: strings_json_def list_all_iff)

lemma strings_json_inj: "strings_json xs = strings_json ys \<longleftrightarrow> xs = ys"
  by (auto simp: strings_json_def inj_map_eq_map inj_def)

lemma identity_json_inj:
  "identity_json f s = identity_json g t \<longleftrightarrow> f = g \<and> Shape s = Shape t \<and> Contract s = Contract t
     \<and> path_join (s_Firmware s) (spec_bios s) = path_join (s_Firmware t) (spec_bios t)"
  by (auto simp: identity_json_def shape_json_def strings_json_inj spec_bios_def intro: shape.equality)

lemma ascii_lines: "list_all ascii fixed_lines" "ascii vsock_line" "ascii mem_line" "ascii scsi_line" "ascii (nic_line i m)"
proof -
  show "list_all ascii fixed_lines" "ascii vsock_line" "ascii mem_line" "ascii scsi_line"
    by (simp_all add: fixed_lines_def vsock_line_def mem_line_def scsi_line_def byte_in_def)
  show "ascii (nic_line i m)" by (simp add: nic_line_def byte_in_def)
qed

lemma ascii_Contract: "spec_ok s \<Longrightarrow> list_all ascii (Contract s)"
  using ascii_lines by (auto simp: Contract_device_lines device_lines_def nic_lines_def list_all_iff byte_in_def)

lemma ascii_digest: "ascii (digest kvs)"
proof -
  have "ascii [digit (nat (b div 16)), digit (nat (b mod 16))]" if "0 \<le> b" "b < 256" for b :: int
  proof -
    have "ascii [digit n]" if "n < 16" for n
      using that by (simp add: digit_def byte_in_def of_char_of)
    then show ?thesis using that by (simp add: nat_less_iff)
  qed
  then show ?thesis
    using sha256_byte by (fastforce simp: digest_def EncodeToString_def list_all_iff)
qed

text \<open>A machine whose names are UTF-8: the CPU model and the path of the BIOS.\<close>

definition utf8_names :: "spec \<Rightarrow> bool" where
  "utf8_names s = (valid_utf8 (cpuModel s) \<and> valid_utf8 (path_join (s_Firmware s) (spec_bios s)))"

lemma utf8_shape:
  assumes "spec_ok s" and "utf8_names s"
  shows "utf8_json (shape_json (Shape s))"
proof -
  have "ascii (spec_accel s)" using assms(1) by (auto simp: spec_ok_def fields_ok_def spec_accel_def byte_in_def)
  moreover have "ascii machineOpts" by (simp add: machineOpts_def MachineType_def byte_in_def)
  moreover have "ascii (smpArg a b)" "ascii (memoryArg a b)" for a b by (simp_all add: smpArg_def memoryArg_def byte_in_def)
  moreover have "valid_utf8 (sh_CPU (Shape s))"
    using assms(2) by (auto simp: Shape_def Let_def utf8_names_def ascii_valid byte_in_def intro!: valid_utf8_append)
  ultimately show ?thesis by (simp add: shape_json_def Shape_def Let_def ascii_valid byte_in_def)
qed

lemma utf8_identity:
  assumes "spec_ok s" and "utf8_names s" and "Fingerprint os s = Inr f"
  shows "valid_json (identity_json f s) = identity_json f s"
proof (rule valid_json_utf8)
  have "valid_utf8 f" using assms(3) ascii_digest by (auto simp: Fingerprint_def fingerprint_def ascii_valid split: sum.splits)
  moreover have "list_all valid_utf8 (Contract s)"
    using ascii_Contract [OF assms(1)] ascii_valid by (auto simp: list_all_iff)
  moreover have "path_join (s_Firmware s) (if s_BIOS s \<noteq> [] then s_BIOS s else DefaultBIOS) = path_join (s_Firmware s) (spec_bios s)"
    by (simp add: spec_bios_def)
  moreover have "valid_utf8 (path_join (s_Firmware s) (spec_bios s))" using assms(2) by (simp add: utf8_names_def)
  ultimately show "utf8_json (identity_json f s)"
    using utf8_shape [OF assms(1,2)] unfolding identity_json_def by (simp add: ascii_valid byte_in_def)
qed

lemma no_other_identity: "no_other (identity_json f s)"
  by (simp add: identity_json_def shape_json_def)

lemma identity_text_eq:
  assumes "valid_json j = j" and "valid_json k = k" and "no_other j" and "no_other k"
  shows "json_indented 0 j @ [CHR 0x0A] = json_indented 0 k @ [CHR 0x0A] \<longleftrightarrow> j = k"
proof
  assume eq: "json_indented 0 j @ [CHR 0x0A] = json_indented 0 k @ [CHR 0x0A]"
  have "Some j = json_parse (json_indented 0 j @ [CHR 0x0A])" by (simp only: json_written(3) [OF assms(3)] assms(1))
  also have "\<dots> = Some k" unfolding eq by (simp only: json_written(3) [OF assms(4)] assms(2))
  finally show "j = k" by simp
qed simp

text \<open>What is printed says which machine it is, whatever SHA-256 makes of it: the texts are the same
  exactly when the BIOS is the same file and the hardware is the same.\<close>

lemma identity_eq:
  assumes "spec_ok s" and "spec_ok t" and "Fingerprint os s = Inr f" and "Fingerprint os t = Inr g"
  shows "identity_json f s = identity_json g t \<longleftrightarrow>
     path_join (s_Firmware s) (spec_bios s) = path_join (s_Firmware t) (spec_bios t)
     \<and> hardware_of os (hostCPUModel os) s = hardware_of os (hostCPUModel os) t"
proof -
  let ?cpu = "hostCPUModel os"
  obtain kvs where s: "fingerprint_writes os ?cpu s = Inr kvs" and f: "f = digest kvs"
    using assms(3) by (auto simp: Fingerprint_def fingerprint_def split: sum.splits)
  obtain kvs' where t: "fingerprint_writes os ?cpu t = Inr kvs'" and g: "g = digest kvs'"
    using assms(4) by (auto simp: Fingerprint_def fingerprint_def split: sum.splits)
  have cpu: "hw_hostcpu (hardware_of os ?cpu s) = hw_hostcpu (hardware_of os ?cpu t)" if "Shape s = Shape t"
    using that Shape_inj [OF assms(1,2)] by (simp add: hardware_of_def)
  have bios: "hw_bios (hardware_of os ?cpu s) = hw_bios (hardware_of os ?cpu t)"
    if "path_join (s_Firmware s) (spec_bios s) = path_join (s_Firmware t) (spec_bios t)"
    using that by (simp add: hardware_of_def)
  show ?thesis
    unfolding identity_json_inj
    using hardware_eq_iff [OF assms(1,2), of os ?cpu os ?cpu] writes_hardware [OF assms(1,2) s t] cpu bios f g by blast
qed

lemma print_fingerprint_eq:
  assumes "spec_ok s" and "spec_ok t" and "Fingerprint os s = Inr f" and "Fingerprint os t = Inr g"
    and "utf8_names s" and "utf8_names t"
  shows "print_fingerprint os s = print_fingerprint os t \<longleftrightarrow>
     path_join (s_Firmware s) (spec_bios s) = path_join (s_Firmware t) (spec_bios t)
     \<and> hardware_of os (hostCPUModel os) s = hardware_of os (hostCPUModel os) t"
  using identity_eq [OF assms(1-4)]
    identity_text_eq [OF utf8_identity [OF assms(1,5,3)] utf8_identity [OF assms(2,6,4)] no_other_identity no_other_identity]
  by (simp add: print_fingerprint_def assms(3,4))


subsection \<open>Properties\<close>

text \<open>The flags say the machine. Whatever options of \<^verbatim>\<open>boot\<close>, \<^verbatim>\<open>args\<close> and \<^verbatim>\<open>fingerprint\<close> a caller
  means, with integers of 64 bits, the command line that gives each as \<^verbatim>\<open>--name=value\<close> is read as
  exactly those options, and the command does with them what it is for, whatever the values of
  the strings; with no argument it does it with the defaults.\<close>

theorem flags_say_the_machine:
  assumes "cmd \<in> {''boot'', ''args'', ''fingerprint''}" and "list_all int64 (machine_ints x)"
  shows "run env (cmd # machine_argv x) = run_machine env cmd x
    \<and> run env [cmd] = run_machine env cmd machineFlags_register"
proof -
  have "run env [cmd] = run_machine env cmd machineFlags_register"
    using assms(1) by (auto simp: run_def Let_def bind_flags_def parse_flags_def)
  then show ?thesis using run_machine_argv [OF assms] by blast
qed

definition sample_env :: cli_env where
  "sample_env = \<lparr>ce_os = \<lparr>os_stat = (\<lambda>_. Inl ErrNotExist), os_open = (\<lambda>_. Inl ErrNotExist), os_getwd = Inl ErrNotExist\<rparr>,
     ce_lookPath = (\<lambda>_. Inl ErrNotExist), ce_exec = (\<lambda>_ _. None), ce_dial = (\<lambda>_. Inl ErrNotExist), ce_parseFloat = (\<lambda>_. None), ce_jsonError = (\<lambda>_. [])\<rparr>"

theorem flags_say_the_machine_witness:
  "''boot'' \<in> {''boot'', ''args'', ''fingerprint''} \<and> list_all int64 (machine_ints (machineFlags_register\<lparr>mf_cpus := 4\<rparr>))
   \<and> run sample_env (''boot'' # machine_argv (machineFlags_register\<lparr>mf_cpus := 4\<rparr>))
       = run_machine sample_env ''boot'' (machineFlags_register\<lparr>mf_cpus := 4\<rparr>)
   \<and> run sample_env [''boot''] = run_machine sample_env ''boot'' machineFlags_register"
proof -
  have 1: "''boot'' \<in> {''boot'', ''args'', ''fingerprint''}" by simp
  have 2: "list_all int64 (machine_ints (machineFlags_register\<lparr>mf_cpus := 4\<rparr>))"
    by (simp add: machine_ints_def machineFlags_register_def int64_def)
  show ?thesis using flags_say_the_machine [OF 1 2, of sample_env] 1 2 by blast
qed

text \<open>What a path named to \<^verbatim>\<open>compare\<close> holds: nothing that can be read, something that is no JSON, or a report as
  the tags of its structs have it written, in any layout, with any text for a number that stands for
  it and anything for the shapes.\<close>

definition unreadable :: "cli_env \<Rightarrow> string \<Rightarrow> os_error \<Rightarrow> bool" where
  "unreadable env p e = (os_open (ce_os env) p = Inl e \<or> (\<exists>b. os_open (ce_os env) p = Inr (b, Some e)))"

definition no_json :: "cli_env \<Rightarrow> string \<Rightarrow> string \<Rightarrow> bool" where
  "no_json env p b = (os_open (ce_os env) p = Inr (b, None) \<and> json_parse b = None)"

definition holds_report :: "cli_env \<Rightarrow> string \<Rightarrow> report \<Rightarrow> bool" where
  "holds_report env p r = (\<exists>num shape t w. os_open (ce_os env) p = Inr (t @ w, None) \<and> reads t (report_json num shape r) \<and> spaces w
     \<and> report_good num shape r)"

lemma read_report_holds: "holds_report env p r \<Longrightarrow> read_report env p = Inr r"
  by (auto simp: holds_report_def read_report_def report_read_back)

lemma read_report_fails:
  "unreadable env p e \<Longrightarrow> read_report env p = Inl (ReadingReport p e)"
  "no_json env p b \<Longrightarrow> read_report env p = Inl (BadReport p (ce_jsonError env b))"
  by (auto simp: unreadable_def no_json_def read_report_def decode_report_def unmarshal_def)

text \<open>C34: \<^verbatim>\<open>compare\<close> compares what was written. Of two files that hold reports \<^verbatim>\<open>compare\<close> prints the difference of
  these very reports: no field is lost, renamed or mixed up in between. An old file that cannot be read, or
  is no JSON, is an error that names it, whatever the new one holds; so is a new file of which this is true,
  when the old one holds a report.\<close>

theorem compare_compares_what_was_written:
  assumes "cf_old o' \<noteq> []" and "cf_new o' \<noteq> []"
  shows "(unreadable env (cf_old o') e \<longrightarrow> compare env o' = Inl (ReadingReport (cf_old o') e))
    \<and> (no_json env (cf_old o') b \<longrightarrow> compare env o' = Inl (BadReport (cf_old o') (ce_jsonError env b)))
    \<and> (holds_report env (cf_old o') old \<longrightarrow>
         (unreadable env (cf_new o') e \<longrightarrow> compare env o' = Inl (ReadingReport (cf_new o') e))
       \<and> (no_json env (cf_new o') b \<longrightarrow> compare env o' = Inl (BadReport (cf_new o') (ce_jsonError env b)))
       \<and> (holds_report env (cf_new o') new \<longrightarrow> compare env o' = Inr (Diff old new (cf_threshold o'))))"
  using assms by (auto simp: compare_def read_report_holds read_report_fails)

definition sample_number :: "rat \<Rightarrow> json" where
  "sample_number x = JInt \<lfloor>x\<rfloor>"

definition report_of :: "rat \<Rightarrow> report" where
  "report_of x = zero_report\<lparr>rep_Release := ''v1'', rep_Login := ''echo'', rep_Specs := [zero_row\<lparr>row_ID := ''a'', row_Args := [''-m''],
     row_Boot := \<lparr>boot_Boots = 3, boot_Failed = 0, boot_Error = [], boot_Phases = [(''usable'', \<lparr>sum_P50 = x, sum_P95 = x, sum_N = 3\<rparr>)]\<rparr>\<rparr>]\<rparr>"

definition report_text :: "rat \<Rightarrow> string" where
  "report_text x = json_text (report_json sample_number (\<lambda>_. None) (report_of x)) @ [CHR 0x0A]"

definition two_reports :: cli_env where
  "two_reports = sample_env\<lparr>ce_os := \<lparr>os_stat = (\<lambda>_. Inl ErrNotExist),
     os_open = (\<lambda>p. Inr (report_text (if p = ''/old'' then 100 else 300), None)), os_getwd = Inl ErrNotExist\<rparr>\<rparr>"

theorem compare_compares_what_was_written_witness:
  "compare two_reports \<lparr>cf_old = ''/old'', cf_new = ''/new'', cf_threshold = NaN\<rparr> = Inr (Diff (report_of 100) (report_of 300) NaN)
   \<and> compare sample_env \<lparr>cf_old = ''/old'', cf_new = ''/new'', cf_threshold = Fin 0\<rparr> = Inl (ReadingReport ''/old'' ErrNotExist)"
proof -
  let ?o = "\<lparr>cf_old = ''/old'', cf_new = ''/new'', cf_threshold = NaN\<rparr>"
  let ?p = "\<lparr>cf_old = ''/old'', cf_new = ''/new'', cf_threshold = Fin 0\<rparr>"
  let ?j = "\<lambda>x. report_json sample_number (\<lambda>_. None) (report_of x)"
  have "no_other (?j x) \<and> utf8_json (?j x)" for x
    by (simp add: report_json_def report_of_def zero_report_def zero_row_def row_json_def boot_json_def summary_json_def host_json_def
        sample_number_def omitempty_def map_json_def arr_json_def ascii_valid byte_in_def)
  then have texts: "reads (json_text (?j 100)) (?j 100)" "reads (json_text (?j 300)) (?j 300)" by (simp_all only: utf8_reads)
  have "float_into 0 (JInt 100) = Some 100" "float_into 0 (JInt 300) = Some 300"
    using fl_of_nat [of 100] fl_of_nat [of 300] by (simp_all add: float_into_def float_value_def)
  then have good: "report_good sample_number (\<lambda>_. None) (report_of 100)" "report_good sample_number (\<lambda>_. None) (report_of 300)"
    by (simp_all add: report_good_def report_of_def zero_report_def zero_row_def row_good_def boot_good_def summary_good_def sample_number_def go_int_def)
  have named: "cf_old ?o \<noteq> []" "cf_new ?o \<noteq> []" "cf_old ?p \<noteq> []" "cf_new ?p \<noteq> []" by simp_all
  have files: "os_open (ce_os two_reports) (cf_old ?o) = Inr (json_text (?j 100) @ [CHR 0x0A], None)"
    "os_open (ce_os two_reports) (cf_new ?o) = Inr (json_text (?j 300) @ [CHR 0x0A], None)"
    by (simp_all add: two_reports_def report_text_def)
  have "holds_report two_reports (cf_old ?o) (report_of 100)" "holds_report two_reports (cf_new ?o) (report_of 300)"
    unfolding holds_report_def using files texts good newline_spaces by blast+
  moreover have "unreadable sample_env (cf_old ?p) ErrNotExist" by (simp add: unreadable_def sample_env_def)
  ultimately show ?thesis
    using compare_compares_what_was_written [OF named(1,2), of two_reports]
      compare_compares_what_was_written [OF named(3,4), of sample_env ErrNotExist] by simp
qed

end
