(* ===== verification/Probe_Init.thy ===== *)
theory Probe_Init
  imports Go_Strings
begin

text \<open>
  The init of the diagnostic initrd: \<^verbatim>\<open>boot/probeinit/main.go\<close>.

  The program never ends, so what is modelled is what it has printed after any number of reads of
  \<^verbatim>\<open>/dev/kmsg\<close>: \<open>probe_main\<close> takes the answer of \<^verbatim>\<open>Open\<close> and the answers of the reads made so far. The two
  mounts come before it, their errors dropped: \<open>probe_calls\<close> is what it asks of the kernel before the
  first read. The records the log holds
  when the probe starts are looked at until a read would block; then the marker is printed, and
  then every record there is. \<open>probe_spec\<close> says the same of the whole list of reads at once.
\<close>

subsection \<open>Library functions\<close>

text \<open>\<^verbatim>\<open>strings.ToLower\<close>, as far as an ASCII word can be found in its result: two characters outside
  ASCII have a lower case inside it, the dotted capital I (C4 B0) and the Kelvin sign (E2 84 AA);
  every other one has none, and its bytes, which are no ASCII character's, are left as they are.\<close>

definition lower :: "char \<Rightarrow> char" where
  "lower c = (let n = of_char c :: nat in if 65 \<le> n \<and> n \<le> 90 then char_of (n + 32) else c)"

fun ToLower :: "string \<Rightarrow> string" where
  "ToLower [] = []"
| "ToLower (c # cs) =
     (if c = CHR 0xC4 \<and> take 1 cs = [CHR 0xB0] then CHR ''i'' # ToLower (drop 1 cs)
      else if c = CHR 0xE2 \<and> take 2 cs = [CHR 0x84, CHR 0xAA] then CHR ''k'' # ToLower (drop 2 cs)
      else lower c # ToLower cs)"

definition TrimRight :: "string \<Rightarrow> char \<Rightarrow> string" where
  "TrimRight s c = rev (dropWhile (\<lambda>x. x = c) (rev s))"

subsection \<open>The program\<close>

datatype kmsg_read = EAGAIN | ReadError | Bytes string

datatype probe_phase = Draining | Following | Parked

record probe =
  pr_phase :: probe_phase
  pr_lines :: "string list"

definition message :: "string \<Rightarrow> string" where
  "message rec = TrimRight (case Cut rec (CHR '';'') of (_, after, found) \<Rightarrow> if found then after else rec) (CHR 0x0A)"

definition mentions_vmgenid :: "string \<Rightarrow> bool" where
  "mentions_vmgenid line = Contains (ToLower line) ''vmgenid''"

definition println :: "string \<Rightarrow> probe \<Rightarrow> probe" where
  "println l p = p\<lparr>pr_lines := pr_lines p @ [l]\<rparr>"

datatype probe_call = MkdirAll string nat | Mount string string string | OpenNonblock string

definition probe_mounts :: "(string \<times> string \<times> string) list" where
  "probe_mounts = [(''proc'', ''/proc'', ''proc''), (''devtmpfs'', ''/dev'', ''devtmpfs'')]"

definition probe_calls :: "probe_call list" where
  "probe_calls = concat (map (\<lambda>(src, dir, fs). [MkdirAll dir 0x1ED, Mount src dir fs]) probe_mounts) @ [OpenNonblock ''/dev/kmsg'']"

text \<open>Up to the first read: with no log to read the marker is all there is to say.\<close>

definition probe_open :: "string option \<Rightarrow> probe" where
  "probe_open err = (case err of
     None \<Rightarrow> \<lparr>pr_phase = Draining, pr_lines = []\<rparr>
   | Some e \<Rightarrow> println ''SPIN-READY'' (println (''SPIN-PROBE: no /dev/kmsg: '' @ e) \<lparr>pr_phase = Parked, pr_lines = []\<rparr>))"

text \<open>One turn of the loop the probe is in. A read that fails or returns nothing is made again.\<close>

definition probe_read :: "probe \<Rightarrow> kmsg_read \<Rightarrow> probe" where
  "probe_read p r = (case pr_phase p of
     Draining \<Rightarrow> (case r of
         EAGAIN \<Rightarrow> (println ''SPIN-READY'' p)\<lparr>pr_phase := Following\<rparr>
       | ReadError \<Rightarrow> p
       | Bytes b \<Rightarrow> if b = [] then p else (let line = message b in if mentions_vmgenid line then println line p else p))
   | Following \<Rightarrow> (case r of
         Bytes b \<Rightarrow> if b = [] then p else println (message b) p
       | _ \<Rightarrow> p)
   | Parked \<Rightarrow> p)"

definition probe_main :: "string option \<Rightarrow> kmsg_read list \<Rightarrow> probe" where
  "probe_main err reads = foldl probe_read (probe_open err) reads"

subsection \<open>What it says of its reads\<close>

fun log_lines :: "kmsg_read list \<Rightarrow> string list" where
  "log_lines [] = []"
| "log_lines (Bytes b # rs) = (if b = [] then log_lines rs else message b # log_lines rs)"
| "log_lines (_ # rs) = log_lines rs"

definition drained :: "kmsg_read list \<Rightarrow> kmsg_read list" where
  "drained reads = takeWhile (\<lambda>r. r \<noteq> EAGAIN) reads"

definition followed :: "kmsg_read list \<Rightarrow> kmsg_read list" where
  "followed reads = drop 1 (dropWhile (\<lambda>r. r \<noteq> EAGAIN) reads)"

definition probe_spec :: "kmsg_read list \<Rightarrow> string list" where
  "probe_spec reads = filter mentions_vmgenid (log_lines (drained reads))
     @ (if EAGAIN \<in> set reads then ''SPIN-READY'' # log_lines (followed reads) else [])"

lemma draining_read:
  assumes "pr_phase p = Draining"
  shows "probe_read p EAGAIN = p\<lparr>pr_phase := Following, pr_lines := pr_lines p @ [''SPIN-READY'']\<rparr>"
    and "probe_read p ReadError = p"
    and "probe_read p (Bytes b) = p\<lparr>pr_lines := pr_lines p @ filter mentions_vmgenid (log_lines [Bytes b])\<rparr>"
  using assms by (simp_all add: probe_read_def println_def)

lemma following_read:
  "pr_phase p = Following \<Longrightarrow> probe_read p r = p\<lparr>pr_lines := pr_lines p @ log_lines [r]\<rparr>"
  by (cases r) (simp_all add: probe_read_def println_def)

lemma parked_read: "pr_phase p = Parked \<Longrightarrow> probe_read p r = p"
  by (simp add: probe_read_def)

lemma log_lines_Cons: "log_lines (r # rs) = log_lines [r] @ log_lines rs"
  by (cases r) simp_all

lemma probe_following:
  "pr_phase p = Following \<Longrightarrow> foldl probe_read p reads = p\<lparr>pr_lines := pr_lines p @ log_lines reads\<rparr>"
proof (induction reads arbitrary: p)
  case (Cons r rs)
  then show ?case by (simp add: following_read log_lines_Cons [of r rs])
qed simp

lemma probe_parked: "pr_phase p = Parked \<Longrightarrow> foldl probe_read p reads = p"
  by (induction reads arbitrary: p) (simp_all add: parked_read)

lemma probe_spec_Cons:
  "probe_spec [] = []"
  "probe_spec (EAGAIN # rs) = ''SPIN-READY'' # log_lines rs"
  "r \<noteq> EAGAIN \<Longrightarrow> probe_spec (r # rs) = filter mentions_vmgenid (log_lines [r]) @ probe_spec rs"
  by (simp_all add: probe_spec_def drained_def followed_def log_lines_Cons [of r "takeWhile _ _"] del: log_lines.simps(2,3))

lemma probe_draining:
  "pr_phase p = Draining \<Longrightarrow> foldl probe_read p reads =
     p\<lparr>pr_phase := (if EAGAIN \<in> set reads then Following else Draining), pr_lines := pr_lines p @ probe_spec reads\<rparr>"
proof (induction reads arbitrary: p)
  case Nil
  then show ?case by (simp add: probe_spec_Cons)
next
  case (Cons r rs)
  then show ?case
    by (cases r) (simp_all add: probe_spec_Cons draining_read probe_following del: log_lines.simps(2))
qed

text \<open>A word is found in whatever case it is written, and a record is its text.\<close>

lemma ToLower_ascii: "list_all (\<lambda>c. of_char c < (128 :: nat)) s \<Longrightarrow> ToLower s = map lower s"
  by (induction s) auto

lemma Contains_map: "Contains (map f s) m \<longleftrightarrow> (\<exists>a w b. s = a @ w @ b \<and> map f w = m)"
proof -
  have "Contains (map f s) m \<longleftrightarrow> (\<exists>a b. map f s = a @ m @ b)" by (rule Contains_iff)
  also have "\<dots> \<longleftrightarrow> (\<exists>a w b. s = a @ w @ b \<and> map f w = m)"
    by (auto simp: map_eq_append_conv append_eq_map_conv) (metis map_append)+
  finally show ?thesis .
qed

lemma mentions_any_case:
  assumes "list_all (\<lambda>c. of_char c < (128 :: nat)) line"
  shows "mentions_vmgenid line \<longleftrightarrow> (\<exists>a w b. line = a @ w @ b \<and> map lower w = ''vmgenid'')"
  unfolding mentions_vmgenid_def ToLower_ascii [OF assms] by (rule Contains_map)

lemma message_text:
  assumes "CHR '';'' \<notin> set header" and "line = [] \<or> last line \<noteq> CHR 0x0A"
  shows "message (header @ CHR '';'' # line @ [CHR 0x0A]) = line"
proof -
  have "dropWhile (\<lambda>x. x = CHR 0x0A) (rev line) = rev line"
    using assms(2) by (cases line rule: rev_cases) simp_all
  then show ?thesis unfolding message_def Cut_found [OF assms(1)] by (simp add: TrimRight_def)
qed

subsection \<open>Properties\<close>

text \<open>C40: The probe says it is ready when the log is drained, and loses nothing after that. Whatever
  its reads of the log answer, it has printed, in order, those records up to the first read that
  would block that mention vmgenid in any case; then, once that read was made and never before,
  \<^verbatim>\<open>SPIN-READY\<close>; then every record read since, so that what a restored guest logs reaches the
  host. With no log to open, the marker is printed all the same, after the reason. A record is
  printed as the text between its header and its newline.\<close>

theorem probe_is_ready_when_the_log_is_drained:
  "pr_lines (probe_main None reads) = probe_spec reads
   \<and> pr_lines (probe_main (Some e) reads) = [''SPIN-PROBE: no /dev/kmsg: '' @ e, ''SPIN-READY'']
   \<and> (CHR '';'' \<notin> set header \<and> (line = [] \<or> last line \<noteq> CHR 0x0A)
        \<longrightarrow> message (header @ CHR '';'' # line @ [CHR 0x0A]) = line)"
  by (simp add: message_text probe_main_def probe_open_def probe_draining probe_parked println_def)

theorem probe_is_ready_when_the_log_is_drained_witness:
  "message (''6,339,5140900,-;crng reseeded'' @ [CHR 0x0A]) = ''crng reseeded''
   \<and> pr_lines (probe_main None [Bytes ''6,1,0,-;Linux'', Bytes ''6,2,0,-;VMGenID: on'', ReadError, EAGAIN, Bytes ''6,3,9,-;crng reseeded''])
     = [''VMGenID: on'', ''SPIN-READY'', ''crng reseeded'']"
proof -
  have "probe_spec [Bytes ''6,1,0,-;Linux'', Bytes ''6,2,0,-;VMGenID: on'', ReadError, EAGAIN, Bytes ''6,3,9,-;crng reseeded'']
     = [''VMGenID: on'', ''SPIN-READY'', ''crng reseeded'']" by code_simp
  then show ?thesis
    using probe_is_ready_when_the_log_is_drained [where header = "''6,339,5140900,-''" and line = "''crng reseeded''"
        and reads = "[Bytes ''6,1,0,-;Linux'', Bytes ''6,2,0,-;VMGenID: on'', ReadError, EAGAIN, Bytes ''6,3,9,-;crng reseeded'']"]
    by simp
qed

end
