(* ===== verification/Spec2Isabelle.thy ===== *)
theory Spec2Isabelle
  imports Machine_Slots Machine_Chains Machine_Fingerprint Qmp_Order Qmp_Wire Qmp_World Qmp_Obliging Qmp_Deadline Qmp_Lockstep Qmp_Messages
    Boot_Summary Apk_Lock Machine_Types Osv_Issues Release_Notes Cli_Run Probe_Init
begin

text \<open>
  The machine of spin-stack/spin-machine, modelled from its Go sources.

  \<^bold>\<open>The program.\<close> The repository builds a QEMU, a kernel and an image and defines the one virtual
  machine they make. Its Go code is the definition of that machine (\<^verbatim>\<open>machine/\<close>), the command that
  starts it and acts on it while it runs (\<^verbatim>\<open>cmd/spin-machine\<close>), the measuring of its boots (\<^verbatim>\<open>boot/\<close>)
  and the tools of its maintenance (\<^verbatim>\<open>hack/\<close>). A \<^verbatim>\<open>Spec\<close> says what a machine is; \<^verbatim>\<open>Args\<close> validates it
  and writes the QEMU command line; \<^verbatim>\<open>Fingerprint\<close> hashes its hardware. The command makes a \<^verbatim>\<open>Spec\<close>
  from flags and an unpacked release, becomes QEMU (\<^verbatim>\<open>boot\<close>), or holds one QMP conversation with a
  running machine (\<^verbatim>\<open>attach\<close>, \<^verbatim>\<open>detach\<close>, \<^verbatim>\<open>memory\<close>, \<^verbatim>\<open>save\<close>, \<^verbatim>\<open>restore\<close>). The reports record, for every
  row of a matrix of machines, its command line, its fingerprint and the times of its boots.

  \<^bold>\<open>Shared theories.\<close> \<open>Prelude\<close> has the result type, the collections of simplification rules, the
  generic list lemmas and two interfaces: \<open>checker\<close>, a check that refuses with an error what a
  predicate rejects, lifted to loops over slices, and \<open>framing\<close>, a self-delimiting encoding, whose
  streams are shown injective. What the sources use of Go's library is written out: \<open>Go_Strings\<close>,
  \<open>Go_Sort\<close>, \<open>Go_Files\<close> (paths, the scanner, the file system as the record \<open>os_env\<close> of what each call
  answers), \<open>Go_Mac\<close>, \<open>Go_Sha256\<close>, \<open>Go_Float\<close> (\<^verbatim>\<open>float64\<close> as rationals rounded to 53 bits, to nearest even,
  with the infinities and NaN), \<open>Go_Flag\<close>, \<open>Go_Json\<close>: UTF-8, the text \<^verbatim>\<open>encoding/json\<close> writes and the reading of one, and that what
  was written is read back; and \<open>Go_Decode\<close>: how what it decodes into is filled, with the
  interface \<open>json_codec\<close> of a value that is read back as it was written.

  \<^bold>\<open>The machine.\<close>
  \<^item> \<open>Machine_Spec\<close>: the structs of \<^verbatim>\<open>machine/machine.go\<close>, slots and limits, \<^verbatim>\<open>Shape\<close> and every
    \<^verbatim>\<open>validate\<close>; it accepts exactly the specs that \<open>spec_ok\<close> describes.
  \<^item> \<open>Cmdline\<close>: the whole of \<^verbatim>\<open>machine/cmdline.go\<close>. The interface \<open>next_arg\<close> says how the kernel parts a line
    into words; of any reader that keeps it, the init asked for is the last word exactly when the extra parameters
    close their quotes and the init has no byte the kernel alone takes for white space.
  \<^item> \<open>Qemu_Options\<close>: \<^verbatim>\<open>qemuOpt\<close> and QEMU's reading of an option, into parts at single commas, as the comment
    of \<^verbatim>\<open>qemuOpt\<close> says, and of the parts into names and values; the interface \<open>escaping\<close> says that a
    value escaped is read back as itself, and \<open>appender\<close> that a function appends whole options.
  \<^item> \<open>Machine_Args\<close>, \<open>Machine_Opts\<close>: \<^verbatim>\<open>Args\<close> and the \<^verbatim>\<open>append\<close> functions, the nodes of a chain, their
    JSON, \<^verbatim>\<open>HotplugDisk\<close>; every \<^verbatim>\<open>append\<close> function interprets \<open>appender\<close>.
  \<^item> \<open>Machine_Slots\<close>, \<open>Machine_Chains\<close>: what QEMU finds on the line: a PCI slot for each device, the
    caller's values unaltered, but for a monitor's socket that begins like a name and its value, chains of images closed, writable at the top only and read
    back from their JSON.
  \<^item> \<open>Machine_Fingerprint\<close>: \<^verbatim>\<open>Contract\<close>, \<^verbatim>\<open>Fingerprint\<close>, \<^verbatim>\<open>hostCPUModel\<close>. The stream hashed interprets
    \<open>framing\<close>, so that it determines what was written, and what is written determines the hardware:
    \<open>hardware_of\<close> is the abstract machine a fingerprint stands for.
  \<^item> \<open>Release\<close>: the whole of \<^verbatim>\<open>machine/release.go\<close>: an opened release is whole, a manifest reads back.

  \<^bold>\<open>The command.\<close>
  \<^item> \<open>Cli\<close>: the machine flags, \<^verbatim>\<open>machineFlags.spec\<close>, \<^verbatim>\<open>qemuArgs\<close>, \<^verbatim>\<open>boot\<close> up to \<^verbatim>\<open>syscall.Exec\<close>, which is a
    parameter that answers only when it failed.
  \<^item> \<open>Qmp\<close>: \<^verbatim>\<open>qmpConn\<close> and its loops. The other side is a list of messages and of clock readings,
    whatever it holds, with a number of writes and of deadlines it takes; a sleep moves the clock on; the interface \<open>conversation\<close> says what a step may do to a connection: add to
    its trace, and take messages from the front of what is still to come.
  \<^item> \<open>Qmp_Commands\<close>, \<open>Qmp_Order\<close>: the five commands with their checks, and in which order what they
    send follows what they heard; \<open>session_body\<close> extends \<open>conversation\<close> with the closing of the
    connection.
  \<^item> \<open>Qmp_Wire\<close>: the text of a request, and what a reader of JSON makes of it. \<open>Qmp_Messages\<close>: the bytes
    QEMU writes, and what each \<^verbatim>\<open>Decode\<close> on them yields, which is what a connection of \<open>Qmp\<close> holds.
  \<^item> \<open>Qmp_World\<close>: the trace of a conversation run over a state of QEMU, which is a parameter with the
    laws its QMP reference documents: \<^verbatim>\<open>detach\<close> undoes \<^verbatim>\<open>attach\<close>; a refused \<^verbatim>\<open>attach\<close> asks for its node to be taken
    back, and leaves nothing once that is accepted.
  \<^item> \<open>Qmp_Obliging\<close>, \<open>Qmp_Deadline\<close>: when the commands succeed, and how much they ask: the number of requests
    is bounded by the timeout and the sleeps of the loops, whatever QEMU answers.
  \<^item> \<open>Qmp_Lockstep\<close>: the protocol as an inductive step relation on what the client waits for and the
    stream still to come. The interface \<open>in_turn\<close> says that an operation's part of the conversation is
    a run of it; every operation of the client interprets it, and so do the five bodies.
  \<^item> \<open>Cli_Run\<close>: \<^verbatim>\<open>run\<close>, \<^verbatim>\<open>parse\<close>, every flag set, \<^verbatim>\<open>fingerprint\<close> with the JSON it prints, \<^verbatim>\<open>compare\<close>, the
    usage text and the exit status. This
    theory, at the root, composes them: from the arguments to QEMU and to the fingerprint.

  \<^bold>\<open>Boots.\<close> \<open>Boot_Phases\<close> is \<^verbatim>\<open>Watch\<close> with its window, which refines a search of everything read;
  \<open>Boot_Report\<close> is \<^verbatim>\<open>Percentile\<close>, \<^verbatim>\<open>Summarise\<close>, the pairing of renamed rows and \<^verbatim>\<open>Diff\<close>; \<open>Report_Json\<close> reads a
  report back from its JSON, each struct by an interpretation of \<open>json_codec\<close>; \<open>Boot_Summary\<close>
  composes the two, from consoles to a row of the report; \<open>Probe_Init\<close> is the diagnostic init, which refines a description of its output.

  \<^bold>\<open>Tools.\<close> \<open>Apk_Lock\<close>, \<open>Machine_Types\<close>, \<open>Osv_Issues\<close> and \<open>Release_Notes\<close> are the programs of
  \<^verbatim>\<open>hack/apklock\<close>, \<^verbatim>\<open>hack/machinetype\<close>, \<^verbatim>\<open>hack/osvissues\<close> and \<^verbatim>\<open>hack/releasenotes\<close>. The regular expressions
  they use are written as functions on strings; a version is a \<open>linorder\<close>, by its major number and then its minor, which \<^verbatim>\<open>newer\<close> is shown to be. \<open>Osv_Issues\<close>
  says what the issues are once they are settled, and that one run settles them.

  \<^bold>\<open>Errors, integers, loops.\<close> A function that returns an error returns \<open>Inl\<close> of a constructor for
  that refusal, with the values its message names, and every early return is a branch. A Go \<^verbatim>\<open>int\<close>
  is an \<open>int\<close>, with \<open>wrap64\<close> where the code computes with it; the \<^verbatim>\<open>uint64\<close> of a memory request and the
  words of SHA-256 are machine words. Every loop is a total function, by structural recursion or by
  a measure: on the text, the list of reads or the messages still to come. A loop that waits on the
  outside ends when the list of what the outside says does, which is a connection or a console
  closed. \<open>Qmp_Deadline\<close> bounds the turns of the polling loops by their timeouts, however long the outside goes on
  answering; nothing in the code bounds the wait for one answer, and nothing here says it ends. Fuel is
  only in the reader of JSON, which is given the length of the text: \<open>bound_decides_nothing\<close> shows that
  what is read with any bound is read with that one.

  \<^bold>\<open>Parameters.\<close> The file system, the search for a binary, its execution, the running of other
  programs and the QMP sockets are records or functions of what each call answers. QEMU, the GitHub
  CLI, git, \<^verbatim>\<open>versions.Parse\<close>, the table of printable runes, the reading of a flag that is a \<^verbatim>\<open>float64\<close> and the
  words of \<^verbatim>\<open>encoding/json\<close> on a text it refuses are arguments of the definitions that use them; where a theorem needs a
  law of one (a GitHub CLI that does what it is told, a QEMU that keeps its commands), it is a hypothesis and a witness has an
  instance. Percentiles are exact below \<open>2^47\<close> samples, where the float64 product cannot cross a rank.

  \<^bold>\<open>Not modelled.\<close> The text of messages on stderr; the time at which a deadline on reads passes, which is a read that
  times out; the value of a row's \<^verbatim>\<open>Shape\<close> in a report, which no function reads. Of \<^verbatim>\<open>encoding/json\<close>: its limit on nesting,
  and what a slice decoded into more than twice once held beyond its length. The writing of reports, which
  only the tests do, is modelled as far as the tags of their structs say it. The
  builds of image, kernel and QEMU, the shell scripts, CI and the tests are no part of these Go
  programs.
\<close>

subsection \<open>From the arguments to QEMU\<close>

lemma flags_spec_cmdline:
  assumes "flags_spec os x = Inr s"
  shows "c_Init (s_Cmdline s) = mf_init x"
    and "balanced_quotes (concat (c_Extra (s_Cmdline s))) \<longleftrightarrow> balanced_quotes (concat (Fields (mf_extra x)))"
proof -
  obtain d where d: "s_Cmdline s = flags_cmdline x d" using assms by (auto simp: flags_spec_Inr flags_machine_def)
  show "c_Init (s_Cmdline s) = mf_init x" by (simp add: d flags_cmdline_fields)
  have "count_list (concat (c_Extra (Profiling DefaultCmdline))) (CHR 0x22) = 0" "Fields [] = []" by code_simp+
  then show "balanced_quotes (concat (c_Extra (s_Cmdline s))) \<longleftrightarrow> balanced_quotes (concat (Fields (mf_extra x)))"
    by (simp add: d flags_cmdline_fields balanced_quotes_def)
qed

lemma qemuArgs_ok:
  assumes "spec_ok s"
  obtains args where "qemuArgs s scr = Inr args" and "distinct (pci_slots (argv_opts args))"
    and "set (args_opts s) \<subseteq> set (argv_opts args)"
proof -
  obtain args where args: "qemuArgs s scr = Inr args" using Args_ok [OF assms] by (simp add: qemuArgs_def)
  note opts = snapshot_opts [OF args]
  have "pci_slots (argv_opts args) = map slot_text (slot_numbers s)"
    unfolding opts using pci_slots_args [OF assms] by (simp add: pci_slots_def device_values_def)
  then have "distinct (pci_slots (argv_opts args))"
    using slot_numbers_distinct(1) [OF assms] by (simp add: distinct_map inj_on_def)
  with args opts that show ?thesis by simp
qed

text \<open>C1: From its arguments to QEMU. Given every option of a machine, \<^verbatim>\<open>boot\<close> and \<^verbatim>\<open>args\<close> refuse the
  machine for the reason \<^verbatim>\<open>validate\<close> gives, start nothing and exit with status 1; and when it is
  accepted and QEMU is found, \<^verbatim>\<open>boot\<close> becomes that QEMU with the very arguments \<^verbatim>\<open>args\<close> prints, or
  says that it could not be executed. On
  them no two devices share a PCI slot and the kernel is given the command line of the spec, of
  which the init asked for is the last word a parser with the laws of the kernel's reads exactly when the extra
  parameters close the quotes they open and the init has no byte 0xA0, white space to the kernel.\<close>

theorem boot_becomes_the_machine_asked_for:
  assumes "list_all int64 (machine_ints x)" and "flags_spec (ce_os env) x = Inr s"
    and "ce_lookPath env (s_QEMU s) = Inr qemu" and "next_arg words"
  shows "case validate s of
      Some e \<Rightarrow> run env (''boot'' # machine_argv x) = Inl (BootErr (BootArgs e))
        \<and> run env (''args'' # machine_argv x) = Inl (ArgsErr e)
        \<and> exit_status (run env (''boot'' # machine_argv x)) = 1
    | None \<Rightarrow> \<exists>args. run env (''boot'' # machine_argv x) =
            (case ce_exec env qemu (qemu # args) of
               None \<Rightarrow> Inr (Executes qemu (qemu # args)) | Some e \<Rightarrow> Inl (BootErr (ExecutingQEMU qemu e)))
        \<and> run env (''args'' # machine_argv x) = Inr (Prints (args_text s args))
        \<and> distinct (pci_slots (argv_opts args))
        \<and> (''-append'', Some (Cmdline_String (s_Cmdline s))) \<in> set (argv_opts args)
        \<and> (mf_init x \<noteq> [] \<longrightarrow>
             (last (words (Cmdline_String (s_Cmdline s))) = ''init='' @ mf_init x
                \<longleftrightarrow> balanced_quotes (concat (Fields (mf_extra x))) \<and> CHR 0xA0 \<notin> set (mf_init x)))"
proof -
  have run: "run env (''boot'' # machine_argv x) = run_machine env ''boot'' x"
    "run env (''args'' # machine_argv x) = run_machine env ''args'' x"
    by (rule run_machine_argv; use assms(1) in simp)+
  show ?thesis
  proof (cases "validate s")
    case (Some e)
    then have "qemuArgs s scr = Inl e" for scr by (simp add: qemuArgs_def Args_def)
    then show ?thesis unfolding run using Some assms(2) by (simp add: run_machine_def boot_def exit_status_def)
  next
    case None
    then have ok: "spec_ok s" by (simp add: validate_None)
    from qemuArgs_ok [OF ok] obtain args where args: "qemuArgs s (scratch x) = Inr args"
      and slots: "distinct (pci_slots (argv_opts args))" and sub: "set (args_opts s) \<subseteq> set (argv_opts args)" .
    have "(''-append'', Some (Cmdline_String (s_Cmdline s))) \<in> set (argv_opts args)"
      by (rule subsetD [OF sub]) (simp add: args_opts_def boot_opts_def)
    moreover have "last (words (Cmdline_String (s_Cmdline s))) = ''init='' @ mf_init x
        \<longleftrightarrow> balanced_quotes (concat (Fields (mf_extra x))) \<and> CHR 0xA0 \<notin> set (mf_init x)" if "mf_init x \<noteq> []"
      using next_arg.init_last [OF assms(4), of "s_Cmdline s"] ok that by (simp add: spec_ok_def flags_spec_cmdline [OF assms(2)])
    moreover have "run_machine env ''boot'' x = (case ce_exec env qemu (qemu # args) of
        None \<Rightarrow> Inr (Executes qemu (qemu # args)) | Some e \<Rightarrow> Inl (BootErr (ExecutingQEMU qemu e)))"
      "run_machine env ''args'' x = Inr (Prints (args_text s args))"
      using assms(2,3) args by (simp_all add: run_machine_def boot_def split: option.split)
    ultimately show ?thesis
      unfolding run None option.case using slots by (intro exI [of _ args] conjI impI) blast+
  qed
qed

text \<open>A host for the witnesses: the release of \<open>sample_tree\<close>, with every binary found where it is named.\<close>

definition sample_host :: cli_env where
  "sample_host = \<lparr>ce_os = sample_tree, ce_lookPath = Inr, ce_exec = (\<lambda>_ _. None), ce_dial = (\<lambda>_. Inl ErrNotExist),
     ce_parseFloat = (\<lambda>_. None), ce_jsonError = (\<lambda>_. [])\<rparr>"

definition named_flags :: machineFlags where
  "named_flags = machineFlags_register\<lparr>mf_cpuModel := ''EPYC''\<rparr>"

definition other_flags :: machineFlags where
  "other_flags = named_flags\<lparr>mf_disk := ''-'', mf_qmp := ''/run/vm.sock'', mf_init := ''/i'', mf_kernel := ''/new/vmlinux''\<rparr>"

lemma sample_flags_int64:
  "list_all int64 (machine_ints named_flags)" "list_all int64 (machine_ints other_flags)"
  by (simp_all add: named_flags_def other_flags_def machine_ints_def machineFlags_register_def int64_def)

lemma sample_flags_valid:
  "\<exists>s. flags_spec sample_tree named_flags = Inr s \<and> validate s = None"
  "\<exists>s. flags_spec sample_tree other_flags = Inr s \<and> validate s = None"
proof -
  have *: "\<exists>s. flags_spec sample_tree x = Inr s \<and> validate s = None"
    if "(case flags_spec sample_tree x of Inr s \<Rightarrow> validate s = None | Inl _ \<Rightarrow> False)" for x
    using that by (auto split: sum.splits)
  show "\<exists>s. flags_spec sample_tree named_flags = Inr s \<and> validate s = None" by (rule *) code_simp
  show "\<exists>s. flags_spec sample_tree other_flags = Inr s \<and> validate s = None" by (rule *) code_simp
qed

theorem boot_becomes_the_machine_asked_for_witness:
  "\<exists>s args. flags_spec sample_tree other_flags = Inr s
     \<and> run sample_host (''boot'' # machine_argv other_flags) = Inr (Executes (s_QEMU s) (s_QEMU s # args))
     \<and> distinct (pci_slots (argv_opts args)) \<and> last (kernel_words (Cmdline_String (s_Cmdline s))) = ''init=/i''"
proof -
  obtain s where s: "flags_spec (ce_os sample_host) other_flags = Inr s" "validate s = None"
    using sample_flags_valid(2) by (auto simp: sample_host_def)
  have "ce_lookPath sample_host (s_QEMU s) = Inr (s_QEMU s)" by (simp add: sample_host_def)
  moreover have "mf_init other_flags = ''/i''" "balanced_quotes (concat (Fields (mf_extra other_flags)))" by code_simp+
  ultimately show ?thesis
    using boot_becomes_the_machine_asked_for [OF sample_flags_int64(2) s(1) _ line.next_arg_axioms] s by (auto simp: sample_host_def)
qed

subsection \<open>From the arguments to the fingerprint\<close>

text \<open>The options that decide what a guest is given; a context id, a console and a number of
  hotplug disks only by being there.\<close>

definition same_hardware_flags :: "machineFlags \<Rightarrow> machineFlags \<Rightarrow> bool" where
  "same_hardware_flags x y \<longleftrightarrow> mf_release x = mf_release y \<and> mf_firmware x = mf_firmware y \<and> mf_bios x = mf_bios y
     \<and> mf_accel x = mf_accel y \<and> mf_cpuModel x = mf_cpuModel y \<and> mf_cpus x = mf_cpus y \<and> mf_maxCPUs x = mf_maxCPUs y
     \<and> mf_memoryMB x = mf_memoryMB y \<and> mf_maxMemMB x = mf_maxMemMB y \<and> (mf_vsockCID x = 0) = (mf_vsockCID y = 0)
     \<and> (mf_hotplugDisks x > 0) = (mf_hotplugDisks y > 0) \<and> (mf_console x = []) = (mf_console y = [])"

lemma same_flags_same_hardware:
  assumes "flags_spec os x = Inr s" and "flags_spec os y = Inr t" and "same_hardware_flags x y"
  shows "path_join (s_Firmware s) (spec_bios s) = path_join (s_Firmware t) (spec_bios t)"
    and "hardware_of os cpu s = hardware_of os cpu t"
proof -
  obtain rel q d where s: "OpenRelease os (mf_release x) = Inr rel" "s = flags_machine x ((release_Spec rel)\<lparr>s_QEMU := q\<rparr>) d"
    using assms(1) unfolding flags_spec_Inr by blast
  obtain rel' q' d' where t: "OpenRelease os (mf_release y) = Inr rel'" "t = flags_machine y ((release_Spec rel')\<lparr>s_QEMU := q'\<rparr>) d'"
    using assms(2) unfolding flags_spec_Inr by blast
  have "rel' = rel" using s(1) t(1) assms(3) by (simp add: same_hardware_flags_def)
  then show path: "path_join (s_Firmware s) (spec_bios s) = path_join (s_Firmware t) (spec_bios t)"
    using assms(3) unfolding s(2) t(2) by (simp add: flags_machine_def same_hardware_flags_def spec_bios_def)
  show "hardware_of os cpu s = hardware_of os cpu t"
    using assms(3) path unfolding hardware_of_def s(2) t(2)
    by (simp add: flags_machine_def same_hardware_flags_def release_Spec_def zero_spec_def cpuModel_def spec_accel_def)
qed

text \<open>C3: What \<^verbatim>\<open>fingerprint\<close> prints is the machine's and not the VM's. Of two accepted machines whose
  fingerprints can be computed and whose CPU and BIOS have names in UTF-8, it prints the same text
  exactly when both have the BIOS at one path and present the same hardware, whatever SHA-256
  makes of it; and command lines that agree on the
  release and the options that decide the hardware print the same, whatever their disks, sockets,
  kernels, kernel parameters, emulators and context ids are.\<close>

theorem fingerprint_is_the_machines:
  assumes "list_all int64 (machine_ints x)" and "list_all int64 (machine_ints y)"
    and "flags_spec (ce_os env) x = Inr s" and "flags_spec (ce_os env) y = Inr t"
    and "validate s = None" and "validate t = None"
    and "Fingerprint (ce_os env) s = Inr f" and "Fingerprint (ce_os env) t = Inr g"
  shows "(utf8_names s \<and> utf8_names t \<longrightarrow>
       (run env (''fingerprint'' # machine_argv x) = run env (''fingerprint'' # machine_argv y) \<longleftrightarrow>
       path_join (s_Firmware s) (spec_bios s) = path_join (s_Firmware t) (spec_bios t)
       \<and> hardware_of (ce_os env) (hostCPUModel (ce_os env)) s = hardware_of (ce_os env) (hostCPUModel (ce_os env)) t))
    \<and> (same_hardware_flags x y \<longrightarrow>
       run env (''fingerprint'' # machine_argv x) = run env (''fingerprint'' # machine_argv y))"
proof -
  have ok: "spec_ok s" "spec_ok t" using assms(5,6) by (simp_all add: validate_None)
  have run: "run env (''fingerprint'' # machine_argv z) = print_fingerprint (ce_os env) u"
    if "list_all int64 (machine_ints z)" and "flags_spec (ce_os env) z = Inr u" for z u
    using that by (simp add: run_machine_argv run_machine_def)
  have "print_fingerprint (ce_os env) s = print_fingerprint (ce_os env) t" if "same_hardware_flags x y"
    using same_flags_same_hardware [OF assms(3,4) that] identity_eq [OF ok assms(7,8)]
    by (simp add: print_fingerprint_def assms(7,8))
  then show ?thesis
    unfolding run [OF assms(1,3)] run [OF assms(2,4)] using print_fingerprint_eq [OF ok assms(7,8)] by blast
qed

lemma sample_fingerprint:
  assumes "flags_spec sample_tree x = Inr s" and "validate s = None" and "mf_cpuModel x = ''EPYC''"
  shows "\<exists>f. Fingerprint sample_tree s = Inr f"
proof -
  have "cpuModel s = ''EPYC''" using assms(1,3) by (auto simp: flags_spec_Inr flags_machine_def cpuModel_def)
  moreover have "spec_ok s" using assms(2) by (simp add: validate_None)
  moreover have "fileSize sample_tree p = Inr 1" for p by (simp add: fileSize_def sample_tree_def)
  ultimately show ?thesis
    by (simp add: Fingerprint_def fingerprint_def fingerprint_writes_def Shape_cpu_model derivedFromHost_def Let_def)
qed

theorem fingerprint_is_the_machines_witness:
  "run sample_host (''fingerprint'' # machine_argv named_flags) = run sample_host (''fingerprint'' # machine_argv other_flags)"
proof -
  obtain s t where s: "flags_spec sample_tree named_flags = Inr s" "validate s = None"
    and t: "flags_spec sample_tree other_flags = Inr t" "validate t = None"
    using sample_flags_valid by blast
  have "mf_cpuModel named_flags = ''EPYC''" "mf_cpuModel other_flags = ''EPYC''"
    by (simp_all add: named_flags_def other_flags_def)
  with s t obtain f g where fg: "Fingerprint sample_tree s = Inr f" "Fingerprint sample_tree t = Inr g"
    using sample_fingerprint by metis
  have "same_hardware_flags named_flags other_flags" by (simp add: same_hardware_flags_def other_flags_def)
  moreover have "ce_os sample_host = sample_tree" by (simp add: sample_host_def)
  ultimately show ?thesis
    using fingerprint_is_the_machines [OF sample_flags_int64, of sample_host s t f g] s t fg by simp
qed

end
